(* ===== verification/Prelude.thy ===== *)
theory Prelude
  imports Main "HOL-Library.Word" "HOL-Library.AList" "HOL-Library.List_Lexorder" "HOL-Library.Char_ord"
begin

text \<open>
  Shared vocabulary of the development: the errors of the Go code, results,
  collections of facts and generic lemmas.

  A Go \<open>string\<close> or \<open>[]byte\<close> is a \<open>char list\<close>: a \<open>char\<close> is one byte, so lengths
  and indices count bytes as they do in Go.  A fallible operation returns
  \<open>goerr + 'a\<close>.  An error keeps what the code can observe of it: its identity
  under \<open>errors.Is\<close> and its text.
\<close>

unbundle bit_operations_syntax

named_theorems io_frame \<open>what an operation leaves unchanged in the world\<close>
named_theorems io_eval \<open>the result of an operation when no event is scheduled\<close>

type_synonym int64 = "64 word"

subsection \<open>Errors\<close>

datatype errno = ENOENT | EEXIST | EACCES | EPERM | ENOTDIR | EISDIR | ELOOP | ENOTEMPTY
  | EINVAL | EIO | ENOSPC | EBADF | EEscapes

datatype sentinel = ErrUnsafePath | ErrInvalidProvider | ErrNoCredential | ErrEntryTooLarge
  | ErrNotFound | ErrUnsupported | ErrInvalidKey | ErrAmbiguousEncoding
  | ErrTokenRedirect | ErrTokenResponseTooLarge | ErrInvalidTokenResponse
  | Canceled | DeadlineExceeded

text \<open>
  \<open>SysErr\<close> is an \<open>*fs.PathError\<close> (operation, path, cause), \<open>MsgErr\<close> an
  \<open>errors.New\<close>, \<open>WrapErr\<close> an \<open>fmt.Errorf\<close> with one \<open>%w\<close> after a prefix,
  \<open>JoinErr\<close> an \<open>errors.Join\<close>.
\<close>

datatype goerr = SysErr string string errno | Sentinel sentinel | MsgErr string
  | WrapErr string goerr | JoinErr "goerr list"

fun errno_text :: "errno \<Rightarrow> string" where
  "errno_text ENOENT = ''no such file or directory''"
| "errno_text EEXIST = ''file exists''"
| "errno_text EACCES = ''permission denied''"
| "errno_text EPERM = ''operation not permitted''"
| "errno_text ENOTDIR = ''not a directory''"
| "errno_text EISDIR = ''is a directory''"
| "errno_text ELOOP = ''too many levels of symbolic links''"
| "errno_text ENOTEMPTY = ''directory not empty''"
| "errno_text EINVAL = ''invalid argument''"
| "errno_text EIO = ''input/output error''"
| "errno_text ENOSPC = ''no space left on device''"
| "errno_text EBADF = ''bad file descriptor''"
| "errno_text EEscapes = ''path escapes from parent''"

fun sentinel_text :: "sentinel \<Rightarrow> string" where
  "sentinel_text ErrUnsafePath = ''unsafe sensitive-data path''"
| "sentinel_text ErrInvalidProvider = ''invalid session provider''"
| "sentinel_text ErrNoCredential = ''no credential found''"
| "sentinel_text ErrEntryTooLarge = ''audit entry exceeds maximum size''"
| "sentinel_text ErrNotFound = ''secret not found''"
| "sentinel_text ErrUnsupported = ''secret backend unsupported''"
| "sentinel_text ErrInvalidKey = ''invalid secret key''"
| "sentinel_text ErrAmbiguousEncoding = ''ambiguous legacy keychain encoding''"
| "sentinel_text ErrTokenRedirect = ''oauth: token endpoint redirects are not allowed''"
| "sentinel_text ErrTokenResponseTooLarge = ''oauth: token response exceeds size limit''"
| "sentinel_text ErrInvalidTokenResponse = ''oauth: token response has no access token''"
| "sentinel_text Canceled = ''context canceled''"
| "sentinel_text DeadlineExceeded = ''context deadline exceeded''"

text \<open>\<open>join_with\<close> is \<open>strings.Join\<close>; \<open>err_text\<close> is the method \<open>Error()\<close>.\<close>

fun join_with :: "string \<Rightarrow> string list \<Rightarrow> string" where
  "join_with sep [] = []"
| "join_with sep [x] = x"
| "join_with sep (x # y # ys) = x @ sep @ join_with sep (y # ys)"

fun err_text :: "goerr \<Rightarrow> string" where
  "err_text (SysErr op p e) = op @ '' '' @ p @ '': '' @ errno_text e"
| "err_text (Sentinel s) = sentinel_text s"
| "err_text (MsgErr m) = m"
| "err_text (WrapErr p e) = p @ err_text e"
| "err_text (JoinErr es) = join_with [CHR 0x0A] (map err_text es)"

text \<open>\<open>errors.Is\<close> against \<open>fs.ErrNotExist\<close>, \<open>fs.ErrExist\<close> and the package sentinels.\<close>

fun is_not_exist :: "goerr \<Rightarrow> bool" where
  "is_not_exist (SysErr op p e) = (e = ENOENT)"
| "is_not_exist (Sentinel s) = False"
| "is_not_exist (MsgErr m) = False"
| "is_not_exist (WrapErr p e) = is_not_exist e"
| "is_not_exist (JoinErr es) = list_ex is_not_exist es"

fun is_exist :: "goerr \<Rightarrow> bool" where
  "is_exist (SysErr op p e) = (e = EEXIST \<or> e = ENOTEMPTY)"
| "is_exist (Sentinel s) = False"
| "is_exist (MsgErr m) = False"
| "is_exist (WrapErr p e) = is_exist e"
| "is_exist (JoinErr es) = list_ex is_exist es"

fun is_sentinel :: "sentinel \<Rightarrow> goerr \<Rightarrow> bool" where
  "is_sentinel t (SysErr op p e) = False"
| "is_sentinel t (Sentinel s) = (s = t)"
| "is_sentinel t (MsgErr m) = False"
| "is_sentinel t (WrapErr p e) = is_sentinel t e"
| "is_sentinel t (JoinErr es) = list_ex (is_sentinel t) es"

lemma not_exist_not_exist: "is_not_exist (SysErr op p e) \<Longrightarrow> \<not> is_exist (SysErr op p e)"
  by simp

subsection \<open>Association lists\<close>

lemma map_of_update_eq [simp]: "map_of (AList.update k v xs) = (map_of xs)(k \<mapsto> v)"
  by (rule update_conv')

lemma map_of_delete_eq [simp]: "map_of (AList.delete k xs) = (map_of xs)(k := None)"
  by (rule delete_conv')

lemma update_notin: "k \<notin> fst ` set xs \<Longrightarrow> AList.update k v xs = xs @ [(k, v)]"
  by (induction xs) auto

lemma distinct_update_keys: "distinct (map fst xs) \<Longrightarrow> distinct (map fst (AList.update k v xs))"
  by (rule distinct_update)

lemma distinct_delete_keys: "distinct (map fst xs) \<Longrightarrow> distinct (map fst (AList.delete k xs))"
  by (rule distinct_delete)

subsection \<open>Results\<close>

definition is_ok :: "'e + 'a \<Rightarrow> bool" where
  "is_ok r = (case r of Inl _ \<Rightarrow> False | Inr _ \<Rightarrow> True)"

lemma is_ok_simps [simp]: "is_ok (Inl e) = False" "is_ok (Inr a) = True"
  by (simp_all add: is_ok_def)

end
