(* ===== verification/Go_Strings.thy ===== *)
theory Go_Strings
  imports Prelude
begin

text \<open>
  The functions of the packages \<open>strings\<close>, \<open>bytes\<close>, \<open>unicode/utf8\<close> and
  \<open>path/filepath\<close> (on Unix) the program calls, on byte strings.
\<close>

abbreviation byte :: "char \<Rightarrow> nat" where
  "byte c \<equiv> of_char c"

subsection \<open>Prefixes, suffixes, splitting\<close>

definition has_prefix :: "string \<Rightarrow> string \<Rightarrow> bool" where
  "has_prefix s p = (take (length p) s = p)"

definition has_suffix :: "string \<Rightarrow> string \<Rightarrow> bool" where
  "has_suffix s p = (length p \<le> length s \<and> drop (length s - length p) s = p)"

definition trim_suffix :: "string \<Rightarrow> string \<Rightarrow> string" where
  "trim_suffix s p = (if has_suffix s p then take (length s - length p) s else s)"

definition cut_prefix :: "string \<Rightarrow> string \<Rightarrow> string \<times> bool" where
  "cut_prefix s p = (if has_prefix s p then (drop (length p) s, True) else (s, False))"

definition contains_any :: "string \<Rightarrow> string \<Rightarrow> bool" where
  "contains_any s cs = list_ex (\<lambda>c. c \<in> set cs) s"

text \<open>\<open>strings.Split\<close> at a one-byte separator: never the empty list.\<close>

fun split_on :: "char \<Rightarrow> string \<Rightarrow> string list" where
  "split_on d [] = [[]]"
| "split_on d (c # cs) =
     (if c = d then [] # split_on d cs
      else case split_on d cs of [] \<Rightarrow> [[c]] | p # ps \<Rightarrow> (c # p) # ps)"

lemma split_on_not_Nil [simp]: "split_on d s \<noteq> []"
  by (cases s) (auto split: list.split)

lemma split_on_no_sep: "d \<notin> set s \<Longrightarrow> split_on d s = [s]"
  by (induction s) auto

lemma split_on_append: "d \<notin> set s \<Longrightarrow> split_on d (s @ d # t) = s # split_on d t"
  by (induction s) auto

lemma join_split: "join_with [d] (split_on d s) = s"
proof (induction s)
  case (Cons c cs)
  show ?case
  proof (cases "split_on d cs")
    case Nil
    then show ?thesis by simp
  next
    case (Cons p ps)
    with Cons.IH show ?thesis by (cases ps) auto
  qed
qed simp

lemma has_suffix_append [simp]: "has_suffix (s @ p) p"
  by (simp add: has_suffix_def)

lemma trim_suffix_append [simp]: "trim_suffix (s @ p) p = s"
  by (simp add: trim_suffix_def)

lemma has_prefix_append [simp]: "has_prefix (p @ s) p"
  by (simp add: has_prefix_def)

lemma cut_prefix_append [simp]: "cut_prefix (p @ s) p = (s, True)"
  by (simp add: cut_prefix_def)

lemma has_suffixE: "has_suffix s p \<Longrightarrow> \<exists>t. s = t @ p"
  by (metis append_take_drop_id has_suffix_def)

lemma has_prefix_iff: "has_prefix s p \<longleftrightarrow> (\<exists>t. s = p @ t)"
  by (metis append_eq_conv_conj append_take_drop_id has_prefix_def)

subsection \<open>White space and control characters\<close>

text \<open>
  \<open>strings.TrimSpace\<close> strips the runes of \<open>unicode.IsSpace\<close>.  These are the UTF-8
  encodings of the \<open>White_Space\<close> runes; no encoding is a prefix of another, and a
  leading byte is never a continuation byte, so stripping encodings byte-wise from
  either end removes what the rune-wise trimming removes.
\<close>

definition space_runes :: "string list" where
  "space_runes = [[CHR 0x09], [CHR 0x0A], [CHR 0x0B], [CHR 0x0C], [CHR 0x0D], [CHR 0x20],
     [CHR 0xC2, CHR 0x85], [CHR 0xC2, CHR 0xA0], [CHR 0xE1, CHR 0x9A, CHR 0x80],
     [CHR 0xE2, CHR 0x80, CHR 0x80], [CHR 0xE2, CHR 0x80, CHR 0x81], [CHR 0xE2, CHR 0x80, CHR 0x82],
     [CHR 0xE2, CHR 0x80, CHR 0x83], [CHR 0xE2, CHR 0x80, CHR 0x84], [CHR 0xE2, CHR 0x80, CHR 0x85],
     [CHR 0xE2, CHR 0x80, CHR 0x86], [CHR 0xE2, CHR 0x80, CHR 0x87], [CHR 0xE2, CHR 0x80, CHR 0x88],
     [CHR 0xE2, CHR 0x80, CHR 0x89], [CHR 0xE2, CHR 0x80, CHR 0x8A], [CHR 0xE2, CHR 0x80, CHR 0xA8],
     [CHR 0xE2, CHR 0x80, CHR 0xA9], [CHR 0xE2, CHR 0x80, CHR 0xAF], [CHR 0xE2, CHR 0x81, CHR 0x9F],
     [CHR 0xE3, CHR 0x80, CHR 0x80]]"

definition leading_space :: "string list \<Rightarrow> string \<Rightarrow> string option" where
  "leading_space rs s = find (\<lambda>r. r \<noteq> [] \<and> has_prefix s r) rs"

lemma leading_space_Some:
  "leading_space rs s = Some r \<Longrightarrow> r \<noteq> [] \<and> r \<in> set rs \<and> s = r @ drop (length r) s"
  unfolding leading_space_def find_Some_iff
  by (metis append_take_drop_id has_prefix_def nth_mem)

function trim_left :: "string list \<Rightarrow> string \<Rightarrow> string" where
  "trim_left rs s =
     (case leading_space rs s of None \<Rightarrow> s | Some r \<Rightarrow> trim_left rs (drop (length r) s))"
  by pat_completeness auto
termination
proof (relation "measure (length \<circ> snd)", simp)
  fix rs :: "string list" and s r :: string
  assume "leading_space rs s = Some r"
  then have "r \<noteq> []" "s = r @ drop (length r) s"
    by (auto dest: leading_space_Some)
  then have "0 < length r" "length s \<noteq> 0"
    by auto
  then show "((rs, drop (length r) s), rs, s) \<in> measure (length \<circ> snd)"
    by simp
qed

declare trim_left.simps [simp del]

definition trim_space :: "string \<Rightarrow> string" where
  "trim_space s = rev (trim_left (map rev space_runes) (rev (trim_left space_runes s)))"

text \<open>
  \<open>strings.ContainsFunc(s, unicode.IsControl)\<close>: the runes below 32, 127, and
  U+0080 to U+009F, which are encoded as C2 followed by 80 to 9F.
\<close>

fun contains_control :: "string \<Rightarrow> bool" where
  "contains_control [] = False"
| "contains_control (c # cs) =
     (byte c < 32 \<or> byte c = 127 \<or>
      (byte c = 0xC2 \<and> (case cs of [] \<Rightarrow> False | d # _ \<Rightarrow> 0x80 \<le> byte d \<and> byte d < 0xA0)) \<or>
      contains_control cs)"

lemma trim_left_no_space: "leading_space rs s = None \<Longrightarrow> trim_left rs s = s"
  by (simp add: trim_left.simps [of rs s])

lemma trim_left_suffix: "\<exists>t. s = t @ trim_left rs s"
proof (induction rs s rule: trim_left.induct)
  case (1 rs s)
  show ?case
  proof (cases "leading_space rs s")
    case None
    then show ?thesis by (simp add: trim_left_no_space)
  next
    case (Some r)
    then obtain t where t: "drop (length r) s = t @ trim_left rs (drop (length r) s)"
      using "1.IH" by blast
    from Some have "s = r @ drop (length r) s" by (auto dest: leading_space_Some)
    with t Some have "s = (r @ t) @ trim_left rs s"
      by (simp add: trim_left.simps [of rs s])
    then show ?thesis by blast
  qed
qed

lemma trim_left_stops: "leading_space rs (trim_left rs s) = None"
proof (induction rs s rule: trim_left.induct)
  case (1 rs s)
  then show ?case
    by (cases "leading_space rs s") (auto simp: trim_left.simps [of rs s])
qed

subsection \<open>Paths\<close>

text \<open>
  The lexical path functions of \<open>path/filepath\<close> on Unix.  \<open>clean_comps\<close> is the loop
  of \<open>Clean\<close> over the components, the output kept reversed.
\<close>

fun clean_comps :: "bool \<Rightarrow> string list \<Rightarrow> string list \<Rightarrow> string list" where
  "clean_comps rooted out [] = rev out"
| "clean_comps rooted out (p # ps) =
     (if p = [] \<or> p = ''.'' then clean_comps rooted out ps
      else if p = ''..'' then
        (case out of
           [] \<Rightarrow> if rooted then clean_comps rooted [] ps else clean_comps rooted [''..''] ps
         | q # qs \<Rightarrow> if q = ''..'' then clean_comps rooted (''..'' # q # qs) ps
                     else clean_comps rooted qs ps)
      else clean_comps rooted (p # out) ps)"

definition is_abs :: "string \<Rightarrow> bool" where
  "is_abs p = has_prefix p ''/''"

definition clean :: "string \<Rightarrow> string" where
  "clean p = (let cs = clean_comps (is_abs p) [] (split_on CHR ''/'' p)
     in if is_abs p then ''/'' @ join_with ''/'' cs
        else if cs = [] then ''.'' else join_with ''/'' cs)"

text \<open>\<open>filepath.Join\<close> drops empty elements; \<open>Dir\<close> and \<open>Base\<close> split at the last slash.\<close>

definition join_path :: "string list \<Rightarrow> string" where
  "join_path ps = (let qs = filter (\<lambda>p. p \<noteq> []) ps
     in if qs = [] then [] else clean (join_with ''/'' qs))"

definition after_last_slash :: "string \<Rightarrow> string" where
  "after_last_slash p = rev (takeWhile (\<lambda>c. c \<noteq> CHR ''/'') (rev p))"

definition upto_last_slash :: "string \<Rightarrow> string" where
  "upto_last_slash p = rev (dropWhile (\<lambda>c. c \<noteq> CHR ''/'') (rev p))"

definition path_dir :: "string \<Rightarrow> string" where
  "path_dir p = clean (upto_last_slash p)"

definition path_base :: "string \<Rightarrow> string" where
  "path_base p =
     (if p = [] then ''.''
      else let q = after_last_slash (rev (dropWhile (\<lambda>c. c = CHR ''/'') (rev p)))
           in if q = [] then ''/'' else q)"

definition is_local :: "string \<Rightarrow> bool" where
  "is_local p =
     (if is_abs p \<or> p = [] then False
      else let hasDots = list_ex (\<lambda>c. c = ''.'' \<or> c = ''..'') (split_on CHR ''/'' p);
               q = (if hasDots then clean p else p)
           in \<not> (q = ''..'' \<or> has_prefix q ''../''))"

subsection \<open>File names\<close>

text \<open>
  A plain name is one path component that is neither empty nor a dot entry: the
  names a directory can hold.
\<close>

definition plain_name :: "string \<Rightarrow> bool" where
  "plain_name n = (n \<noteq> [] \<and> n \<noteq> ''.'' \<and> n \<noteq> ''..'' \<and> CHR ''/'' \<notin> set n)"

lemma plain_split [simp]: "plain_name n \<Longrightarrow> split_on CHR ''/'' n = [n]"
  by (simp add: plain_name_def split_on_no_sep)

lemma plain_not_abs: "plain_name n \<Longrightarrow> \<not> is_abs (n @ s)"
  by (cases n) (auto simp: plain_name_def is_abs_def has_prefix_def)

lemma plain_clean [simp]: "plain_name n \<Longrightarrow> clean n = n"
  using plain_not_abs [of n "[]"] by (simp add: clean_def Let_def) (simp add: plain_name_def)

lemma plain_no_dotdot_prefix: "plain_name n \<Longrightarrow> \<not> has_prefix n ''../''"
  by (auto simp: plain_name_def has_prefix_iff)

lemma plain_is_local [simp]: "plain_name n \<Longrightarrow> is_local n"
  using plain_not_abs [of n "[]"] plain_no_dotdot_prefix [of n]
  by (simp add: is_local_def Let_def) (simp add: plain_name_def)

lemma takeWhile_no_slash: "CHR ''/'' \<notin> set n \<Longrightarrow> takeWhile (\<lambda>c. c \<noteq> CHR ''/'') (rev n) = rev n"
  by (auto simp: takeWhile_eq_all_conv)

lemma dropWhile_no_slash: "CHR ''/'' \<notin> set n \<Longrightarrow> dropWhile (\<lambda>c. c \<noteq> CHR ''/'') (rev n) = []"
  by (auto simp: dropWhile_eq_Nil_conv)

lemma plain_rev_not_slash: "plain_name n \<Longrightarrow> dropWhile (\<lambda>c. c = CHR ''/'') (rev (s @ n)) = rev (s @ n)"
  by (cases n rule: rev_cases) (auto simp: plain_name_def)

lemma plain_base [simp]: "plain_name n \<Longrightarrow> path_base n = n"
  using plain_rev_not_slash [of n "[]"]
  by (simp add: path_base_def after_last_slash_def Let_def takeWhile_no_slash plain_name_def)

lemma plain_dir [simp]: "plain_name n \<Longrightarrow> path_dir n = ''.''"
  by (auto simp: path_dir_def upto_last_slash_def plain_name_def clean_def is_abs_def has_prefix_def
      dropWhile_no_slash)

text \<open>Two components, as in \<open>profiles/name.json\<close>.\<close>

lemma two_split: "plain_name d \<Longrightarrow> plain_name n \<Longrightarrow> split_on CHR ''/'' (d @ ''/'' @ n) = [d, n]"
  by (simp add: split_on_append split_on_no_sep plain_name_def)

lemma two_clean [simp]: "plain_name d \<Longrightarrow> plain_name n \<Longrightarrow> clean (d @ ''/'' @ n) = d @ ''/'' @ n"
  using plain_not_abs [of d "''/'' @ n"] two_split [of d n]
  by (simp add: clean_def Let_def) (simp add: plain_name_def)

lemma two_join [simp]: "plain_name d \<Longrightarrow> plain_name n \<Longrightarrow> join_path [d, n] = d @ ''/'' @ n"
  using two_clean [of d n] by (simp add: join_path_def Let_def plain_name_def)

lemma two_base [simp]: "plain_name d \<Longrightarrow> plain_name n \<Longrightarrow> path_base (d @ ''/'' @ n) = n"
  using plain_rev_not_slash [of n "d @ ''/''"]
  by (simp add: path_base_def after_last_slash_def Let_def takeWhile_append plain_name_def)

lemma two_dir [simp]:
  assumes "plain_name d" "plain_name n"
  shows "path_dir (d @ ''/'' @ n) = d"
proof -
  have "upto_last_slash (d @ ''/'' @ n) = d @ ''/''"
    using assms by (simp add: upto_last_slash_def plain_name_def dropWhile_append)
  moreover have "split_on CHR ''/'' (d @ ''/'') = [d, []]"
    using assms split_on_append [of "CHR ''/''" d "[]"] by (simp add: plain_name_def)
  ultimately show ?thesis
    using assms plain_not_abs [of d "''/''"]
    by (simp add: path_dir_def clean_def Let_def) (simp add: plain_name_def)
qed

lemma two_is_local [simp]:
  assumes "plain_name d" "plain_name n"
  shows "is_local (d @ ''/'' @ n)"
proof -
  have "\<not> has_prefix (d @ ''/'' @ n) ''../''"
  proof
    assume "has_prefix (d @ ''/'' @ n) ''../''"
    then obtain t where "d @ ''/'' @ n = ''../'' @ t" by (auto simp: has_prefix_iff)
    then have "split_on CHR ''/'' (d @ ''/'' @ n) = split_on CHR ''/'' (''..'' @ ''/'' @ t)"
      by simp
    with two_split [OF assms] assms show False
      by (simp add: plain_name_def)
  qed
  moreover have "d @ ''/'' @ n \<noteq> ''..''"
  proof
    assume "d @ ''/'' @ n = ''..''"
    then have "CHR ''/'' \<in> set ''..''" by (metis in_set_conv_decomp append_Cons)
    then show False by simp
  qed
  ultimately show ?thesis
    using assms two_split [OF assms] plain_not_abs [of d "''/'' @ n"]
    by (auto simp add: is_local_def Let_def plain_name_def)
qed

text \<open>A file of a directory, whatever the directory: \<open>Base(Join(dir, name))\<close> is \<open>name\<close>.\<close>

lemma split_on_mid: "split_on d (a @ d # b) = split_on d a @ split_on d b"
proof (induction a)
  case (Cons c a)
  then show ?case by (cases "split_on d a") (auto split: list.splits)
qed simp

lemma clean_comps_snoc: "plain_name n \<Longrightarrow> \<exists>cs. clean_comps r out (ps @ [n]) = cs @ [n]"
  by (induction ps arbitrary: out) (auto simp: plain_name_def split: list.splits)

lemma join_with_snoc: "join_with sep (cs @ [n]) = (if cs = [] then n else join_with sep cs @ sep @ n)"
proof (induction cs)
  case (Cons c cs)
  then show ?case by (cases cs) auto
qed simp

lemma base_tail:
  assumes "plain_name n"
  shows "path_base (s @ CHR ''/'' # n) = n"
  using assms plain_rev_not_slash [of n "s @ ''/''"]
  by (simp add: path_base_def after_last_slash_def Let_def takeWhile_append plain_name_def)

lemma base_join [simp]:
  assumes n: "plain_name n"
  shows "path_base (join_path [d, n]) = n"
proof (cases "d = []")
  case True
  then show ?thesis using n by (simp add: join_path_def plain_name_def Let_def)
next
  case False
  obtain cs where cs: "clean_comps (is_abs (d @ CHR ''/'' # n)) [] (split_on CHR ''/'' d @ [n]) = cs @ [n]"
    using clean_comps_snoc [OF n] by blast
  have "join_path [d, n] = clean (d @ CHR ''/'' # n)"
    using False n by (simp add: join_path_def plain_name_def)
  moreover have "split_on CHR ''/'' (d @ CHR ''/'' # n) = split_on CHR ''/'' d @ [n]"
    using n by (simp add: split_on_mid)
  ultimately have "join_path [d, n] = n \<or> (\<exists>s. join_path [d, n] = s @ CHR ''/'' # n)"
    using cs by (auto simp: clean_def Let_def join_with_snoc)
  then show ?thesis using n base_tail by auto
qed
end
