(* ===== verification/Go_Time.thy ===== *)
theory Go_Time
  imports Go_Strings
begin

text \<open>
  The part of the package \<open>time\<close> the program uses: instants in nanoseconds since the
  Unix epoch with a zone offset in minutes, durations as signed 64-bit nanoseconds,
  and the RFC 3339 text of \<open>Time.MarshalJSON\<close> and \<open>Time.UnmarshalJSON\<close>.  The lenient
  second attempt of \<open>UnmarshalJSON\<close> (one-digit hours, comma fractions) is not modelled:
  such texts are errors here.
\<close>

record gotime =
  tns :: int
  tzone :: int

type_synonym duration = int64

definition second :: duration where
  "second = 1000000000"

definition zero_time :: gotime where
  "zero_time = \<lparr>tns = -62135596800000000000, tzone = 0\<rparr>"

definition is_zero_time :: "gotime \<Rightarrow> bool" where
  "is_zero_time t = (tns t = tns zero_time)"

definition t_before :: "gotime \<Rightarrow> gotime \<Rightarrow> bool" where
  "t_before a b = (tns a < tns b)"

definition t_after :: "gotime \<Rightarrow> gotime \<Rightarrow> bool" where
  "t_after a b = (tns b < tns a)"

definition t_add :: "gotime \<Rightarrow> duration \<Rightarrow> gotime" where
  "t_add t d = t\<lparr>tns := tns t + sint d\<rparr>"

definition t_utc :: "gotime \<Rightarrow> gotime" where
  "t_utc t = t\<lparr>tzone := 0\<rparr>"

text \<open>Go's integer division truncates towards zero.\<close>

definition trunc_div :: "int \<Rightarrow> int \<Rightarrow> int" where
  "trunc_div a b = sgn a * sgn b * (\<bar>a\<bar> div \<bar>b\<bar>)"

definition div64 :: "int64 \<Rightarrow> int64 \<Rightarrow> int64" where
  "div64 a b = word_of_int (trunc_div (sint a) (sint b))"

subsection \<open>The calendar\<close>

definition days_before :: "int \<Rightarrow> int" where
  "days_before y = 365 * y + (y + 3) div 4 - (y + 99) div 100 + (y + 399) div 400"

definition is_leap :: "int \<Rightarrow> bool" where
  "is_leap y = (y mod 4 = 0 \<and> (y mod 100 \<noteq> 0 \<or> y mod 400 = 0))"

definition month_days :: "int \<Rightarrow> int list" where
  "month_days y = [31, if is_leap y then 29 else 28, 31, 30, 31, 30, 31, 31, 30, 31, 30, 31]"

definition year_of :: "int \<Rightarrow> int" where
  "year_of d = (let y = (400 * d) div 146097
     in if d < days_before y then y - 1 else if days_before (y + 1) \<le> d then y + 1 else y)"

fun find_month :: "int list \<Rightarrow> nat \<Rightarrow> int \<Rightarrow> nat \<times> int" where
  "find_month [] i d = (i, d + 1)"
| "find_month (m # ms) i d = (if d < m then (i, d + 1) else find_month ms (Suc i) (d - m))"

definition civil_of_days :: "int \<Rightarrow> int \<times> nat \<times> int" where
  "civil_of_days d =
     (let y = year_of d; (m, k) = find_month (month_days y) 1 (d - days_before y) in (y, m, k))"

definition days_of_civil :: "int \<Rightarrow> nat \<Rightarrow> int \<Rightarrow> int" where
  "days_of_civil y m k = days_before y + sum_list (take (m - 1) (month_days y)) + (k - 1)"

definition epoch_day :: int where
  "epoch_day = days_before 1970"

lemma div_mod_ex: "0 < k \<Longrightarrow> \<exists>q r. x div k = q \<and> x = k * q + r \<and> 0 \<le> r \<and> r < k" for x k :: int
  by (intro exI [of _ "x div k"] exI [of _ "x mod k"]) simp

lemma days_before_bounds:
  "146097 * y - 396 \<le> 400 * days_before y" "400 * days_before y \<le> 146097 * y + 699"
proof -
  obtain a r where a: "(y + 3) div 4 = a" "y + 3 = 4 * a + r" "0 \<le> r" "r < 4"
    using div_mod_ex [of 4 "y + 3"] by auto
  obtain b s where b: "(y + 99) div 100 = b" "y + 99 = 100 * b + s" "0 \<le> s" "s < 100"
    using div_mod_ex [of 100 "y + 99"] by auto
  obtain c t where c: "(y + 399) div 400 = c" "y + 399 = 400 * c + t" "0 \<le> t" "t < 400"
    using div_mod_ex [of 400 "y + 399"] by auto
  have "days_before y = 365 * y + a - b + c" by (simp add: days_before_def a(1) b(1) c(1))
  with a(2-) b(2-) c(2-) show "146097 * y - 396 \<le> 400 * days_before y"
    "400 * days_before y \<le> 146097 * y + 699"
    by linarith+
qed

lemma div_step:
  fixes k y :: int
  assumes k: "0 < k"
  shows "(y + k) div k = (y + (k - 1)) div k + (if y mod k = 0 then 1 else 0)"
proof -
  have r: "0 \<le> y mod k" "y mod k < k" using k by simp_all
  have "y + (k - 1) = (y mod k + (k - 1)) + k * (y div k)" by simp
  then have "(y + (k - 1)) div k = ((y mod k + (k - 1)) + k * (y div k)) div k"
    by (rule arg_cong)
  also have "\<dots> = y div k + (y mod k + (k - 1)) div k"
    using k by (intro div_mult_self2) simp
  finally have 1: "(y + (k - 1)) div k = y div k + (y mod k + (k - 1)) div k" .
  have 2: "(y mod k + (k - 1)) div k = (if y mod k = 0 then 0 else 1)"
  proof (cases "y mod k = 0")
    case True
    with k show ?thesis by simp
  next
    case False
    have "(y mod k + (k - 1)) div k = ((y mod k - 1) + k) div k"
      by (rule arg_cong [where f = "\<lambda>x. x div k"]) simp
    also have "\<dots> = (y mod k - 1) div k + 1"
      using k div_add_self2 [of k "y mod k - 1"] by simp
    finally show ?thesis using False r by simp
  qed
  have "(y + k) div k = y div k + 1" using k div_add_self2 [of k y] by simp
  with 1 2 show ?thesis by simp
qed

lemma leap_count:
  assumes "C \<longrightarrow> B" "B \<longrightarrow> A"
  shows "(if A then 1 else 0) - (if B then 1 else 0) + (if C then 1 else 0)
    = (if A \<and> (\<not> B \<or> C) then 1 else (0::int))"
  using assms by (cases A; cases B; cases C) simp_all

lemma days_before_Suc: "days_before (y + 1) = days_before y + (if is_leap y then 366 else 365)"
proof -
  have "y mod 400 mod 100 = y mod 100" "y mod 100 mod 4 = y mod 4"
    by (rule mod_mod_cancel, simp)+
  then have m: "y mod 400 = 0 \<longrightarrow> y mod 100 = 0" "y mod 100 = 0 \<longrightarrow> y mod 4 = 0"
    by (metis mod_0)+
  define i where "i = (\<lambda>k. if y mod k = 0 then 1 else 0 :: int)"
  define q where "q = (\<lambda>k. (y + (k - 1)) div k)"
  have step: "(y + k) div k = q k + i k" if "0 < k" for k
    using div_step [OF that, of y] by (simp add: i_def q_def)
  have "days_before (y + 1) = 365 * y + 365 + (y + 4) div 4 - (y + 100) div 100 + (y + 400) div 400"
    unfolding days_before_def by (simp add: add.assoc)
  also have "\<dots> = 365 * y + 365 + (q 4 + i 4) - (q 100 + i 100) + (q 400 + i 400)"
    by (simp add: step)
  finally have "days_before (y + 1) = 365 * y + 365 + (q 4 + i 4) - (q 100 + i 100) + (q 400 + i 400)" .
  moreover have "days_before y = 365 * y + q 4 - q 100 + q 400"
    by (simp add: days_before_def q_def)
  moreover have "i 4 - i 100 + i 400 = (if is_leap y then 1 else 0)"
    unfolding i_def is_leap_def using m by (rule leap_count)
  ultimately have "days_before (y + 1) = days_before y + 365 + (if is_leap y then 1 else 0)" by linarith
  then show ?thesis by (simp split: if_splits)
qed

lemma year_of_bounds: "days_before (year_of d) \<le> d" "d < days_before (year_of d + 1)"
proof -
  obtain y r where ydef: "(400 * d) div 146097 = y" and yr: "400 * d = 146097 * y + r" "0 \<le> r" "r < 146097"
    using div_mod_ex [of 146097 "400 * d"] by auto
  then have y: "146097 * y \<le> 400 * d" "400 * d < 146097 * y + 146097" by linarith+
  have lo: "days_before (y - 1) \<le> d"
    using days_before_bounds(2) [of "y - 1", unfolded right_diff_distrib] y by linarith
  have hi: "d < days_before (y + 1 + 1)"
    using days_before_bounds(1) [of "y + 1 + 1", unfolded distrib_left] y by linarith
  show "days_before (year_of d) \<le> d" "d < days_before (year_of d + 1)"
    using lo hi unfolding year_of_def Let_def ydef by auto
qed

lemma sum_month_days: "sum_list (month_days y) = (if is_leap y then 366 else 365)"
  by (simp add: month_days_def)

lemma find_month_sound:
  "find_month ms i d = (m, k) \<Longrightarrow> 0 \<le> d \<Longrightarrow> d < sum_list ms \<Longrightarrow>
   i \<le> m \<and> m - i < length ms \<and> d = sum_list (take (m - i) ms) + (k - 1) \<and> 1 \<le> k \<and> k \<le> ms ! (m - i)"
proof (induction ms i d rule: find_month.induct)
  case (2 n ns i d)
  show ?case
  proof (cases "d < n")
    case True
    with 2 show ?thesis by auto
  next
    case False
    with 2 have IH: "Suc i \<le> m" "m - Suc i < length ns"
      "d - n = sum_list (take (m - Suc i) ns) + (k - 1)" "1 \<le> k" "k \<le> ns ! (m - Suc i)"
      by auto
    from IH(1) have "m - i = Suc (m - Suc i)" by simp
    with IH show ?thesis by auto
  qed
qed auto

lemma civil_sound:
  assumes "civil_of_days d = (y, m, k)"
  shows "days_of_civil y m k = d" "1 \<le> m" "m \<le> 12" "1 \<le> k" "k \<le> month_days y ! (m - 1)" "y = year_of d"
proof -
  from assms have y: "y = year_of d" and fm: "find_month (month_days y) 1 (d - days_before y) = (m, k)"
    by (auto simp: civil_of_days_def Let_def split: prod.splits)
  have "0 \<le> d - days_before y" "d - days_before y < sum_list (month_days y)"
    using year_of_bounds [of d] by (simp_all add: y sum_month_days days_before_Suc split: if_splits)
  note s = find_month_sound [OF fm this]
  have "length (month_days y) = 12" by (simp add: month_days_def)
  with s show "1 \<le> m" "m \<le> 12" by linarith+
  from s show "days_of_civil y m k = d" "1 \<le> k" "k \<le> month_days y ! (m - 1)" "y = year_of d"
    by (simp_all add: days_of_civil_def y)
qed

lemma month_days_le: "m < 12 \<Longrightarrow> month_days y ! m \<le> 31"
  by (auto simp: month_days_def less_Suc_eq numeral_eq_Suc)

subsection \<open>Digits\<close>

definition digit_char :: "int \<Rightarrow> char" where
  "digit_char n = char_of (48 + nat n)"

definition is_digit :: "char \<Rightarrow> bool" where
  "is_digit c = (48 \<le> byte c \<and> byte c \<le> 57)"

definition digit_val :: "char \<Rightarrow> int" where
  "digit_val c = int (byte c) - 48"

fun digits_val :: "int \<Rightarrow> string \<Rightarrow> int option" where
  "digits_val acc [] = Some acc"
| "digits_val acc (c # cs) =
     (if is_digit c then digits_val (acc * 10 + digit_val c) cs else None)"

lemma byte_digit_char: "0 \<le> n \<Longrightarrow> n < 10 \<Longrightarrow> byte (digit_char n) = 48 + nat n"
  by (simp add: digit_char_def)

lemma digit_char [simp]:
  assumes "0 \<le> n" "n < 10"
  shows "is_digit (digit_char n)" "digit_val (digit_char n) = n"
  using assms byte_digit_char [OF assms] by (auto simp: is_digit_def digit_val_def)

fun pad :: "nat \<Rightarrow> int \<Rightarrow> string" where
  "pad 0 n = []"
| "pad (Suc k) n = pad k (n div 10) @ [digit_char (n mod 10)]"

lemma length_pad [simp]: "length (pad k n) = k"
  by (induction k arbitrary: n) auto

lemma digits_val_append:
  "digits_val acc (s @ t) = (case digits_val acc s of None \<Rightarrow> None | Some v \<Rightarrow> digits_val v t)"
  by (induction s arbitrary: acc) auto

lemma digits_val_pad: "0 \<le> n \<Longrightarrow> n < 10 ^ k \<Longrightarrow> digits_val acc (pad k n) = Some (acc * 10 ^ k + n)"
proof (induction k arbitrary: n acc)
  case (Suc k)
  then have "0 \<le> n div 10" "n div 10 < 10 ^ k" by auto
  with Suc.IH show ?case
    by (simp add: digits_val_append algebra_simps)
qed simp

lemma is_digit_pad: "c \<in> set (pad k n) \<Longrightarrow> is_digit c"
  by (induction k arbitrary: n) auto

lemma digits_val_scale: "digits_val acc (s @ replicate k (digit_char 0)) = Some v \<Longrightarrow>
  \<exists>w. digits_val acc s = Some w \<and> v = w * 10 ^ k"
proof (induction k arbitrary: v)
  case (Suc k)
  have "s @ replicate (Suc k) (digit_char 0) = (s @ replicate k (digit_char 0)) @ [digit_char 0]"
    by (simp add: replicate_append_same)
  then have "(case digits_val acc (s @ replicate k (digit_char 0)) of None \<Rightarrow> None
      | Some u \<Rightarrow> digits_val u [digit_char 0]) = Some v"
    using Suc.prems digits_val_append [of acc "s @ replicate k (digit_char 0)" "[digit_char 0]"] by metis
  then obtain u where "digits_val acc (s @ replicate k (digit_char 0)) = Some u" "v = u * 10"
    by (auto split: option.splits)
  with Suc.IH show ?case by fastforce
qed simp

subsection \<open>RFC 3339\<close>

definition strip_zeros :: "string \<Rightarrow> string" where
  "strip_zeros s = rev (dropWhile (\<lambda>c. c = digit_char 0) (rev s))"

definition frac_text :: "int \<Rightarrow> string" where
  "frac_text ns = (if ns = 0 then [] else ''.'' @ strip_zeros (pad 9 ns))"

definition zone_text :: "int \<Rightarrow> string" where
  "zone_text z = (if z = 0 then ''Z''
     else (if z < 0 then ''-'' else ''+'') @ pad 2 (\<bar>z\<bar> div 60) @ '':'' @ pad 2 (\<bar>z\<bar> mod 60))"

definition date_text :: "int \<Rightarrow> nat \<Rightarrow> int \<Rightarrow> int \<Rightarrow> string" where
  "date_text y m k s = pad 4 y @ ''-'' @ pad 2 (int m) @ ''-'' @ pad 2 k @ ''T'' @
     pad 2 (s div 3600) @ '':'' @ pad 2 (s div 60 mod 60) @ '':'' @ pad 2 (s mod 60)"

text \<open>Seconds of local time since the start of the year 0, split into day and second of the day.\<close>

definition local_day :: "gotime \<Rightarrow> int" where
  "local_day t = (tns t div 1000000000 + 60 * tzone t) div 86400 + epoch_day"

definition local_sec :: "gotime \<Rightarrow> int" where
  "local_sec t = (tns t div 1000000000 + 60 * tzone t) mod 86400"

definition marshal_time :: "gotime \<Rightarrow> string option" where
  "marshal_time t =
     (let (y, m, k) = civil_of_days (local_day t)
      in if y < 0 \<or> 9999 < y \<or> 24 \<le> \<bar>tzone t\<bar> div 60 then None
         else Some (date_text y m k (local_sec t) @ frac_text (tns t mod 1000000000) @ zone_text (tzone t)))"

definition parse_uint :: "string \<Rightarrow> int \<Rightarrow> int \<Rightarrow> int option" where
  "parse_uint s lo hi =
     (case digits_val 0 s of None \<Rightarrow> None | Some x \<Rightarrow> if lo \<le> x \<and> x \<le> hi then Some x else None)"

definition parse_date :: "string \<Rightarrow> (int \<times> nat \<times> int \<times> int) option" where
  "parse_date s =
     (case parse_uint (take 4 s) 0 9999 of None \<Rightarrow> None | Some y \<Rightarrow>
      case parse_uint (take 2 (drop 5 s)) 1 12 of None \<Rightarrow> None | Some m \<Rightarrow>
      case parse_uint (take 2 (drop 8 s)) 1 (month_days y ! (nat m - 1)) of None \<Rightarrow> None | Some k \<Rightarrow>
      case parse_uint (take 2 (drop 11 s)) 0 23 of None \<Rightarrow> None | Some h \<Rightarrow>
      case parse_uint (take 2 (drop 14 s)) 0 59 of None \<Rightarrow> None | Some mi \<Rightarrow>
      case parse_uint (take 2 (drop 17 s)) 0 59 of None \<Rightarrow> None | Some sec \<Rightarrow>
      if s ! 4 = CHR ''-'' \<and> s ! 7 = CHR ''-'' \<and> s ! 10 = CHR ''T'' \<and> s ! 13 = CHR '':'' \<and> s ! 16 = CHR '':''
      then Some (y, nat m, k, h * 3600 + mi * 60 + sec) else None)"

definition parse_frac :: "string \<Rightarrow> int \<times> string" where
  "parse_frac s =
     (case s of
        c # d # r \<Rightarrow>
          if c = CHR ''.'' \<and> is_digit d then
            (let ds = takeWhile is_digit (d # r); n = take 9 ds
             in (case digits_val 0 n of None \<Rightarrow> 0 | Some v \<Rightarrow> v * 10 ^ (9 - length n),
                 dropWhile is_digit (d # r)))
          else (0, s)
      | _ \<Rightarrow> (0, s))"

definition parse_zone :: "string \<Rightarrow> int option" where
  "parse_zone s =
     (if s = ''Z'' then Some 0
      else if length s \<noteq> 6 then None
      else case parse_uint (take 2 (drop 1 s)) 0 23 of None \<Rightarrow> None | Some hr \<Rightarrow>
           case parse_uint (take 2 (drop 4 s)) 0 59 of None \<Rightarrow> None | Some mm \<Rightarrow>
           if (s ! 0 = CHR ''-'' \<or> s ! 0 = CHR ''+'') \<and> s ! 3 = CHR '':''
           then Some (if s ! 0 = CHR ''-'' then - (hr * 60 + mm) else hr * 60 + mm) else None)"

definition parse_time :: "string \<Rightarrow> gotime option" where
  "parse_time s =
     (if length s < 19 then None
      else case parse_date (take 19 s) of None \<Rightarrow> None | Some (y, m, k, sec) \<Rightarrow>
           let (ns, r) = parse_frac (drop 19 s)
           in case parse_zone r of None \<Rightarrow> None | Some z \<Rightarrow>
                Some \<lparr>tns = ((days_of_civil y m k - epoch_day) * 86400 + sec - 60 * z) * 1000000000 + ns,
                      tzone = z\<rparr>)"

lemma parse_uint_pad:
  "0 \<le> n \<Longrightarrow> n < 10 ^ k \<Longrightarrow> lo \<le> n \<Longrightarrow> n \<le> hi \<Longrightarrow> parse_uint (pad k n) lo hi = Some n"
  by (simp add: parse_uint_def digits_val_pad)

lemma length_date_text: "length (date_text y m k s) = 19"
  by (simp add: date_text_def)

lemma parse_date_text:
  assumes "0 \<le> y" "y \<le> 9999" "1 \<le> m" "m \<le> 12" "1 \<le> k" "k \<le> month_days y ! (m - 1)" "0 \<le> s" "s < 86400"
  shows "parse_date (date_text y m k s) = Some (y, m, k, s)"
proof -
  have k: "k \<le> 31" using assms month_days_le [of "m - 1" y] by linarith
  have h: "0 \<le> s div 3600" "s div 3600 \<le> 23" using assms by simp_all
  have m: "0 \<le> s div 60 mod 60" "s div 60 mod 60 \<le> 59" "0 \<le> s mod 60" "s mod 60 \<le> 59"
    using pos_mod_bound [of 60 "s div 60"] pos_mod_bound [of 60 s] by simp_all
  have sum: "s div 3600 * 3600 + s div 60 mod 60 * 60 + s mod 60 = s"
  proof -
    have e: "q * 3600 + r * 60 + m = (q * 60 + r) * 60 + m" for q r m :: int by simp
    have "s div 3600 = s div 60 div 60" using zdiv_zmult2_eq [of 60 s 60] by simp
    then have "s div 3600 * 3600 + s div 60 mod 60 * 60 + s mod 60
        = (s div 60 div 60 * 60 + s div 60 mod 60) * 60 + s mod 60"
      by (simp only: e)
    also have "\<dots> = s" by (simp only: div_mult_mod_eq)
    finally show ?thesis .
  qed
  define hh mi ss where d: "hh = s div 3600" "mi = s div 60 mod 60" "ss = s mod 60"
  have b: "0 \<le> hh" "hh \<le> 23" "0 \<le> mi" "mi \<le> 59" "0 \<le> ss" "ss \<le> 59" "hh * 3600 + mi * 60 + ss = s"
    using h m sum by (simp_all only: d)
  show ?thesis
    unfolding date_text_def d [symmetric]
    using assms(1-6) k b by (simp add: parse_date_def parse_uint_pad nth_append)
qed

lemma strip_zeros_split: "\<exists>n. s = strip_zeros s @ replicate n (digit_char 0)"
proof -
  have "takeWhile (\<lambda>c. c = digit_char 0) (rev s) = replicate (length (takeWhile (\<lambda>c. c = digit_char 0) (rev s))) (digit_char 0)"
    by (metis (full_types) replicate_length_same set_takeWhileD)
  then have "s = strip_zeros s @ replicate (length (takeWhile (\<lambda>c. c = digit_char 0) (rev s))) (digit_char 0)"
    unfolding strip_zeros_def
    by (metis rev_append rev_replicate rev_rev_ident takeWhile_dropWhile_id)
  then show ?thesis by blast
qed

lemma zone_text_head: "\<exists>c r. zone_text z = c # r \<and> c \<noteq> CHR ''.'' \<and> \<not> is_digit c"
  by (auto simp: zone_text_def is_digit_def)

lemma parse_zone_text:
  assumes "\<bar>z\<bar> div 60 < 24"
  shows "parse_zone (zone_text z) = Some z"
proof -
  have b: "0 \<le> \<bar>z\<bar> div 60" "\<bar>z\<bar> div 60 \<le> 23" "0 \<le> \<bar>z\<bar> mod 60" "\<bar>z\<bar> mod 60 \<le> 59"
    using assms pos_mod_bound [of 60 "\<bar>z\<bar>"] by simp_all
  have "\<bar>z\<bar> div 60 * 60 + \<bar>z\<bar> mod 60 = \<bar>z\<bar>" by (rule div_mult_mod_eq)
  with b show ?thesis
    by (auto simp: zone_text_def parse_zone_def parse_uint_pad nth_append)
qed

lemma parse_frac_dot:
  "is_digit d \<Longrightarrow> parse_frac (CHR ''.'' # d # x) =
     (let n = take 9 (takeWhile is_digit (d # x))
      in (case digits_val 0 n of None \<Rightarrow> 0 | Some v \<Rightarrow> v * 10 ^ (9 - length n), dropWhile is_digit (d # x)))"
  by (simp only: parse_frac_def list.case Let_def simp_thms if_True)

lemma parse_frac_text:
  assumes "0 \<le> ns" "ns < 1000000000"
  shows "parse_frac (frac_text ns @ zone_text z) = (ns, zone_text z)"
proof (cases "ns = 0")
  case True
  then show ?thesis
    using zone_text_head [of z] by (auto simp: frac_text_def parse_frac_def split: list.split)
next
  case False
  define ds where "ds = strip_zeros (pad 9 ns)"
  obtain n where n: "pad 9 ns = ds @ replicate n (digit_char 0)"
    unfolding ds_def using strip_zeros_split by blast
  have val: "digits_val 0 (ds @ replicate n (digit_char 0)) = Some ns"
    using assms digits_val_pad [of ns 9 0] by (simp add: n)
  then obtain w where w: "digits_val 0 ds = Some w" "ns = w * 10 ^ n"
    using digits_val_scale by blast
  have len: "length ds + n = 9" using n length_pad [of 9 ns] by (metis length_append length_replicate)
  have dig: "\<forall>c \<in> set ds. is_digit c" using is_digit_pad [of _ 9 ns] by (auto simp: n)
  have "ds \<noteq> []" using w False by auto
  then obtain d r where dr: "ds = d # r" by (cases ds) auto
  obtain c q where z: "zone_text z = c # q" "\<not> is_digit c" using zone_text_head by blast
  have "takeWhile is_digit (ds @ zone_text z) = ds" "dropWhile is_digit (ds @ zone_text z) = zone_text z"
    using dig z by (simp_all add: takeWhile_append2 dropWhile_append2)
  moreover have "take 9 ds = ds" "9 - length ds = n" using len by simp_all
  moreover have "parse_frac (''.'' @ ds @ zone_text z) =
      (let n = take 9 (takeWhile is_digit (ds @ zone_text z))
       in (case digits_val 0 n of None \<Rightarrow> 0 | Some v \<Rightarrow> v * 10 ^ (9 - length n),
           dropWhile is_digit (ds @ zone_text z)))"
    using dig parse_frac_dot [of d "r @ zone_text z"] by (simp add: dr Let_def)
  ultimately have "parse_frac (''.'' @ ds @ zone_text z) = (ns, zone_text z)"
    using w by simp
  moreover have "frac_text ns = ''.'' @ ds" using False by (simp add: frac_text_def ds_def)
  ultimately show ?thesis by simp
qed

lemma parse_marshal_time:
  assumes "marshal_time t = Some s"
  shows "parse_time s = Some t"
proof -
  obtain y m k where c: "civil_of_days (local_day t) = (y, m, k)" by (cases "civil_of_days (local_day t)") auto
  with assms have y: "0 \<le> y" "y \<le> 9999" and z: "\<bar>tzone t\<bar> div 60 < 24"
    and s: "s = date_text y m k (local_sec t) @ frac_text (tns t mod 1000000000) @ zone_text (tzone t)"
    by (auto simp: marshal_time_def split: if_splits)
  have sec: "0 \<le> local_sec t" "local_sec t < 86400" by (simp_all add: local_sec_def)
  have date: "parse_date (date_text y m k (local_sec t)) = Some (y, m, k, local_sec t)"
    using parse_date_text [OF y civil_sound(2-5) [OF c] sec] .
  have frac: "parse_frac (frac_text (tns t mod 1000000000) @ zone_text (tzone t)) = (tns t mod 1000000000, zone_text (tzone t))"
    by (rule parse_frac_text) simp_all
  have "(local_day t - epoch_day) * 86400 + local_sec t - 60 * tzone t = tns t div 1000000000"
    using div_mult_mod_eq [of "tns t div 1000000000 + 60 * tzone t" 86400] by (simp add: local_day_def local_sec_def)
  then have ns: "((local_day t - epoch_day) * 86400 + local_sec t - 60 * tzone t) * 1000000000 + tns t mod 1000000000 = tns t"
    by (simp only: div_mult_mod_eq)
  show ?thesis
    using frac date ns civil_sound(1) [OF c] parse_zone_text [OF z]
    by (simp add: parse_time_def s length_date_text)
qed

end
