(* ===== verification/Go_FS.thy ===== *)
theory Go_FS
  imports Go_Time
begin

text \<open>
  The operating system under the program: a POSIX file system of inodes, the system calls
  behind \<open>os\<close> and \<open>os.Root\<close>, the clock, the environment and the entropy source.

  A schedule of events makes the surroundings explicit.  Each system call takes the next
  event: nothing, a failure of the call (with the number of bytes a write got through
  before failing), or an arbitrary step of other processes just before the call.  With an
  empty schedule the calls run undisturbed.

  The process is the unprivileged owner of every inode, so access is decided by the owner
  bits alone; what would fail for a foreign owner is a scheduled failure.
\<close>

subsection \<open>Inodes\<close>

type_synonym ino = nat
type_synonym mode = "32 word"

datatype node = RegFile mode string
  | DirNode mode ino "(string \<times> ino) list"
  | SymNode string
  | SpecialNode mode

record filesys =
  nodes :: "ino \<Rightarrow> node option"
  next_ino :: ino
  root_ino :: ino
  cwd_ino :: ino
  umask :: mode

definition dir_perm :: mode where "dir_perm = 0x1C0"
definition file_perm :: mode where "file_perm = 0x180"

definition can_read :: "mode \<Rightarrow> bool" where "can_read m = (m AND 0x100 \<noteq> 0)"
definition can_write :: "mode \<Rightarrow> bool" where "can_write m = (m AND 0x80 \<noteq> 0)"
definition can_search :: "mode \<Rightarrow> bool" where "can_search m = (m AND 0x40 \<noteq> 0)"

definition set_node :: "ino \<Rightarrow> node \<Rightarrow> filesys \<Rightarrow> filesys" where
  "set_node i n d = d\<lparr>nodes := (nodes d)(i := Some n)\<rparr>"

definition alloc :: "node \<Rightarrow> filesys \<Rightarrow> ino \<times> filesys" where
  "alloc n d = (next_ino d, d\<lparr>nodes := (nodes d)(next_ino d := Some n), next_ino := Suc (next_ino d)\<rparr>)"

text \<open>
  What \<open>Lstat\<close> and \<open>Stat\<close> report: identity (compared by \<open>os.SameFile\<close>), type, and the
  nine permission bits of \<open>Mode().Perm()\<close>.
\<close>

datatype kind = KReg | KDir | KSym | KSpecial

record stat =
  st_ino :: ino
  st_kind :: kind
  st_perm :: mode

fun kind_of :: "node \<Rightarrow> kind" where
  "kind_of (RegFile m c) = KReg"
| "kind_of (DirNode m p es) = KDir"
| "kind_of (SymNode t) = KSym"
| "kind_of (SpecialNode m) = KSpecial"

fun perm_of :: "node \<Rightarrow> mode" where
  "perm_of (RegFile m c) = m"
| "perm_of (DirNode m p es) = m"
| "perm_of (SymNode t) = 0x1FF"
| "perm_of (SpecialNode m) = m"

fun with_perm :: "mode \<Rightarrow> node \<Rightarrow> node" where
  "with_perm m (RegFile _ c) = RegFile m c"
| "with_perm m (DirNode _ p es) = DirNode m p es"
| "with_perm m (SymNode t) = SymNode t"
| "with_perm m (SpecialNode _) = SpecialNode m"

definition stat_of :: "ino \<Rightarrow> node \<Rightarrow> stat" where
  "stat_of i n = \<lparr>st_ino = i, st_kind = kind_of n, st_perm = perm_of n AND 0x1FF\<rparr>"

subsection \<open>Looking up names\<close>

definition lookup :: "filesys \<Rightarrow> ino \<Rightarrow> string \<Rightarrow> errno + ino" where
  "lookup d i p =
     (case nodes d i of
        Some (DirNode m _ es) \<Rightarrow>
          if \<not> can_search m then Inl EACCES
          else (case map_of es p of None \<Rightarrow> Inl ENOENT | Some j \<Rightarrow> Inr j)
      | _ \<Rightarrow> Inl ENOTDIR)"

definition dot :: "filesys \<Rightarrow> ino \<Rightarrow> errno + ino" where
  "dot d i =
     (case nodes d i of
        Some (DirNode m _ _) \<Rightarrow> if can_search m then Inr i else Inl EACCES
      | _ \<Rightarrow> Inl ENOTDIR)"

text \<open>
  Resolution inside an \<open>os.Root\<close>: the stack holds the directories from the current one up
  to the root; a symbolic link is followed (at most \<open>n\<close> of them) but neither it nor
  \<open>..\<close> may leave the root.
\<close>

fun resolve_root :: "filesys \<Rightarrow> nat \<Rightarrow> ino list \<Rightarrow> string list \<Rightarrow> errno + ino" where
  "resolve_root d n [] ps = Inl EEscapes"
| "resolve_root d n (i # st) [] = Inr i"
| "resolve_root d n (i # st) (p # ps) =
     (if p = [] then resolve_root d n (i # st) ps
      else if p = ''.'' then
        (case dot d i of Inl e \<Rightarrow> Inl e | Inr _ \<Rightarrow> resolve_root d n (i # st) ps)
      else if p = ''..'' then
        (if st = [] then Inl EEscapes else resolve_root d n st ps)
      else
        (case lookup d i p of
           Inl e \<Rightarrow> Inl e
         | Inr j \<Rightarrow>
             (case nodes d j of
                None \<Rightarrow> Inl ENOENT
              | Some (SymNode t) \<Rightarrow>
                  (case n of
                     0 \<Rightarrow> Inl ELOOP
                   | Suc k \<Rightarrow> if is_abs t then Inl EEscapes
                             else resolve_root d k (i # st) (split_on CHR ''/'' t @ ps))
              | Some (DirNode _ _ _) \<Rightarrow> resolve_root d n (j # i # st) ps
              | Some _ \<Rightarrow> if ps = [] then Inr j else Inl ENOTDIR)))"

definition root_max_symlinks :: nat where "root_max_symlinks = 8"
definition os_max_symlinks :: nat where "os_max_symlinks = 40"

text \<open>Resolution of a path by the kernel; \<open>follow\<close> says whether a final link is followed.\<close>

fun namei :: "filesys \<Rightarrow> bool \<Rightarrow> nat \<Rightarrow> ino \<Rightarrow> string list \<Rightarrow> errno + ino" where
  "namei d follow n i [] = Inr i"
| "namei d follow n i (p # ps) =
     (if p = [] then namei d follow n i ps
      else if p = ''.'' then
        (case dot d i of Inl e \<Rightarrow> Inl e | Inr _ \<Rightarrow> namei d follow n i ps)
      else if p = ''..'' then
        (case nodes d i of
           Some (DirNode m up _) \<Rightarrow> if can_search m then namei d follow n up ps else Inl EACCES
         | _ \<Rightarrow> Inl ENOTDIR)
      else
        (case lookup d i p of
           Inl e \<Rightarrow> Inl e
         | Inr j \<Rightarrow>
             (case nodes d j of
                None \<Rightarrow> Inl ENOENT
              | Some (SymNode t) \<Rightarrow>
                  if ps = [] \<and> \<not> follow then Inr j
                  else (case n of
                     0 \<Rightarrow> Inl ELOOP
                   | Suc k \<Rightarrow> namei d follow k (if is_abs t then root_ino d else i) (split_on CHR ''/'' t @ ps))
              | Some _ \<Rightarrow> namei d follow n j ps)))"

definition start_ino :: "filesys \<Rightarrow> string \<Rightarrow> ino" where
  "start_ino d p = (if is_abs p then root_ino d else cwd_ino d)"

definition resolve_path :: "filesys \<Rightarrow> bool \<Rightarrow> string \<Rightarrow> errno + ino" where
  "resolve_path d follow p =
     (if p = [] then Inl ENOENT
      else namei d follow os_max_symlinks (start_ino d p) (split_on CHR ''/'' p))"

subsection \<open>System calls on the disk\<close>

type_synonym 'a diskop = "filesys \<Rightarrow> (errno + 'a) \<times> filesys"

definition O_RDONLY :: "32 word" where "O_RDONLY = 0"
definition O_WRONLY :: "32 word" where "O_WRONLY = 1"
definition O_RDWR :: "32 word" where "O_RDWR = 2"
definition O_CREATE :: "32 word" where "O_CREATE = 0x40"
definition O_EXCL :: "32 word" where "O_EXCL = 0x80"
definition O_APPEND :: "32 word" where "O_APPEND = 0x400"

definition wants_write :: "32 word \<Rightarrow> bool" where
  "wants_write flags = (flags AND (O_WRONLY OR O_RDWR) \<noteq> 0)"

definition wants_create :: "32 word \<Rightarrow> bool" where
  "wants_create flags = (flags AND O_CREATE \<noteq> 0 \<and> flags AND O_EXCL \<noteq> 0)"

definition sys_fstat :: "ino \<Rightarrow> stat diskop" where
  "sys_fstat i d = (case nodes d i of None \<Rightarrow> Inl EBADF | Some n \<Rightarrow> Inr (stat_of i n), d)"

definition sys_lstat_at :: "ino \<Rightarrow> string \<Rightarrow> stat diskop" where
  "sys_lstat_at r p d =
     ((if p = ''..'' then Inl EEscapes
       else case (if p = ''.'' then dot d r else lookup d r p) of
              Inl e \<Rightarrow> Inl e
            | Inr j \<Rightarrow> (case nodes d j of None \<Rightarrow> Inl ENOENT | Some n \<Rightarrow> Inr (stat_of j n))), d)"

text \<open>The directory entry of a dot name exists already and is not created.\<close>

definition add_entry :: "ino \<Rightarrow> string \<Rightarrow> (ino \<Rightarrow> node) \<Rightarrow> ino diskop" where
  "add_entry r p mk d =
     (if p = ''..'' then (Inl EEscapes, d)
      else case nodes d r of
        Some (DirNode m up es) \<Rightarrow>
          if \<not> can_search m then (Inl EACCES, d)
          else if p = ''.'' \<or> map_of es p \<noteq> None then (Inl EEXIST, d)
          else if \<not> can_write m then (Inl EACCES, d)
          else (let (j, d1) = alloc (mk r) d
                in (Inr j, set_node r (DirNode m up (AList.update p j es)) d1))
      | _ \<Rightarrow> (Inl ENOTDIR, d))"

definition access_ok :: "32 word \<Rightarrow> node \<Rightarrow> errno option" where
  "access_ok flags n =
     (if kind_of n = KDir \<and> wants_write flags then Some EISDIR
      else if (flags AND 3 = O_WRONLY \<longrightarrow> can_write (perm_of n)) \<and>
              (flags AND 3 = O_RDWR \<longrightarrow> can_read (perm_of n) \<and> can_write (perm_of n)) \<and>
              (flags AND 3 = O_RDONLY \<longrightarrow> can_read (perm_of n))
      then None else Some EACCES)"

definition sys_open_at :: "ino \<Rightarrow> string \<Rightarrow> 32 word \<Rightarrow> mode \<Rightarrow> ino diskop" where
  "sys_open_at r p flags perm d =
     (if wants_create flags then add_entry r p (\<lambda>_. RegFile (perm AND NOT (umask d)) []) d
      else case resolve_root d root_max_symlinks [r] [p] of
             Inl e \<Rightarrow> (Inl e, d)
           | Inr j \<Rightarrow>
               (case nodes d j of
                  None \<Rightarrow> (Inl ENOENT, d)
                | Some n \<Rightarrow> (case access_ok flags n of Some e \<Rightarrow> (Inl e, d) | None \<Rightarrow> (Inr j, d))))"

definition open_dir_node :: "ino \<Rightarrow> ino diskop" where
  "open_dir_node j d =
     (case nodes d j of
        Some (DirNode m _ _) \<Rightarrow> if can_read m then (Inr j, d) else (Inl EACCES, d)
      | _ \<Rightarrow> (Inl ENOTDIR, d))"

definition sys_openroot_at :: "ino \<Rightarrow> string \<Rightarrow> ino diskop" where
  "sys_openroot_at r p d =
     (case resolve_root d root_max_symlinks [r] [p] of
        Inl e \<Rightarrow> (Inl e, d) | Inr j \<Rightarrow> open_dir_node j d)"

definition sys_mkdir_at :: "ino \<Rightarrow> string \<Rightarrow> mode \<Rightarrow> unit diskop" where
  "sys_mkdir_at r p perm d =
     (case add_entry r p (\<lambda>up. DirNode (perm AND NOT (umask d)) up []) d of
        (Inl e, d') \<Rightarrow> (Inl e, d') | (Inr _, d') \<Rightarrow> (Inr (), d'))"

definition sys_chmod :: "ino \<Rightarrow> mode \<Rightarrow> unit diskop" where
  "sys_chmod i m d =
     (case nodes d i of None \<Rightarrow> (Inl EBADF, d) | Some n \<Rightarrow> (Inr (), set_node i (with_perm m n) d))"

definition sys_read :: "ino \<Rightarrow> string diskop" where
  "sys_read i d =
     (case nodes d i of
        Some (RegFile _ c) \<Rightarrow> (Inr c, d) | Some (DirNode _ _ _) \<Rightarrow> (Inl EISDIR, d) | _ \<Rightarrow> (Inl EBADF, d))"

definition write_bytes :: "ino \<Rightarrow> bool \<Rightarrow> string \<Rightarrow> filesys \<Rightarrow> filesys" where
  "write_bytes i app data d =
     (case nodes d i of
        Some (RegFile m c) \<Rightarrow>
          set_node i (RegFile m (if app then c @ data else data @ drop (length data) c)) d
      | _ \<Rightarrow> d)"

definition sys_write :: "ino \<Rightarrow> bool \<Rightarrow> string \<Rightarrow> unit diskop" where
  "sys_write i app data d =
     (case nodes d i of
        Some (RegFile _ _) \<Rightarrow> (Inr (), write_bytes i app data d) | _ \<Rightarrow> (Inl EBADF, d))"

definition sys_rename_at :: "ino \<Rightarrow> string \<Rightarrow> string \<Rightarrow> unit diskop" where
  "sys_rename_at r old new d =
     (if old \<in> {''.'', ''..''} \<or> new \<in> {''.'', ''..''} then (Inl EINVAL, d)
      else case nodes d r of
        Some (DirNode m up es) \<Rightarrow>
          if \<not> (can_search m \<and> can_write m) then (Inl EACCES, d)
          else (case map_of es old of
                  None \<Rightarrow> (Inl ENOENT, d)
                | Some j \<Rightarrow>
                    if map_of es new = Some j then (Inr (), d)
                    else if (case map_of es new of None \<Rightarrow> False
                             | Some k \<Rightarrow> (case nodes d k of Some (DirNode _ _ _) \<Rightarrow> True | _ \<Rightarrow> False))
                    then (Inl EISDIR, d)
                    else (Inr (), set_node r (DirNode m up (AList.update new j (AList.delete old es))) d))
      | _ \<Rightarrow> (Inl ENOTDIR, d))"

definition sys_remove_at :: "ino \<Rightarrow> string \<Rightarrow> unit diskop" where
  "sys_remove_at r p d =
     (if p \<in> {''.'', ''..''} then (Inl EINVAL, d)
      else case nodes d r of
        Some (DirNode m up es) \<Rightarrow>
          if \<not> can_search m then (Inl EACCES, d)
          else (case map_of es p of
                  None \<Rightarrow> (Inl ENOENT, d)
                | Some j \<Rightarrow>
                    if \<not> can_write m then (Inl EACCES, d)
                    else (case nodes d j of
                       Some (DirNode _ _ (e # _)) \<Rightarrow> (Inl ENOTEMPTY, d)
                     | _ \<Rightarrow> (Inr (), set_node r (DirNode m up (AList.delete p es)) d)))
      | _ \<Rightarrow> (Inl ENOTDIR, d))"

definition sys_readdir :: "ino \<Rightarrow> (string list) diskop" where
  "sys_readdir r d =
     (case nodes d r of
        Some (DirNode m _ es) \<Rightarrow>
          if can_read m \<and> can_search m then (Inr (sort (remdups (map fst es))), d) else (Inl EACCES, d)
      | _ \<Rightarrow> (Inl ENOTDIR, d))"

text \<open>Calls by path.\<close>

definition sys_stat :: "bool \<Rightarrow> string \<Rightarrow> stat diskop" where
  "sys_stat follow p d =
     (case resolve_path d follow p of
        Inl e \<Rightarrow> (Inl e, d)
      | Inr j \<Rightarrow> (case nodes d j of None \<Rightarrow> (Inl ENOENT, d) | Some n \<Rightarrow> (Inr (stat_of j n), d)))"

definition sys_openroot :: "string \<Rightarrow> ino diskop" where
  "sys_openroot p d = (case resolve_path d True p of Inl e \<Rightarrow> (Inl e, d) | Inr j \<Rightarrow> open_dir_node j d)"

definition sys_chmod_path :: "string \<Rightarrow> mode \<Rightarrow> unit diskop" where
  "sys_chmod_path p m d = (case resolve_path d True p of Inl e \<Rightarrow> (Inl e, d) | Inr j \<Rightarrow> sys_chmod j m d)"

definition parent_path :: "string \<Rightarrow> string" where
  "parent_path p = rev (dropWhile (\<lambda>c. c \<noteq> CHR ''/'') (dropWhile (\<lambda>c. c = CHR ''/'') (rev p)))"

definition sys_mkdir :: "string \<Rightarrow> mode \<Rightarrow> unit diskop" where
  "sys_mkdir p perm d =
     (case filter (\<lambda>c. c \<noteq> []) (split_on CHR ''/'' p) of
        [] \<Rightarrow> (Inl EEXIST, d)
      | cs \<Rightarrow>
         (case namei d True os_max_symlinks (start_ino d p) (butlast cs) of
            Inl e \<Rightarrow> (Inl e, d)
          | Inr i \<Rightarrow> if last cs \<in> {''.'', ''..''} then (Inl EEXIST, d) else sys_mkdir_at i (last cs) perm d))"

definition sys_open_read :: "string \<Rightarrow> ino diskop" where
  "sys_open_read p d =
     (case resolve_path d True p of
        Inl e \<Rightarrow> (Inl e, d)
      | Inr j \<Rightarrow> (case nodes d j of
            None \<Rightarrow> (Inl ENOENT, d)
          | Some n \<Rightarrow> if can_read (perm_of n) then (Inr j, d) else (Inl EACCES, d)))"

subsection \<open>The world\<close>

datatype fsevent = Quiet | Fault errno nat | Interfere "filesys \<Rightarrow> filesys"

record world =
  disk :: filesys
  sched :: "fsevent list"
  clock :: int
  ticks :: "int list"
  local_zone :: int
  environ :: "string \<Rightarrow> string"
  entropy :: "nat \<Rightarrow> char"

type_synonym 'a io = "world \<Rightarrow> (goerr + 'a) \<times> world"

definition run_call :: "string \<Rightarrow> string \<Rightarrow> 'a diskop \<Rightarrow> 'a io" where
  "run_call op p f w =
     (case f (disk w) of
        (Inl e, d) \<Rightarrow> (Inl (SysErr op p e), w\<lparr>disk := d\<rparr>)
      | (Inr x, d) \<Rightarrow> (Inr x, w\<lparr>disk := d\<rparr>))"

text \<open>\<open>partial n\<close> is what a call that fails after \<open>n\<close> bytes has done to the disk.\<close>

definition syscall_partial :: "string \<Rightarrow> string \<Rightarrow> (nat \<Rightarrow> filesys \<Rightarrow> filesys) \<Rightarrow> 'a diskop \<Rightarrow> 'a io" where
  "syscall_partial op p partial f w =
     (case sched w of
        [] \<Rightarrow> run_call op p f w
      | ev # evs \<Rightarrow>
          (let w1 = w\<lparr>sched := evs\<rparr>
           in case ev of
                Quiet \<Rightarrow> run_call op p f w1
              | Fault e n \<Rightarrow> (Inl (SysErr op p e), w1\<lparr>disk := partial n (disk w)\<rparr>)
              | Interfere g \<Rightarrow> run_call op p f (w1\<lparr>disk := g (disk w)\<rparr>)))"

definition syscall :: "string \<Rightarrow> string \<Rightarrow> 'a diskop \<Rightarrow> 'a io" where
  "syscall op p f = syscall_partial op p (\<lambda>_ d. d) f"

definition r_lstat :: "ino \<Rightarrow> string \<Rightarrow> stat io" where
  "r_lstat r p = syscall ''lstatat'' p (sys_lstat_at r p)"

definition r_mkdir :: "ino \<Rightarrow> string \<Rightarrow> mode \<Rightarrow> unit io" where
  "r_mkdir r p m = syscall ''mkdirat'' p (sys_mkdir_at r p m)"

definition r_openroot :: "ino \<Rightarrow> string \<Rightarrow> ino io" where
  "r_openroot r p = syscall ''openat'' p (sys_openroot_at r p)"

definition r_openfile :: "ino \<Rightarrow> string \<Rightarrow> 32 word \<Rightarrow> mode \<Rightarrow> ino io" where
  "r_openfile r p flags m = syscall ''openat'' p (sys_open_at r p flags m)"

definition r_open :: "ino \<Rightarrow> string \<Rightarrow> ino io" where
  "r_open r p = r_openfile r p O_RDONLY 0"

definition r_rename :: "ino \<Rightarrow> string \<Rightarrow> string \<Rightarrow> unit io" where
  "r_rename r old new = syscall ''renameat'' old (sys_rename_at r old new)"

definition r_remove :: "ino \<Rightarrow> string \<Rightarrow> unit io" where
  "r_remove r p = syscall ''unlinkat'' p (sys_remove_at r p)"

definition r_readdir :: "ino \<Rightarrow> (string list) io" where
  "r_readdir r = syscall ''readdir'' ''.'' (sys_readdir r)"

definition f_stat :: "ino \<Rightarrow> stat io" where
  "f_stat i = syscall ''stat'' [] (sys_fstat i)"

definition f_chmod :: "ino \<Rightarrow> mode \<Rightarrow> unit io" where
  "f_chmod i m = syscall ''chmod'' [] (sys_chmod i m)"

definition f_read_all :: "ino \<Rightarrow> string io" where
  "f_read_all i = syscall ''read'' [] (sys_read i)"

text \<open>A write is at the end of the file when the handle was opened for append, else at its start.\<close>

definition f_write :: "ino \<Rightarrow> bool \<Rightarrow> string \<Rightarrow> unit io" where
  "f_write i app data =
     syscall_partial ''write'' [] (\<lambda>n. write_bytes i app (take n data)) (sys_write i app data)"

definition f_sync :: "ino \<Rightarrow> unit io" where
  "f_sync i = syscall ''sync'' [] (\<lambda>d. (Inr (), d))"

definition f_close :: "ino \<Rightarrow> unit io" where
  "f_close i = syscall ''close'' [] (\<lambda>d. (Inr (), d))"

definition os_stat :: "string \<Rightarrow> stat io" where
  "os_stat p = syscall ''stat'' p (sys_stat True p)"

definition os_lstat :: "string \<Rightarrow> stat io" where
  "os_lstat p = syscall ''lstat'' p (sys_stat False p)"

definition os_mkdir :: "string \<Rightarrow> mode \<Rightarrow> unit io" where
  "os_mkdir p m = syscall ''mkdir'' p (sys_mkdir p m)"

definition os_chmod :: "string \<Rightarrow> mode \<Rightarrow> unit io" where
  "os_chmod p m = syscall ''chmod'' p (sys_chmod_path p m)"

definition os_openroot :: "string \<Rightarrow> ino io" where
  "os_openroot p = syscall ''open'' p (sys_openroot p)"

definition os_open :: "string \<Rightarrow> ino io" where
  "os_open p = syscall ''open'' p (sys_open_read p)"

text \<open>\<open>os.MkdirAll\<close>: the parent first, then the directory; an existing directory is fine.\<close>

lemma parent_path_shorter: "p \<noteq> [] \<Longrightarrow> length (parent_path p) < length p"
proof -
  assume "p \<noteq> []"
  then obtain c q where p: "rev p = c # q" by (cases "rev p") auto
  then have len: "length p = Suc (length q)" by (metis length_Cons length_rev)
  have "length (dropWhile (\<lambda>c. c \<noteq> CHR ''/'') (dropWhile (\<lambda>c. c = CHR ''/'') (rev p))) \<le> length q"
  proof (cases "c = CHR ''/''")
    case True
    then show ?thesis
      using p le_trans [OF length_dropWhile_le [of _ "dropWhile (\<lambda>c. c = CHR ''/'') q"] length_dropWhile_le [of _ q]]
      by simp
  next
    case False
    then show ?thesis using p by (simp add: length_dropWhile_le)
  qed
  with len show ?thesis by (simp add: parent_path_def)
qed

function mkdir_all :: "string \<Rightarrow> mode \<Rightarrow> unit io" where
  "mkdir_all p m w =
     (case os_stat p w of
        (Inr st, w1) \<Rightarrow>
          if st_kind st = KDir then (Inr (), w1) else (Inl (SysErr ''mkdir'' p ENOTDIR), w1)
      | (Inl _, w1) \<Rightarrow>
          (case (if p = [] \<or> parent_path p = [] then (Inr (), w1) else mkdir_all (parent_path p) m w1) of
             (Inl e, w2) \<Rightarrow> (Inl e, w2)
           | (Inr _, w2) \<Rightarrow>
               (case os_mkdir p m w2 of
                  (Inr _, w3) \<Rightarrow> (Inr (), w3)
                | (Inl e, w3) \<Rightarrow>
                    (case os_lstat p w3 of
                       (Inr st, w4) \<Rightarrow> if st_kind st = KDir then (Inr (), w4) else (Inl e, w4)
                     | (Inl _, w4) \<Rightarrow> (Inl e, w4)))))"
  by pat_completeness auto
termination
  by (relation "measure (\<lambda>(p, m, w). length p)") (simp_all add: parent_path_shorter)

declare mkdir_all.simps [simp del]

text \<open>Time, environment and entropy.  \<open>rand.Read\<close> never fails in the Go versions the module supports.\<close>

definition time_now :: "world \<Rightarrow> gotime \<times> world" where
  "time_now w = (\<lparr>tns = clock w, tzone = local_zone w\<rparr>,
     case ticks w of [] \<Rightarrow> w | t # ts \<Rightarrow> w\<lparr>clock := clock w + t, ticks := ts\<rparr>)"

definition getenv :: "world \<Rightarrow> string \<Rightarrow> string" where
  "getenv w n = environ w n"

definition rand_read :: "nat \<Rightarrow> string io" where
  "rand_read n w = (Inr (map (entropy w) [0..<n]), w\<lparr>entropy := (\<lambda>i. entropy w (n + i))\<rparr>)"

definition base32_alphabet :: string where
  "base32_alphabet = ''ABCDEFGHIJKLMNOPQRSTUVWXYZ234567''"

text \<open>\<open>rand.Text\<close>: 26 letters of the base-32 alphabet.\<close>

definition rand_text :: "world \<Rightarrow> string \<times> world" where
  "rand_text w = (map (\<lambda>i. base32_alphabet ! (byte (entropy w i) mod 32)) [0..<26],
     w\<lparr>entropy := (\<lambda>i. entropy w (26 + i))\<rparr>)"

end
