(* ===== verification/Store.thy ===== *)
theory Store
  imports Go_FS
begin

text \<open>
  The package \<open>store\<close> (\<open>store.go\<close>, \<open>root.go\<close>, \<open>permissions_other.go\<close>): rooted file
  input and output.  A directory handle (\<open>*os.Root\<close>) and a file handle are inodes.
  Closing a handle whose result the code ignores has no effect on the modelled state and
  is left out; the two closes whose result is used are calls like any other.
\<close>

subsection \<open>permissions_other.go\<close>

definition secure_permissions :: "ino \<Rightarrow> stat \<Rightarrow> mode \<Rightarrow> bool \<Rightarrow> unit io" where
  "secure_permissions f info permitted write w =
     (let m = (if write then permitted else st_perm info AND permitted)
      in if m = st_perm info then (Inr (), w)
         else if \<not> write then (Inl (Sentinel ErrUnsafePath), w)
         else f_chmod f m w)"

definition secure_directory_path :: "string \<Rightarrow> stat \<Rightarrow> unit io" where
  "secure_directory_path path info w = os_chmod path dir_perm w"

subsection \<open>root.go: directories\<close>

definition secure_directory :: "ino \<Rightarrow> stat option \<Rightarrow> bool \<Rightarrow> unit io" where
  "secure_directory r expected create w =
     (case r_open r ''.'' w of
        (Inl e, w1) \<Rightarrow> (Inl (WrapErr ''open directory handle: '' e), w1)
      | (Inr f, w1) \<Rightarrow>
          (case f_stat f w1 of
             (Inl e, w2) \<Rightarrow> (Inl (WrapErr ''inspect directory handle: '' e), w2)
           | (Inr info, w2) \<Rightarrow>
               if st_kind info \<noteq> KDir \<or>
                  (case expected of None \<Rightarrow> False | Some x \<Rightarrow> st_ino info \<noteq> st_ino x)
               then (Inl (Sentinel ErrUnsafePath), w2)
               else secure_permissions f info dir_perm create w2))"

text \<open>\<open>Lstat\<close> of a component; with \<open>create\<close>, a missing one is made and inspected again.\<close>

definition inspect_part :: "ino \<Rightarrow> string \<Rightarrow> bool \<Rightarrow> stat io" where
  "inspect_part r part create w =
     (case r_lstat r part w of
        (Inr info, w1) \<Rightarrow> (Inr info, w1)
      | (Inl e, w1) \<Rightarrow>
          if is_not_exist e \<and> create then
            (case r_mkdir r part dir_perm w1 of
               (Inl e', w2) \<Rightarrow> if is_exist e' then r_lstat r part w2 else (Inl e', w2)
             | (Inr _, w2) \<Rightarrow> r_lstat r part w2)
          else (Inl e, w1))"

fun descend :: "ino \<Rightarrow> string list \<Rightarrow> bool \<Rightarrow> ino io" where
  "descend r [] create w = (Inr r, w)"
| "descend r (part # parts) create w =
     (if part = ''.'' then descend r parts create w
      else case inspect_part r part create w of
        (Inl e, w1) \<Rightarrow> (Inl (WrapErr ''inspect storage directory: '' e), w1)
      | (Inr info, w1) \<Rightarrow>
          if st_kind info \<noteq> KDir then (Inl (Sentinel ErrUnsafePath), w1)
          else case r_openroot r part w1 of
            (Inl e, w2) \<Rightarrow> (Inl (WrapErr ''open storage directory: '' e), w2)
          | (Inr next, w2) \<Rightarrow>
              (case secure_directory next (Some info) create w2 of
                 (Inl e, w3) \<Rightarrow> (Inl e, w3)
               | (Inr _, w3) \<Rightarrow> descend next parts create w3))"

definition open_directory :: "string \<Rightarrow> string \<Rightarrow> bool \<Rightarrow> ino io" where
  "open_directory rootDir name create w =
     (if \<not> is_local name then (Inl (Sentinel ErrUnsafePath), w)
      else case (if create then mkdir_all rootDir dir_perm w else (Inr (), w)) of
        (Inl e, w1) \<Rightarrow> (Inl (WrapErr ''create storage root: '' e), w1)
      | (Inr _, w1) \<Rightarrow>
          (case os_openroot rootDir w1 of
             (Inl e, w2) \<Rightarrow> (Inl (WrapErr ''open storage root: '' e), w2)
           | (Inr r, w2) \<Rightarrow>
               (case secure_directory r None create w2 of
                  (Inl e, w3) \<Rightarrow> (Inl e, w3)
                | (Inr _, w3) \<Rightarrow> descend r (split_on CHR ''/'' (clean name)) create w3)))"

definition open_parent :: "string \<Rightarrow> string \<Rightarrow> bool \<Rightarrow> (ino \<times> string) io" where
  "open_parent rootDir name create w =
     (if \<not> is_local name then (Inl (Sentinel ErrUnsafePath), w)
      else case open_directory rootDir (path_dir name) create w of
        (Inl e, w1) \<Rightarrow> (Inl e, w1)
      | (Inr r, w1) \<Rightarrow> (Inr (r, path_base name), w1))"

definition regular_info :: "ino \<Rightarrow> string \<Rightarrow> stat io" where
  "regular_info r name w =
     (case r_lstat r name w of
        (Inl e, w1) \<Rightarrow> (Inl e, w1)
      | (Inr info, w1) \<Rightarrow> if st_kind info \<noteq> KReg then (Inl (Sentinel ErrUnsafePath), w1) else (Inr info, w1))"

subsection \<open>root.go: writing\<close>

text \<open>The part of \<open>WriteSecureAt\<close> between opening the staged file and the deferred cleanup.\<close>

definition staged_write :: "ino \<Rightarrow> string \<Rightarrow> string \<Rightarrow> ino \<Rightarrow> string \<Rightarrow> unit io" where
  "staged_write r temporary base f data w =
     (case f_stat f w of
        (Inl e, w1) \<Rightarrow> (Inl (WrapErr ''inspect temporary credential file: '' e), w1)
      | (Inr info, w1) \<Rightarrow>
     (case secure_permissions f info file_perm True w1 of
        (Inl e, w2) \<Rightarrow> (Inl (WrapErr ''secure temporary credential file: '' e), w2)
      | (Inr _, w2) \<Rightarrow>
     (case f_write f False data w2 of
        (Inl e, w3) \<Rightarrow> (Inl (WrapErr ''write credential file: '' e), w3)
      | (Inr _, w3) \<Rightarrow>
     (case f_sync f w3 of
        (Inl e, w4) \<Rightarrow> (Inl (WrapErr ''sync credential file: '' e), w4)
      | (Inr _, w4) \<Rightarrow>
     (case f_close f w4 of
        (Inl e, w5) \<Rightarrow> (Inl (WrapErr ''close credential file: '' e), w5)
      | (Inr _, w5) \<Rightarrow>
     (case r_rename r temporary base w5 of
        (Inl e, w6) \<Rightarrow> (Inl (WrapErr ''replace credential file: '' e), w6)
      | (Inr _, w6) \<Rightarrow> (Inr (), w6)))))))"

definition temp_prefix :: string where
  "temp_prefix = ''.credkit-write-''"

definition write_secure_at :: "string \<Rightarrow> string \<Rightarrow> string \<Rightarrow> unit io" where
  "write_secure_at rootDir name data w =
     (case open_parent rootDir name True w of
        (Inl e, w1) \<Rightarrow> (Inl e, w1)
      | (Inr (r, base), w1) \<Rightarrow>
     (case regular_info r base w1 of
        (ri, w2) \<Rightarrow>
          if (case ri of Inl e \<Rightarrow> \<not> is_not_exist e | Inr _ \<Rightarrow> False)
          then (Inl (WrapErr ''inspect destination: '' (case ri of Inl e \<Rightarrow> e | Inr _ \<Rightarrow> MsgErr [])), w2)
          else
            (let (txt, w3) = rand_text w2;
                 temporary = temp_prefix @ txt
             in case r_openfile r temporary (O_CREATE OR O_EXCL OR O_WRONLY) file_perm w3 of
                  (Inl e, w4) \<Rightarrow> (Inl (WrapErr ''create temporary credential file: '' e), w4)
                | (Inr f, w4) \<Rightarrow>
                    (case staged_write r temporary base f data w4 of
                       (res, w5) \<Rightarrow> (res, snd (r_remove r temporary w5))))))"

subsection \<open>root.go: opening managed files\<close>

fun open_managed :: "nat \<Rightarrow> ino \<Rightarrow> string \<Rightarrow> 32 word \<Rightarrow> bool \<Rightarrow> ino io" where
  "open_managed 0 r name flags create w =
     (Inl (WrapErr ''secure file changed during creation: '' (Sentinel ErrUnsafePath)), w)"
| "open_managed (Suc n) r name flags create w =
     (case regular_info r name w of
        (ri, w1) \<Rightarrow>
          if (case ri of Inl e \<Rightarrow> \<not> (is_not_exist e \<and> create) | Inr _ \<Rightarrow> False)
          then (Inl (case ri of Inl e \<Rightarrow> e | Inr _ \<Rightarrow> MsgErr []), w1)
          else
            (let info = (case ri of Inl _ \<Rightarrow> None | Inr st \<Rightarrow> Some st);
                 openFlags = (if info = None then flags OR O_CREATE OR O_EXCL else flags)
             in case r_openfile r name openFlags file_perm w1 of
                  (Inl e, w2) \<Rightarrow>
                    if is_exist e \<and> info = None then open_managed n r name flags create w2 else (Inl e, w2)
                | (Inr f, w2) \<Rightarrow>
                    (case f_stat f w2 of
                       (Inl e, w3) \<Rightarrow> (Inl e, w3)
                     | (Inr opened, w3) \<Rightarrow>
                         if st_kind opened \<noteq> KReg \<or>
                            (case info of None \<Rightarrow> False | Some st \<Rightarrow> st_ino st \<noteq> st_ino opened)
                         then (Inl (Sentinel ErrUnsafePath), w3)
                         else (case secure_permissions f opened file_perm (wants_write flags) w3 of
                                 (Inl e, w4) \<Rightarrow> (Inl e, w4)
                               | (Inr _, w4) \<Rightarrow> (Inr f, w4)))))"

definition open_managed_file :: "ino \<Rightarrow> string \<Rightarrow> 32 word \<Rightarrow> bool \<Rightarrow> ino io" where
  "open_managed_file r name flags create = open_managed 2 r name flags create"

definition read_secure_at :: "string \<Rightarrow> string \<Rightarrow> string io" where
  "read_secure_at rootDir name w =
     (case open_parent rootDir name False w of
        (Inl e, w1) \<Rightarrow> (Inl e, w1)
      | (Inr (r, base), w1) \<Rightarrow>
     (case open_managed_file r base O_RDONLY False w1 of
        (Inl e, w2) \<Rightarrow> (Inl (WrapErr ''open credential file: '' e), w2)
      | (Inr f, w2) \<Rightarrow>
     (case f_read_all f w2 of
        (Inl e, w3) \<Rightarrow> (Inl (WrapErr ''read credential file: '' e), w3)
      | (Inr data, w3) \<Rightarrow> (Inr data, w3))))"

definition remove_secure_at :: "string \<Rightarrow> string \<Rightarrow> unit io" where
  "remove_secure_at rootDir name w =
     (case open_parent rootDir name False w of
        (Inl e, w1) \<Rightarrow> (Inl e, w1)
      | (Inr (r, base), w1) \<Rightarrow>
     (case regular_info r base w1 of
        (Inl e, w2) \<Rightarrow> (Inl e, w2)
      | (Inr _, w2) \<Rightarrow> r_remove r base w2))"

definition read_dir_secure_at :: "string \<Rightarrow> string \<Rightarrow> (string list) io" where
  "read_dir_secure_at rootDir name w =
     (case open_directory rootDir name False w of
        (Inl e, w1) \<Rightarrow> (Inl e, w1) | (Inr r, w1) \<Rightarrow> r_readdir r w1)"

definition exists_secure_at :: "string \<Rightarrow> string \<Rightarrow> world \<Rightarrow> bool \<times> world" where
  "exists_secure_at rootDir name w =
     (case open_parent rootDir name False w of
        (Inl e, w1) \<Rightarrow> (False, w1)
      | (Inr (r, base), w1) \<Rightarrow>
     (case open_managed_file r base O_RDONLY False w1 of
        (Inl e, w2) \<Rightarrow> (False, w2)
      | (Inr f, w2) \<Rightarrow> (case f_close f w2 of (res, w3) \<Rightarrow> (is_ok res, w3))))"

subsection \<open>store.go\<close>

definition xdg_config_dir :: "string \<Rightarrow> world \<Rightarrow> goerr + string" where
  "xdg_config_dir appName w =
     (let configHome = getenv w ''XDG_CONFIG_HOME''
      in if configHome \<noteq> [] then Inr (join_path [configHome, appName])
         else (let home = getenv w ''HOME''
               in if home = [] then Inl (WrapErr ''resolve home directory: '' (MsgErr ''$HOME is not defined''))
                  else Inr (join_path [join_path [home, ''.config''], appName])))"

definition ensure_dir :: "string \<Rightarrow> unit io" where
  "ensure_dir path w =
     (case mkdir_all path dir_perm w of
        (Inl e, w1) \<Rightarrow> (Inl (WrapErr (''create directory '' @ path @ '': '') e), w1)
      | (Inr _, w1) \<Rightarrow>
     (case os_lstat path w1 of
        (Inl e, w2) \<Rightarrow> (Inl (WrapErr (''inspect directory '' @ path @ '': '') e), w2)
      | (Inr info, w2) \<Rightarrow>
          if st_kind info \<noteq> KDir
          then (Inl (WrapErr (''secure directory '' @ path @ '': '') (Sentinel ErrUnsafePath)), w2)
          else (case secure_directory_path path info w2 of
                  (Inl e, w3) \<Rightarrow> (Inl (WrapErr (''secure directory '' @ path @ '': '') e), w3)
                | (Inr _, w3) \<Rightarrow> (Inr (), w3))))"

definition write_secure :: "string \<Rightarrow> string \<Rightarrow> unit io" where
  "write_secure path data w =
     (let dir = path_dir path
      in case ensure_dir dir w of
           (Inl e, w1) \<Rightarrow> (Inl e, w1)
         | (Inr _, w1) \<Rightarrow> write_secure_at dir (path_base path) data w1)"

definition read_secure :: "string \<Rightarrow> string io" where
  "read_secure path w = read_secure_at (path_dir path) (path_base path) w"

definition store_exists :: "string \<Rightarrow> world \<Rightarrow> bool \<times> world" where
  "store_exists path w = (case os_stat path w of (res, w1) \<Rightarrow> (is_ok res, w1))"

definition open_append_secure :: "string \<Rightarrow> ino io" where
  "open_append_secure path w =
     (let dir = path_dir path
      in case ensure_dir dir w of
           (Inl e, w1) \<Rightarrow> (Inl e, w1)
         | (Inr _, w1) \<Rightarrow>
     (case open_parent dir (path_base path) True w1 of
        (Inl e, w2) \<Rightarrow> (Inl e, w2)
      | (Inr (r, base), w2) \<Rightarrow>
     (case open_managed_file r base (O_APPEND OR O_WRONLY) True w2 of
        (Inl e, w3) \<Rightarrow> (Inl (WrapErr ''open secure append file: '' e), w3)
      | (Inr f, w3) \<Rightarrow> (Inr f, w3))))"

end
