(* ===== verification/Disk_Logic.thy ===== *)
theory Disk_Logic
  imports Store
begin

text \<open>
  Reasoning about sequences of system calls.  \<open>spec b d m Q\<close> says that the operation \<open>m\<close>,
  started on the disk \<open>d\<close> under a schedule without interference (and, unless \<open>b\<close>, without
  failing calls), ends in a result and a disk related by \<open>Q\<close> and leaves the clock and the
  environment alone.  One rule per way the code composes calls.
\<close>

subsection \<open>Schedules without interference\<close>

fun calm :: "bool \<Rightarrow> fsevent \<Rightarrow> bool" where
  "calm b Quiet = True"
| "calm b (Fault e n) = (b \<and> e \<notin> {ENOENT, EEXIST, ENOTEMPTY})"
| "calm b (Interfere g) = False"

definition calm_world :: "bool \<Rightarrow> world \<Rightarrow> bool" where
  "calm_world b w = list_all (calm b) (sched w)"

definition same_env :: "world \<Rightarrow> world \<Rightarrow> bool" where
  "same_env w w' = (clock w' = clock w \<and> ticks w' = ticks w \<and> local_zone w' = local_zone w \<and> environ w' = environ w)"

lemma same_env_refl [simp]: "same_env w w"
  by (simp add: same_env_def)

lemma same_env_trans: "same_env u v \<Longrightarrow> same_env v w \<Longrightarrow> same_env u w"
  by (simp add: same_env_def)

definition now :: "world \<Rightarrow> gotime" where
  "now w = fst (time_now w)"

lemma now_simps [simp]: "tns (now w) = clock w" "tzone (now w) = local_zone w"
  by (simp_all add: now_def time_now_def)

lemma time_now_still: "ticks w = [] \<Longrightarrow> time_now w = (now w, w)"
  by (simp add: now_def time_now_def)

lemma now_same_env: "same_env w w' \<Longrightarrow> now w' = now w"
  by (simp add: same_env_def now_def time_now_def)

text \<open>Reading the clock keeps the disk and the schedule.\<close>

lemma time_now_frame: "disk (snd (time_now w)) = disk w" "sched (snd (time_now w)) = sched w"
  "environ (snd (time_now w)) = environ w"
  by (simp_all add: time_now_def split: list.split)

text \<open>The failure a scheduled fault produces: never one the code takes for an absent or present file.\<close>

definition hard :: "goerr \<Rightarrow> bool" where
  "hard e = (\<not> is_not_exist e \<and> \<not> is_exist e)"

lemma hard_wrap [simp]: "hard (WrapErr p e) = hard e"
  by (simp add: hard_def)

lemma hard_sentinel [simp]: "hard (Sentinel s)"
  by (simp add: hard_def)

lemma hard_not_exist: "hard e \<Longrightarrow> \<not> is_not_exist e"
  by (simp add: hard_def)

subsection \<open>The rules\<close>

definition spec :: "bool \<Rightarrow> filesys \<Rightarrow> 'a io \<Rightarrow> (goerr + 'a \<Rightarrow> filesys \<Rightarrow> bool) \<Rightarrow> bool" where
  "spec b d m Q = (\<forall>w. calm_world b w \<longrightarrow> disk w = d \<longrightarrow>
     calm_world b (snd (m w)) \<and> same_env w (snd (m w)) \<and> Q (fst (m w)) (disk (snd (m w))))"

definition lift_sys :: "string \<Rightarrow> string \<Rightarrow> errno + 'a \<Rightarrow> goerr + 'a" where
  "lift_sys op p r = (case r of Inl e \<Rightarrow> Inl (SysErr op p e) | Inr x \<Rightarrow> Inr x)"

lemma lift_sys_simps [simp]:
  "lift_sys op p (Inl e) = Inl (SysErr op p e)" "lift_sys op p (Inr x) = Inr x"
  by (simp_all add: lift_sys_def)

lemma specI:
  "(\<And>w. calm_world b w \<Longrightarrow> disk w = d \<Longrightarrow>
     calm_world b (snd (m w)) \<and> same_env w (snd (m w)) \<and> Q (fst (m w)) (disk (snd (m w)))) \<Longrightarrow> spec b d m Q"
  by (simp add: spec_def)

lemma specD:
  assumes "spec b d m Q" "calm_world b w" "disk w = d" "m w = (r, w')"
  shows "calm_world b w' \<and> same_env w w' \<and> Q r (disk w')"
  using assms by (auto simp: spec_def)

lemma spec_conseq: "spec b d m Q \<Longrightarrow> (\<And>r d'. Q r d' \<Longrightarrow> R r d') \<Longrightarrow> spec b d m R"
  by (simp add: spec_def)

lemma spec_return: "Q r d \<Longrightarrow> spec b d (\<lambda>w. (r, w)) Q"
  by (simp add: spec_def)

lemma spec_pair: "Q r d \<Longrightarrow> spec b d (Pair r) Q"
  by (simp add: spec_def)

lemma spec_if:
  assumes "c \<Longrightarrow> spec b d m Q" "\<not> c \<Longrightarrow> spec b d m' Q"
  shows "spec b d (\<lambda>w. if c then m w else m' w) Q"
  using assms by (cases c) simp_all

lemma spec_bind:
  assumes "spec b d m (\<lambda>r d'. spec b d' (k r) Q)"
  shows "spec b d (\<lambda>w. case m w of (r, w1) \<Rightarrow> k r w1) Q"
proof (rule specI)
  fix w assume w: "calm_world b w" "disk w = d"
  obtain r w1 where m: "m w = (r, w1)" by fastforce
  from specD [OF assms w m] have 1: "calm_world b w1" "same_env w w1" "spec b (disk w1) (k r) Q" by auto
  obtain r2 w2 where k: "k r w1 = (r2, w2)" by fastforce
  from specD [OF 1(3,1) refl k] 1(2)
  show "calm_world b (snd (case m w of (r, w1) \<Rightarrow> k r w1)) \<and>
    same_env w (snd (case m w of (r, w1) \<Rightarrow> k r w1)) \<and>
    Q (fst (case m w of (r, w1) \<Rightarrow> k r w1)) (disk (snd (case m w of (r, w1) \<Rightarrow> k r w1)))"
    by (simp add: m k same_env_trans [of w w1 w2])
qed

text \<open>The usual shape: an error of \<open>m\<close> ends the operation, a value goes on.\<close>

lemma spec_try:
  assumes "spec b d m (\<lambda>r d'. case r of Inl e \<Rightarrow> spec b d' (h e) Q | Inr x \<Rightarrow> spec b d' (k x) Q)"
  shows "spec b d (\<lambda>w. case m w of (Inl e, w1) \<Rightarrow> h e w1 | (Inr x, w1) \<Rightarrow> k x w1) Q"
  by (rule spec_bind [where k = "\<lambda>r w1. case r of Inl e \<Rightarrow> h e w1 | Inr x \<Rightarrow> k x w1"])
    (rule spec_conseq [OF assms], auto split: sum.splits)

lemma spec_after:
  assumes "spec b d m (\<lambda>_ d'. Q res d')"
  shows "spec b d (\<lambda>w. (res, snd (m w))) Q"
  using assms by (simp add: spec_def)

lemma spec_syscall_partial:
  assumes "f d = (r, d')" and "Q (lift_sys op p r) d'"
    and "\<And>e n. b \<Longrightarrow> hard (SysErr op p e) \<Longrightarrow> Q (Inl (SysErr op p e)) (part n d)"
  shows "spec b d (syscall_partial op p part f) Q"
proof (rule specI)
  fix w assume w: "calm_world b w" "disk w = d"
  have run: "run_call op p f v = (lift_sys op p r, v\<lparr>disk := d'\<rparr>)" if "disk v = d" for v
    using assms(1) that by (cases r) (simp_all add: run_call_def)
  show "calm_world b (snd (syscall_partial op p part f w)) \<and> same_env w (snd (syscall_partial op p part f w)) \<and>
    Q (fst (syscall_partial op p part f w)) (disk (snd (syscall_partial op p part f w)))"
  proof (cases "sched w")
    case Nil
    then show ?thesis using w assms(2) by (simp add: syscall_partial_def run calm_world_def same_env_def)
  next
    case (Cons ev evs)
    show ?thesis
    proof (cases ev)
      case Quiet
      then show ?thesis using w assms(2) Cons by (simp add: syscall_partial_def run calm_world_def same_env_def)
    next
      case (Fault e n)
      then have "b" "e \<notin> {ENOENT, EEXIST, ENOTEMPTY}" using w Cons by (auto simp: calm_world_def)
      then have "Q (Inl (SysErr op p e)) (part n d)" by (intro assms(3)) (auto simp: hard_def)
      then show ?thesis using w Cons Fault by (cases b) (simp_all add: syscall_partial_def calm_world_def same_env_def)
    next
      case (Interfere g)
      then show ?thesis using w Cons by (simp add: calm_world_def)
    qed
  qed
qed

lemma spec_syscall:
  assumes "f d = (r, d')" and "Q (lift_sys op p r) d'"
    and "\<And>e. b \<Longrightarrow> hard (SysErr op p e) \<Longrightarrow> Q (Inl (SysErr op p e)) d"
  shows "spec b d (syscall op p f) Q"
  unfolding syscall_def by (rule spec_syscall_partial [where f = f, OF assms(1)]) (simp_all add: assms)

lemma rand_text_alphabet: "set (fst (rand_text w)) \<subseteq> set base32_alphabet"
proof -
  have "base32_alphabet ! (n mod 32) \<in> set base32_alphabet" for n
    by (rule nth_mem) (simp add: base32_alphabet_def)
  then show ?thesis by (auto simp: rand_text_def)
qed

lemma spec_rand_text:
  assumes "\<And>txt. set txt \<subseteq> set base32_alphabet \<Longrightarrow> spec b d (k txt) Q"
  shows "spec b d (\<lambda>w. let (txt, w1) = rand_text w in k txt w1) Q"
proof (rule specI)
  fix w assume w: "calm_world b w" "disk w = d"
  let ?w1 = "snd (rand_text w)" and ?t = "fst (rand_text w)"
  have w1: "calm_world b ?w1" "disk ?w1 = d" "same_env w ?w1"
    using w by (simp_all add: rand_text_def calm_world_def same_env_def)
  obtain r2 w2 where k: "k ?t ?w1 = (r2, w2)" by fastforce
  from specD [OF assms [OF rand_text_alphabet] w1(1,2) k] w1(3) k
  show "calm_world b (snd (let (txt, w1) = rand_text w in k txt w1)) \<and>
    same_env w (snd (let (txt, w1) = rand_text w in k txt w1)) \<and>
    Q (fst (let (txt, w1) = rand_text w in k txt w1)) (disk (snd (let (txt, w1) = rand_text w in k txt w1)))"
    by (simp add: split_beta same_env_trans [of w ?w1 w2])
qed

end
