(* ===== verification/Store_Laws.thy ===== *)
theory Store_Laws
  imports Disk_Logic
begin

text \<open>
  The directory kept by the package \<open>store\<close> as a map from names to contents.  A layout
  says which names an application manages: files directly in the root directory, and files
  in subdirectories of it, and whether the root path may end in a symbolic link.  Every
  other entry of the root directory is left open.
\<close>

subsection \<open>Directories and files as the policy wants them\<close>

definition entry :: "filesys \<Rightarrow> ino \<Rightarrow> string \<Rightarrow> ino option" where
  "entry d i p = (case nodes d i of Some (DirNode m up es) \<Rightarrow> map_of es p | _ \<Rightarrow> None)"

definition private_dir :: "filesys \<Rightarrow> ino \<Rightarrow> bool" where
  "private_dir d i = (\<exists>m up es. nodes d i = Some (DirNode m up es) \<and> m AND 0x1FF = dir_perm)"

definition private_node :: "node option \<Rightarrow> bool" where
  "private_node n = (\<exists>m c. n = Some (RegFile m c) \<and> m AND 0x1FF AND file_perm = m AND 0x1FF \<and> can_read m)"

definition fname :: "string \<Rightarrow> bool" where
  "fname n = (plain_name n \<and> \<not> has_prefix n temp_prefix)"

definition dir_ok :: "bool \<Rightarrow> (string \<Rightarrow> bool) \<Rightarrow> filesys \<Rightarrow> ino \<Rightarrow> bool" where
  "dir_ok b F d i = (private_dir d i \<and>
     (\<forall>p j. F p \<longrightarrow> entry d i p = Some j \<longrightarrow> private_node (nodes d j)) \<and>
     (\<not> b \<longrightarrow> (\<forall>p. has_prefix p temp_prefix \<longrightarrow> entry d i p = None)))"

record layout =
  lay_file :: "string \<Rightarrow> bool"
  lay_dir :: "string \<Rightarrow> bool"
  lay_sub :: "string \<Rightarrow> bool"
  lay_strict :: bool

definition valid_layout :: "layout \<Rightarrow> bool" where
  "valid_layout L = ((\<forall>n. lay_file L n \<longrightarrow> fname n) \<and> (\<forall>n. lay_sub L n \<longrightarrow> fname n) \<and>
     (\<forall>n. lay_dir L n \<longrightarrow> fname n \<and> \<not> lay_file L n))"

definition wf_disk :: "filesys \<Rightarrow> bool" where
  "wf_disk d = ((\<forall>i \<ge> next_ino d. nodes d i = None) \<and> (\<forall>i p j. entry d i p = Some j \<longrightarrow> j < next_ino d))"

definition inv_at :: "bool \<Rightarrow> layout \<Rightarrow> ino \<Rightarrow> filesys \<Rightarrow> bool" where
  "inv_at b L r d = (wf_disk d \<and> umask d AND dir_perm = 0 \<and> dir_ok b (lay_file L) d r \<and>
     (\<forall>s j. lay_dir L s \<longrightarrow> entry d r s = Some j \<longrightarrow> j \<noteq> r \<and> dir_ok b (lay_sub L) d j) \<and>
     (\<forall>s s' j. lay_dir L s \<longrightarrow> lay_dir L s' \<longrightarrow> entry d r s = Some j \<longrightarrow> entry d r s' = Some j \<longrightarrow> s = s'))"

definition rooted :: "string \<Rightarrow> ino \<Rightarrow> filesys \<Rightarrow> bool" where
  "rooted root r d = (resolve_path d True root = Inr r)"

definition file_at :: "filesys \<Rightarrow> ino \<Rightarrow> string \<Rightarrow> string option" where
  "file_at d i p = (case entry d i p of None \<Rightarrow> None
     | Some j \<Rightarrow> (case nodes d j of Some (RegFile m c) \<Rightarrow> Some c | _ \<Rightarrow> None))"

text \<open>Where a managed name lives: the directory and the last component.\<close>

definition target :: "layout \<Rightarrow> filesys \<Rightarrow> ino \<Rightarrow> string \<Rightarrow> ino \<Rightarrow> string \<Rightarrow> bool" where
  "target L d r n i p = (lay_file L n \<and> i = r \<and> p = n \<or>
     (\<exists>s. n = s @ ''/'' @ p \<and> lay_dir L s \<and> lay_sub L p \<and> entry d r s = Some i))"

definition managed :: "layout \<Rightarrow> string \<Rightarrow> bool" where
  "managed L n = (lay_file L n \<or> (\<exists>s p. n = s @ ''/'' @ p \<and> lay_dir L s \<and> lay_sub L p))"

definition view_at :: "layout \<Rightarrow> ino \<Rightarrow> filesys \<Rightarrow> string \<Rightarrow> string option" where
  "view_at L r d n =
     (if lay_file L n then file_at d r n
      else (case split_on CHR ''/'' n of
              [s, p] \<Rightarrow> if lay_dir L s \<and> lay_sub L p
                        then (case entry d r s of None \<Rightarrow> None | Some i \<Rightarrow> file_at d i p) else None
            | _ \<Rightarrow> None))"

lemma valid_file: "valid_layout L \<Longrightarrow> lay_file L n \<Longrightarrow> plain_name n \<and> \<not> has_prefix n temp_prefix"
  by (simp add: valid_layout_def fname_def)

lemma valid_sub: "valid_layout L \<Longrightarrow> lay_sub L n \<Longrightarrow> plain_name n \<and> \<not> has_prefix n temp_prefix"
  by (simp add: valid_layout_def fname_def)

lemma valid_dir: "valid_layout L \<Longrightarrow> lay_dir L n \<Longrightarrow> plain_name n \<and> \<not> has_prefix n temp_prefix \<and> \<not> lay_file L n"
  by (simp add: valid_layout_def fname_def)

lemma two_not_file: "valid_layout L \<Longrightarrow> lay_dir L s \<Longrightarrow> \<not> lay_file L (s @ ''/'' @ p)"
  using valid_file [of L "s @ ''/'' @ p"] by (auto simp: plain_name_def)

lemma view_target:
  assumes "valid_layout L" "target L d r n i p"
  shows "view_at L r d n = file_at d i p"
  using assms(2) unfolding target_def
proof (elim disjE exE conjE)
  fix s assume s: "n = s @ ''/'' @ p" "lay_dir L s" "lay_sub L p" "entry d r s = Some i"
  have "split_on CHR ''/'' n = [s, p]"
    unfolding s(1) using valid_dir [OF assms(1) s(2)] valid_sub [OF assms(1) s(3)] by (intro two_split) auto
  then show ?thesis using s two_not_file [OF assms(1) s(2), of p] by (simp add: view_at_def)
qed (simp add: view_at_def)

lemma view_no_target:
  assumes "valid_layout L" "\<And>i p. \<not> target L d r n i p"
  shows "view_at L r d n = None"
proof -
  have "\<not> lay_file L n" using assms(2) [of r n] by (simp add: target_def)
  moreover have "(case split_on CHR ''/'' n of
     [s, p] \<Rightarrow> if lay_dir L s \<and> lay_sub L p
        then (case entry d r s of None \<Rightarrow> None | Some i \<Rightarrow> file_at d i p) else None | _ \<Rightarrow> None) = None"
  proof (cases "\<exists>s p. split_on CHR ''/'' n = [s, p]")
    case True
    then obtain s p where sp: "split_on CHR ''/'' n = [s, p]" by blast
    with join_split [of "CHR ''/''" n] have "n = s @ ''/'' @ p" by simp
    then show ?thesis using assms(2) [of _ p] sp by (auto simp: target_def split: option.splits)
  qed (auto split: list.splits)
  ultimately show ?thesis by (simp add: view_at_def)
qed

lemma inv_root: "inv_at b L r d \<Longrightarrow> dir_ok b (lay_file L) d r"
  by (simp add: inv_at_def)

lemma inv_sub:
  assumes "inv_at b L r d" "lay_dir L s" "entry d r s = Some j"
  shows "j \<noteq> r \<and> dir_ok b (lay_sub L) d j"
proof -
  have "\<forall>s j. lay_dir L s \<longrightarrow> entry d r s = Some j \<longrightarrow> j \<noteq> r \<and> dir_ok b (lay_sub L) d j"
    using assms(1) unfolding inv_at_def by (elim conjE)
  from this [rule_format, OF assms(2,3)] show ?thesis .
qed

lemma inv_sub_inj:
  assumes "inv_at b L r d" "lay_dir L s" "entry d r s = Some j" "lay_dir L s'" "entry d r s' = Some j"
  shows "s = s'"
proof -
  have "\<forall>s s' j. lay_dir L s \<longrightarrow> lay_dir L s' \<longrightarrow> entry d r s = Some j \<longrightarrow> entry d r s' = Some j \<longrightarrow> s = s'"
    using assms(1) unfolding inv_at_def by (elim conjE)
  from this [rule_format, OF assms(2,4,3,5)] show ?thesis .
qed

lemma target_inj:
  assumes "inv_at b L r d" "target L d r n i p" "target L d r n' i p"
  shows "n = n'"
proof -
  have sub: "i \<noteq> r" if "lay_dir L s" "entry d r s = Some i" for s
    using inv_sub [OF assms(1) that] by blast
  with inv_sub_inj [OF assms(1)] assms(2,3) show ?thesis unfolding target_def by (elim disjE exE conjE) simp_all
qed

lemma target_dir_ok:
  assumes "inv_at b L r d" "target L d r n i p"
  shows "private_dir d i" "wf_disk d"
  using assms unfolding target_def inv_at_def dir_ok_def by auto

subsection \<open>System calls on such directories\<close>

lemma masked: fixes m :: mode shows "x AND 0x1FF = x \<Longrightarrow> (m AND 0x1FF) AND x = m AND x"
  by (metis and.assoc and.commute)

lemma private_dirE:
  assumes "private_dir d i"
  obtains m up es where "nodes d i = Some (DirNode m up es)" "m AND 0x1FF = dir_perm"
    "can_read m" "can_write m" "can_search m" "entry d i = map_of es"
proof -
  from assms obtain m up es where n: "nodes d i = Some (DirNode m up es)" "m AND 0x1FF = dir_perm"
    unfolding private_dir_def by blast
  have bits: "m AND x = dir_perm AND x" if "x AND 0x1FF = x" for x :: mode
    using masked [OF that, of m] n(2) by simp
  from bits [of "0x100"] bits [of "0x80"] bits [of "0x40"] have "can_read m" "can_write m" "can_search m"
    by (simp_all add: can_read_def can_write_def can_search_def dir_perm_def)
  moreover have "entry d i = map_of es" using n by (simp add: fun_eq_iff entry_def)
  ultimately show thesis using n that by blast
qed

lemma lookup_private:
  "private_dir d i \<Longrightarrow> lookup d i p = (case entry d i p of None \<Rightarrow> Inl ENOENT | Some j \<Rightarrow> Inr j)"
  by (erule private_dirE) (simp add: lookup_def)

lemma dot_private: "private_dir d i \<Longrightarrow> dot d i = Inr i"
  by (erule private_dirE) (simp add: dot_def)

lemma lstat_private:
  assumes "private_dir d i" "plain_name p"
  shows "sys_lstat_at i p d = (case entry d i p of None \<Rightarrow> Inl ENOENT
     | Some j \<Rightarrow> (case nodes d j of None \<Rightarrow> Inl ENOENT | Some n \<Rightarrow> Inr (stat_of j n)), d)"
  using assms(2) lookup_private [OF assms(1)]
  by (auto simp: sys_lstat_at_def plain_name_def split: option.splits)

lemma resolve_in_private:
  assumes "private_dir d i" "plain_name p" "entry d i p = Some j" "nodes d j = Some n" "\<forall>t. n \<noteq> SymNode t"
  shows "resolve_root d k [i] [p] = Inr j"
  using assms(2-5) lookup_private [OF assms(1), of p]
  by (cases n) (simp_all add: plain_name_def)

definition yields :: "bool \<Rightarrow> bool \<Rightarrow> filesys \<Rightarrow> 'a \<Rightarrow> goerr + 'a \<Rightarrow> filesys \<Rightarrow> bool" where
  "yields c b d x r d' = (d' = d \<and> (case r of Inl e \<Rightarrow> b \<and> (c \<or> hard e) | Inr y \<Rightarrow> y = x))"

lemma yields_simps [simp]:
  "yields c b d x (Inl e) d' = (d' = d \<and> b \<and> (c \<or> hard e))"
  "yields c b d x (Inr y) d' = (d' = d \<and> y = x)"
  by (simp_all add: yields_def)

text \<open>
  \<open>yields c b d x\<close>: the call reports \<open>x\<close> and changes nothing, or, when calls may fail, it
  reports an error, which unless \<open>c\<close> is not one taken for an absent or present file.
\<close>

lemma spec_yields:
  assumes "spec b d m (yields c b d x)" and "spec b d (k x) Q" and "\<And>e. b \<Longrightarrow> c \<or> hard e \<Longrightarrow> spec b d (h e) Q"
  shows "spec b d (\<lambda>w. case m w of (Inl e, w1) \<Rightarrow> h e w1 | (Inr x, w1) \<Rightarrow> k x w1) Q"
  by (rule spec_try, rule spec_conseq [OF assms(1)]) (use assms(2,3) in \<open>auto simp: yields_def split: sum.splits\<close>)

lemma yields_syscall: "f d = (Inr x, d) \<Longrightarrow> spec b d (syscall op p f) (yields c b d x)"
  by (rule spec_syscall, assumption) simp_all

lemma yields_secure:
  assumes "st_perm info AND permitted = st_perm info" "create \<Longrightarrow> st_perm info = permitted"
  shows "spec b d (secure_permissions f info permitted create) (yields c b d ())"
proof -
  have "secure_permissions f info permitted create w = (Inr (), w)" for w
    using assms by (simp add: secure_permissions_def Let_def)
  then have "secure_permissions f info permitted create = (\<lambda>w. (Inr (), w))" by blast
  then show ?thesis by (simp add: spec_return)
qed

lemma yields_secure_directory:
  assumes "private_dir d i" "\<And>x. ex = Some x \<Longrightarrow> st_ino x = i"
  shows "spec b d (secure_directory i ex create) (yields c b d ())"
proof -
  obtain m up es where n: "nodes d i = Some (DirNode m up es)" "m AND 0x1FF = dir_perm" "can_read m" "can_search m"
    using assms(1) by (elim private_dirE)
  let ?st = "stat_of i (DirNode m up es)"
  have st: "st_kind ?st = KDir" "st_ino ?st = i" "st_perm ?st = dir_perm"
    using n by (simp_all add: stat_of_def)
  have "sys_open_at i ''.'' O_RDONLY 0 d = (Inr i, d)"
    using n dot_private [OF assms(1)]
    by (simp add: sys_open_at_def wants_create_def O_RDONLY_def access_ok_def wants_write_def O_WRONLY_def O_RDWR_def)
  then have op: "spec b d (r_open i ''.'') (yields c b d i)"
    unfolding r_open_def r_openfile_def by (rule yields_syscall)
  have "sys_fstat i d = (Inr ?st, d)" using n by (simp add: sys_fstat_def)
  then have fs: "spec b d (f_stat i) (yields c b d ?st)"
    unfolding f_stat_def by (rule yields_syscall)
  have ex: "\<not> (case ex of None \<Rightarrow> False | Some x \<Rightarrow> st_ino ?st \<noteq> st_ino x)"
    using assms(2) st(2) by (auto split: option.splits)
  have dp: "spec b d (secure_permissions i ?st dir_perm create) (yields c b d ())"
    by (rule yields_secure) (simp_all add: st(3))
  show ?thesis
    unfolding secure_directory_def
    by (rule spec_yields [OF op], rule spec_yields [OF fs]) (simp_all add: ex st dp spec_return)
qed

subsection \<open>Edits that keep paths resolving\<close>

definition is_dir :: "filesys \<Rightarrow> ino \<Rightarrow> bool" where
  "is_dir d i = (\<exists>m up es. nodes d i = Some (DirNode m up es))"

definition firm :: "node option \<Rightarrow> bool" where
  "firm n = (case n of Some (DirNode _ _ _) \<Rightarrow> True | Some (SymNode _) \<Rightarrow> True | _ \<Rightarrow> False)"

definition grows :: "filesys \<Rightarrow> filesys \<Rightarrow> bool" where
  "grows d d' = (root_ino d' = root_ino d \<and> cwd_ino d' = cwd_ino d \<and>
     (\<forall>i m up es. nodes d i = Some (DirNode m up es) \<longrightarrow>
        (\<exists>m' es'. nodes d' i = Some (DirNode m' up es') \<and> (can_search m \<longrightarrow> can_search m') \<and>
           (\<forall>p j. map_of es p = Some j \<longrightarrow> firm (nodes d j) \<longrightarrow> map_of es' p = Some j))) \<and>
     (\<forall>i t. nodes d i = Some (SymNode t) \<longrightarrow> nodes d' i = Some (SymNode t)))"

lemma growsD:
  assumes "grows d d'" "nodes d i = Some (DirNode m up es)"
  obtains m' es' where "nodes d' i = Some (DirNode m' up es')" "can_search m \<longrightarrow> can_search m'"
    "\<And>p j. map_of es p = Some j \<Longrightarrow> firm (nodes d j) \<Longrightarrow> map_of es' p = Some j"
  using assms unfolding grows_def by blast

lemma lookup_InrE:
  assumes "lookup d i p = Inr j"
  obtains m up es where "nodes d i = Some (DirNode m up es)" "can_search m" "map_of es p = Some j"
  using assms by (auto simp: lookup_def split: option.splits node.splits if_splits)

lemma lookup_grows:
  assumes "grows d d'" "lookup d i p = Inr j" "firm (nodes d j)"
  shows "lookup d' i p = Inr j"
proof -
  from assms(2) obtain m up es where n: "nodes d i = Some (DirNode m up es)" "can_search m" "map_of es p = Some j"
    by (rule lookup_InrE)
  from assms(1) n(1) obtain m' es' where "nodes d' i = Some (DirNode m' up es')" "can_search m \<longrightarrow> can_search m'"
    "\<And>p j. map_of es p = Some j \<Longrightarrow> firm (nodes d j) \<Longrightarrow> map_of es' p = Some j"
    by (rule growsD) blast
  then show ?thesis using n assms(3) by (simp add: lookup_def)
qed

lemma dot_grows:
  assumes "grows d d'" "dot d i = Inr j"
  shows "dot d' i = Inr j"
proof -
  from assms(2) obtain m up es where n: "nodes d i = Some (DirNode m up es)" "can_search m" "j = i"
    by (auto simp: dot_def split: option.splits node.splits if_splits)
  from assms(1) n(1) obtain m' es' where n': "nodes d' i = Some (DirNode m' up es')" "can_search m \<longrightarrow> can_search m'"
    by (rule growsD) blast
  then show ?thesis using n by (simp add: dot_def)
qed

lemma namei_from_dir: "namei d fl n i ps = Inr j \<Longrightarrow> is_dir d j \<Longrightarrow> is_dir d i"
proof (induction d fl n i ps rule: namei.induct)
  case (2 d fl n i p ps)
  show ?case
  proof (cases "p = []")
    case True
    then show ?thesis using 2 by simp
  next
    case False
    then show ?thesis using "2.prems"(1)
      by (auto simp: is_dir_def dot_def lookup_def split: if_splits sum.splits option.splits node.splits)
  qed
qed simp

lemma namei_grows:
  "grows d d' \<Longrightarrow> namei d fl n i ps = Inr j \<Longrightarrow> is_dir d j \<Longrightarrow> namei d' fl n i ps = Inr j"
proof (induction d fl n i ps rule: namei.induct)
  case (2 d fl n i p ps)
  note prems = "2.prems"
  have roots: "root_ino d' = root_ino d" using prems(1) by (simp add: grows_def)
  consider "p = []" | "p = ''.''" | "p = ''..''" | "p \<noteq> []" "p \<noteq> ''.''" "p \<noteq> ''..''" by blast
  then show ?case
  proof cases
    case 1
    then show ?thesis using 2 by simp
  next
    case 2
    then obtain x where "dot d i = Inr x" "namei d fl n i ps = Inr j" using prems(2) by (auto split: sum.splits)
    then show ?thesis using "2.IH"(2) dot_grows [OF prems(1)] prems 2 by simp
  next
    case 3
    then obtain m up es where n: "nodes d i = Some (DirNode m up es)" "can_search m" "namei d fl n up ps = Inr j"
      using prems(2) by (auto split: option.splits node.splits if_splits)
    from prems(1) n(1) obtain m' es' where "nodes d' i = Some (DirNode m' up es')" "can_search m \<longrightarrow> can_search m'"
      by (rule growsD) blast
    moreover have "namei d' fl n up ps = Inr j" using "2.IH"(3) prems n 3 by simp
    ultimately show ?thesis using n 3 by simp
  next
    case 4
    then obtain k nd where k: "lookup d i p = Inr k" "nodes d k = Some nd"
      using prems(2) by (auto split: sum.splits option.splits)
    show ?thesis
    proof (cases "firm (nodes d k)")
      case True
      then have k': "lookup d' i p = Inr k" using lookup_grows [OF prems(1) k(1)] by blast
      show ?thesis
      proof (cases nd)
        case (SymNode t)
        then have "nodes d' k = Some (SymNode t)" using prems(1) k(2) by (simp add: grows_def)
        let ?i = "if is_abs t then root_ino d else i" and ?ps = "split_on CHR ''/'' t @ ps"
        show ?thesis
        proof (cases "ps = [] \<and> \<not> fl")
          case True
          then show ?thesis using prems 4 k SymNode by (auto simp: is_dir_def)
        next
          case False
          then obtain x where x: "n = Suc x" "namei d fl x ?i ?ps = Inr j"
            using prems(2) 4 k SymNode by (auto split: nat.splits)
          have "namei d' fl x ?i ?ps = Inr j"
            using "2.IH"(6) [OF 4 k(1) k(2) SymNode False x(1) prems(1) x(2) prems(3)] .
          then show ?thesis using 4 k' SymNode False x(1) roots \<open>nodes d' k = Some (SymNode t)\<close>
            by (cases "is_abs t") auto
        qed
      next
        case (DirNode m up es)
        from prems(1) k(2) [unfolded DirNode] obtain m' es' where "nodes d' k = Some (DirNode m' up es')"
          by (rule growsD) blast
        then show ?thesis using 4 k k' DirNode prems "2.IH"(5) by simp
      qed (use True k in \<open>auto simp: firm_def\<close>)
    next
      case False
      then have "namei d fl n k ps = Inr j" using prems(2) 4 k by (auto simp: firm_def split: node.splits)
      then have "is_dir d k" using namei_from_dir prems(3) by blast
      then show ?thesis using False by (auto simp: is_dir_def firm_def)
    qed
  qed
qed simp

lemma rooted_grows:
  assumes "grows d d'" "rooted root r d" "is_dir d r"
  shows "rooted root r d'"
proof -
  have "start_ino d' p = start_ino d p" for p using assms(1) by (simp add: start_ino_def grows_def)
  then show ?thesis using assms(2) namei_grows [OF assms(1) _ assms(3)]
    by (auto simp: rooted_def resolve_path_def split: if_splits)
qed

subsection \<open>One edit of one directory\<close>

text \<open>
  \<open>edited d i M n d'\<close>: the directory \<open>i\<close> now has the entries \<open>M\<close>, and \<open>n\<close>, when it is an
  inode, is the one just allocated.
\<close>

definition edited :: "filesys \<Rightarrow> ino \<Rightarrow> (string \<Rightarrow> ino option) \<Rightarrow> node option \<Rightarrow> filesys \<Rightarrow> bool" where
  "edited d i M n d' = (\<exists>m up es es'. nodes d i = Some (DirNode m up es) \<and> map_of es' = M \<and>
     nodes d' = (nodes d)(next_ino d := n, i := Some (DirNode m up es')) \<and>
     next_ino d' = (if n = None then next_ino d else Suc (next_ino d)) \<and>
     root_ino d' = root_ino d \<and> cwd_ino d' = cwd_ino d \<and> umask d' = umask d)"

definition leaf :: "node option \<Rightarrow> bool" where
  "leaf n = (case n of None \<Rightarrow> True | Some (RegFile _ _) \<Rightarrow> True
     | Some (DirNode m _ es) \<Rightarrow> es = [] \<and> m AND 0x1FF = dir_perm | _ \<Rightarrow> False)"

definition files_of :: "layout \<Rightarrow> ino \<Rightarrow> ino \<Rightarrow> string \<Rightarrow> bool" where
  "files_of L r i = (if i = r then lay_file L else lay_sub L)"

definition managed_dir :: "layout \<Rightarrow> filesys \<Rightarrow> ino \<Rightarrow> ino \<Rightarrow> bool" where
  "managed_dir L d r i = (i = r \<or> (\<exists>s. lay_dir L s \<and> entry d r s = Some i))"

definition is_dir_node :: "node option \<Rightarrow> bool" where
  "is_dir_node n = (\<exists>m up. n = Some (DirNode m up []))"

definition allowed :: "bool \<Rightarrow> layout \<Rightarrow> ino \<Rightarrow> filesys \<Rightarrow> ino \<Rightarrow> node option \<Rightarrow> string \<Rightarrow> ino option \<Rightarrow> bool" where
  "allowed b L r d i n p new =
     (files_of L r i p \<and> (new = None \<or> new = Some (next_ino d) \<and> private_node n) \<or>
      b \<and> has_prefix p temp_prefix \<and> entry d i p = None \<and> new = Some (next_ino d) \<and> private_node n \<or>
      i = r \<and> lay_dir L p \<and> entry d i p = None \<and> new = Some (next_ino d) \<and> is_dir_node n)"

lemma managed_dir_ok:
  "inv_at b L r d \<Longrightarrow> managed_dir L d r i \<Longrightarrow> dir_ok b (files_of L r i) d i"
  by (auto simp: inv_at_def managed_dir_def files_of_def)

lemma target_managed:
  assumes "inv_at b L r d" "target L d r n i p"
  shows "managed_dir L d r i" "files_of L r i p"
  using assms by (auto simp: target_def managed_dir_def files_of_def inv_at_def)

lemma wf_none: "wf_disk d \<Longrightarrow> nodes d (next_ino d) = None"
  by (simp add: wf_disk_def)

lemma wf_entry: "wf_disk d \<Longrightarrow> entry d i p = Some j \<Longrightarrow> j < next_ino d"
  by (simp add: wf_disk_def)

definition legal_edit :: "bool \<Rightarrow> layout \<Rightarrow> ino \<Rightarrow> filesys \<Rightarrow> ino \<Rightarrow> (string \<Rightarrow> ino option) \<Rightarrow> node option \<Rightarrow> filesys \<Rightarrow> bool" where
  "legal_edit b L r d i M n d' = (valid_layout L \<and> inv_at b L r d \<and> managed_dir L d r i \<and>
     edited d i M n d' \<and> leaf n \<and>
     (\<forall>p q. M p = Some (next_ino d) \<longrightarrow> M q = Some (next_ino d) \<longrightarrow> p = q) \<and>
     (\<forall>p. M p \<noteq> entry d i p \<longrightarrow> allowed b L r d i n p (M p)))"

lemma legal_editD:
  assumes "legal_edit b L r d i M n d'"
  shows "valid_layout L" "inv_at b L r d" "managed_dir L d r i" "edited d i M n d'" "leaf n"
    "\<And>p. M p \<noteq> entry d i p \<Longrightarrow> allowed b L r d i n p (M p)"
    "wf_disk d" "private_dir d i" "i \<noteq> next_ino d"
proof -
  show 1: "valid_layout L" "inv_at b L r d" "managed_dir L d r i" "edited d i M n d'" "leaf n"
    "\<And>p. M p \<noteq> entry d i p \<Longrightarrow> allowed b L r d i n p (M p)"
    using assms by (simp_all add: legal_edit_def)
  show 2: "wf_disk d" "private_dir d i"
    using managed_dir_ok [OF 1(2,3)] 1(2) by (simp_all add: dir_ok_def inv_at_def)
  then show "i \<noteq> next_ino d" using wf_none [OF 2(1)] by (auto simp: private_dir_def)
qed

lemma node_new:
  assumes "legal_edit b L r d i M n d'"
  shows "nodes d' (next_ino d) = n"
  using legal_editD(4,9) [OF assms] by (auto simp: edited_def)

lemma node_old:
  assumes "legal_edit b L r d i M n d'" "k \<noteq> i" "k \<noteq> next_ino d"
  shows "nodes d' k = nodes d k"
  using legal_editD(4) [OF assms(1)] assms(2,3) by (auto simp: edited_def)

lemma entry_edited:
  assumes "legal_edit b L r d i M n d'"
  shows "entry d' k p = (if k = i then M p else entry d k p)"
proof (cases "k = next_ino d")
  case True
  then have "entry d k p = None" "entry d' k p = None"
    using node_new [OF assms] legal_editD(5) [OF assms] wf_none [OF legal_editD(7) [OF assms]]
    by (auto simp: entry_def leaf_def split: option.splits node.splits)
  then show ?thesis using True legal_editD(9) [OF assms] by simp
next
  case False
  then show ?thesis
    using legal_editD(4) [OF assms] node_old [OF assms] by (auto simp: edited_def entry_def)
qed

lemma private_dir_old:
  assumes "legal_edit b L r d i M n d'" "k \<noteq> next_ino d"
  shows "private_dir d' k = private_dir d k"
  using legal_editD(4) [OF assms(1)] node_old [OF assms(1) _ assms(2)]
  by (cases "k = i") (auto simp: edited_def private_dir_def)

lemma file_old:
  assumes "legal_edit b L r d i M n d'" "entry d k p = Some j" "private_node (nodes d j)"
  shows "nodes d' j = nodes d j"
  using legal_editD(8) [OF assms(1)] wf_entry [OF legal_editD(7) [OF assms(1)] assms(2)] assms(3)
  by (intro node_old [OF assms(1)]) (auto simp: private_dir_def private_node_def)

lemma new_entry:
  assumes "legal_edit b L r d i M n d'" "M p = Some j"
  shows "entry d i p = Some j \<or> j = next_ino d \<and> n \<noteq> None"
  using legal_editD(6) [OF assms(1), of p] assms(2) by (auto simp: allowed_def private_node_def is_dir_node_def)

lemma wf_edited:
  assumes le: "legal_edit b L r d i M n d'"
  shows "wf_disk d'"
proof -
  note wf = legal_editD(7) [OF le]
  have nx: "next_ino d' = (if n = None then next_ino d else Suc (next_ino d))"
    using legal_editD(4) [OF le] by (auto simp: edited_def)
  have "nodes d' k = None" if "k \<ge> next_ino d'" for k
  proof (cases "k = next_ino d")
    case False
    have "i < next_ino d" using legal_editD(8) [OF le] wf by (force simp: private_dir_def wf_disk_def not_le [symmetric])
    then show ?thesis using that nx node_old [OF le, of k] False wf by (auto simp: wf_disk_def split: if_splits)
  qed (use that nx node_new [OF le] in \<open>auto split: if_splits\<close>)
  moreover have "j < next_ino d'" if "entry d' k p = Some j" for k p j
    using that new_entry [OF le, of p j] wf_entry [OF wf] nx
    by (auto simp: entry_edited [OF le] split: if_splits) (metis less_SucI)+
  ultimately show ?thesis by (simp add: wf_disk_def)
qed

lemma dir_ok_edited:
  assumes le: "legal_edit b L r d i M n d'" and md: "managed_dir L d r k"
  shows "dir_ok b (files_of L r k) d' k"
proof -
  note L = legal_editD(1) [OF le] and al = legal_editD(6) [OF le]
  have ok: "dir_ok b (files_of L r k) d k" by (rule managed_dir_ok [OF legal_editD(2) [OF le] md])
  then have pd: "private_dir d k" by (simp add: dir_ok_def)
  then have "k \<noteq> next_ino d" using wf_none [OF legal_editD(7) [OF le]] by (auto simp: private_dir_def)
  then have 1: "private_dir d' k" using pd private_dir_old [OF le] by simp
  have 2: "private_node (nodes d' j)" if f: "files_of L r k p" and e: "entry d' k p = Some j" for p j
  proof (cases "entry d k p = Some j")
    case True
    then have "private_node (nodes d j)" using ok f by (auto simp: dir_ok_def)
    then show ?thesis using file_old [OF le True] by simp
  next
    case False
    then have "k = i" "M p = Some j" "M p \<noteq> entry d i p" using e by (auto simp: entry_edited [OF le] split: if_splits)
    with al [of p] f node_new [OF le] L show ?thesis
      by (auto simp: allowed_def valid_layout_def files_of_def split: if_splits)
  qed
  have 3: "entry d' k p = None" if "\<not> b" "has_prefix p temp_prefix" for p
  proof -
    have none: "entry d k p = None" using ok that by (auto simp: dir_ok_def)
    show ?thesis
    proof (cases "k = i \<and> M p \<noteq> entry d i p")
      case True
      with al [of p] that L show ?thesis
        by (auto simp: allowed_def valid_layout_def fname_def files_of_def split: if_splits)
    qed (use none in \<open>auto simp: entry_edited [OF le]\<close>)
  qed
  from 1 2 3 show ?thesis by (auto simp: dir_ok_def)
qed

text \<open>A subdirectory of the edited disk is an old one, or the one just made.\<close>

lemma sub_edited:
  assumes le: "legal_edit b L r d i M n d'" and s: "lay_dir L s" "entry d' r s = Some j"
  shows "entry d r s = Some j \<or> j = next_ino d \<and> i = r \<and> entry d r s = None \<and> is_dir_node n"
  using s legal_editD(6) [OF le, of s] legal_editD(1) [OF le]
  by (auto simp: entry_edited [OF le] allowed_def valid_layout_def fname_def files_of_def split: if_splits)

lemma new_dir_ok:
  assumes le: "legal_edit b L r d i M n d'" and n: "is_dir_node n"
  shows "dir_ok b F d' (next_ino d)"
proof -
  have "private_dir d' (next_ino d)"
    using node_new [OF le] legal_editD(5) [OF le] n
    by (auto simp: private_dir_def leaf_def is_dir_node_def)
  moreover have "entry d (next_ino d) p = None" for p
    using wf_none [OF legal_editD(7) [OF le]] by (simp add: entry_def)
  ultimately show ?thesis
    using legal_editD(9) [OF le] by (auto simp: dir_ok_def entry_edited [OF le])
qed

lemma inv_edited:
  assumes le: "legal_edit b L r d i M n d'"
  shows "inv_at b L r d'"
proof -
  note inv = legal_editD(2) [OF le] and wf = legal_editD(7) [OF le]
  have um: "umask d' AND dir_perm = 0"
    using inv legal_editD(4) [OF le] by (auto simp: inv_at_def edited_def)
  have root: "dir_ok b (lay_file L) d' r"
    using dir_ok_edited [OF le, of r] by (simp add: managed_dir_def files_of_def)
  have r_old: "r \<noteq> next_ino d"
    using inv_root [OF inv] wf_none [OF wf] by (auto simp: dir_ok_def private_dir_def)
  have subs: "j \<noteq> r \<and> dir_ok b (lay_sub L) d' j" if s: "lay_dir L s" "entry d' r s = Some j" for s j
    using sub_edited [OF le s]
  proof
    assume e: "entry d r s = Some j"
    then have "j \<noteq> r" using inv_sub [OF inv s(1)] by blast
    then show ?thesis using dir_ok_edited [OF le, of j] e s(1) by (auto simp: managed_dir_def files_of_def)
  next
    assume "j = next_ino d \<and> i = r \<and> entry d r s = None \<and> is_dir_node n"
    then show ?thesis using new_dir_ok [OF le] r_old by auto
  qed
  have "s = s'" if "lay_dir L s" "entry d' r s = Some j" "lay_dir L s'" "entry d' r s' = Some j" for s s' j
  proof (cases "j = next_ino d")
    case False
    then have "entry d r s = Some j" "entry d r s' = Some j"
      using sub_edited [OF le that(1,2)] sub_edited [OF le that(3,4)] by auto
    then show ?thesis using inv_sub_inj [OF inv that(1) _ that(3)] by simp
  next
    case True
    have "entry d r t = None" if "entry d' r t = Some j" "lay_dir L t" for t
      using sub_edited [OF le that(2,1)] wf_entry [OF wf, of r t j] True by auto
    then have "i = r" using sub_edited [OF le that(1,2)] that by auto
    then have "M s = Some j" "M s' = Some j" using that(2,4) by (simp_all add: entry_edited [OF le])
    then show ?thesis using le True unfolding legal_edit_def by blast
  qed
  with wf_edited [OF le] um root subs show ?thesis by (auto simp: inv_at_def)
qed

lemma grows_edited:
  assumes le: "legal_edit b L r d i M n d'"
  shows "grows d d'"
proof -
  note wf = legal_editD(7) [OF le] and ed = legal_editD(4) [OF le]
  have keep: "M p = Some j" if "entry d i p = Some j" "firm (nodes d j)" for p j
  proof (rule ccontr)
    assume "M p \<noteq> Some j"
    with that legal_editD(6) [OF le, of p] have "files_of L r i p" by (auto simp: allowed_def)
    then have "private_node (nodes d j)"
      using managed_dir_ok [OF legal_editD(2,3) [OF le]] that(1) by (auto simp: dir_ok_def)
    with that(2) show False by (auto simp: private_node_def firm_def)
  qed
  have dirs: "\<exists>m' es'. nodes d' k = Some (DirNode m' up es') \<and> (can_search m \<longrightarrow> can_search m') \<and>
      (\<forall>p j. map_of es p = Some j \<longrightarrow> firm (nodes d j) \<longrightarrow> map_of es' p = Some j)"
    if k: "nodes d k = Some (DirNode m up es)" for k m up es
  proof (cases "k = i")
    case True
    then have "entry d i = map_of es" using k by (simp add: entry_def fun_eq_iff)
    then show ?thesis using ed k keep True by (auto simp: edited_def)
  next
    case False
    have "k \<noteq> next_ino d" using k wf_none [OF wf] by auto
    then show ?thesis using node_old [OF le False] k by auto
  qed
  have "nodes d' k = Some (SymNode t)" if "nodes d k = Some (SymNode t)" for k t
    using that node_old [OF le, of k] legal_editD(8) [OF le] wf_none [OF wf]
    by (cases "k = i \<or> k = next_ino d") (auto simp: private_dir_def)
  moreover have "root_ino d' = root_ino d" "cwd_ino d' = cwd_ino d" using ed by (auto simp: edited_def)
  ultimately show ?thesis unfolding grows_def using dirs by simp
qed

text \<open>What the edit does to the contents.\<close>

lemma file_at_edited:
  assumes le: "legal_edit b L r d i M n d'" and k: "managed_dir L d r k" "files_of L r k p"
    and same: "k = i \<longrightarrow> M p = entry d i p"
  shows "file_at d' k p = file_at d k p"
proof -
  have e: "entry d' k p = entry d k p" using same by (auto simp: entry_edited [OF le])
  show ?thesis
  proof (cases "entry d k p")
    case (Some j)
    then have "private_node (nodes d j)"
      using managed_dir_ok [OF legal_editD(2) [OF le] k(1)] k(2) by (auto simp: dir_ok_def)
    then show ?thesis using e Some file_old [OF le Some] by (simp add: file_at_def)
  qed (simp add: file_at_def e)
qed

lemma target_edited:
  assumes le: "legal_edit b L r d i M n d'" and t: "target L d r nm k q"
  shows "target L d' r nm k q"
proof -
  have "entry d' r s = Some j" if s: "entry d r s = Some j" "lay_dir L s" for s j
  proof (rule ccontr)
    assume c: "entry d' r s \<noteq> Some j"
    with s have "i = r" "M s \<noteq> entry d i s" by (auto simp: entry_edited [OF le] split: if_splits)
    with legal_editD(6) [OF le, of s] legal_editD(1) [OF le] s show False
      by (auto simp: allowed_def files_of_def valid_layout_def)
  qed
  with t show ?thesis by (auto simp: target_def)
qed

lemma view_point:
  assumes le: "legal_edit b L r d i M n d'"
    and same: "\<And>q. target L d r nm i q \<Longrightarrow> M q = entry d i q"
  shows "view_at L r d' nm = view_at L r d nm"
proof (cases "\<exists>k q. target L d r nm k q")
  case True
  then obtain k q where t: "target L d r nm k q" by blast
  have "file_at d' k q = file_at d k q"
    by (rule file_at_edited [OF le target_managed [OF legal_editD(2) [OF le] t]]) (use t same in blast)
  then show ?thesis
    using view_target [OF legal_editD(1) [OF le] t] view_target [OF legal_editD(1) [OF le] target_edited [OF le t]]
    by simp
next
  case False
  then have none: "view_at L r d nm = None" by (intro view_no_target [OF legal_editD(1) [OF le]]) blast
  have "view_at L r d' nm = None"
  proof (cases "\<exists>k q. target L d' r nm k q")
    case True
    then obtain k q where t: "target L d' r nm k q" by blast
    with False obtain s where s: "lay_dir L s" "entry d' r s = Some k" "entry d r s \<noteq> Some k"
      unfolding target_def by blast
    then have "k = next_ino d" "is_dir_node n" using sub_edited [OF le s(1,2)] by auto
    then have "dir_ok b (\<lambda>_. True) d' k" using new_dir_ok [OF le] by blast
    have "entry d' k q = None"
      using \<open>k = next_ino d\<close> \<open>is_dir_node n\<close> node_new [OF le] by (auto simp: entry_def is_dir_node_def)
    then show ?thesis using view_target [OF legal_editD(1) [OF le] t] by (simp add: file_at_def)
  next
    case False
    then show ?thesis by (intro view_no_target [OF legal_editD(1) [OF le]]) blast
  qed
  with none show ?thesis by simp
qed

lemma view_unchanged:
  assumes "legal_edit b L r d i M n d'" "\<And>p. files_of L r i p \<Longrightarrow> M p = entry d i p"
  shows "view_at L r d' = view_at L r d"
  using view_point [OF assms(1)] assms(2) target_managed(2) [OF legal_editD(2) [OF assms(1)]] by blast

lemma view_changed:
  assumes le: "legal_edit b L r d i M n d'" and t: "target L d r nm i p"
    and same: "\<And>q. q \<noteq> p \<Longrightarrow> M q = entry d i q"
  shows "view_at L r d' = (view_at L r d)(nm := file_at d' i p)"
proof
  fix nm'
  show "view_at L r d' nm' = ((view_at L r d)(nm := file_at d' i p)) nm'"
  proof (cases "nm' = nm")
    case True
    then show ?thesis using view_target [OF legal_editD(1) [OF le] target_edited [OF le t]] by simp
  next
    case False
    have "M q = entry d i q" if "target L d r nm' i q" for q
      using same [of q] target_inj [OF legal_editD(2) [OF le] t] that False by blast
    then show ?thesis using view_point [OF le] False by simp
  qed
qed

end
