(* ===== verification/Store_Map.thy ===== *)
theory Store_Map
  imports Store_Laws
begin

text \<open>
  The operations of the package \<open>store\<close> on a private root directory refine a map from the
  managed names to contents: every operation either acts on the map as its name says, or
  reports an error and leaves the map as it was.
\<close>

subsection \<open>An existing root directory\<close>

lemma namei_filter: "namei d True n i (filter (\<lambda>c. c \<noteq> []) ps) = namei d True n i ps"
proof (induction n arbitrary: i ps rule: less_induct)
  case (less n)
  show ?case
  proof (induction ps arbitrary: i)
    case (Cons p ps)
    have "namei d True k j (q @ filter (\<lambda>c. c \<noteq> []) ps) = namei d True k j (q @ ps)" if "k < n" for k j q
      using less.IH [OF that, of j "q @ filter (\<lambda>c. c \<noteq> []) ps"] less.IH [OF that, of j "q @ ps"] by simp
    with Cons show ?case
      by (cases "p = []"; cases "p = ''.''"; cases "p = ''..''")
        (auto split: sum.splits option.splits node.splits nat.splits)
  qed simp
qed

lemma namei_append:
  "namei d fl n i (ps @ ws) = Inr j \<Longrightarrow> ws \<noteq> [] \<Longrightarrow> \<exists>k n'. namei d True n i ps = Inr k \<and> namei d fl n' k ws = Inr j"
proof (induction n arbitrary: i ps rule: less_induct)
  case (less n)
  have sym: "\<exists>k n'. namei d True m x (qs @ ps) = Inr k \<and> namei d fl n' k ws = Inr j"
    if "m < n" "namei d fl m x (qs @ ps @ ws) = Inr j" for m x qs ps
    using less.IH [OF that(1), of x "qs @ ps"] that(2) less.prems(2) by simp
  from less.prems(1) show ?case
  proof (induction ps arbitrary: i)
    case Nil
    then show ?case by (intro exI [of _ i] exI [of _ n]) simp
  next
    case (Cons q ps)
    consider "q = []" | "q = ''.''" | "q = ''..''" | "q \<noteq> []" "q \<noteq> ''.''" "q \<noteq> ''..''" by blast
    then show ?case
    proof cases
      case 4
      then obtain x nd where x: "lookup d i q = Inr x" "nodes d x = Some nd"
        using Cons.prems by (auto split: sum.splits option.splits)
      show ?thesis
      proof (cases nd)
        case (SymNode t)
        then obtain m where "n = Suc m" "namei d fl m (if is_abs t then root_ino d else i) (split_on CHR ''/'' t @ ps @ ws) = Inr j"
          using Cons.prems less.prems(2) 4 x by (auto split: nat.splits)
        then show ?thesis using sym [of m] 4 x SymNode by simp
      qed (use Cons less.prems(2) 4 x in auto)
    qed (use Cons less.prems(2) in \<open>auto split: sum.splits option.splits node.splits if_splits\<close>)
  qed
qed

lemma namei_prefix:
  assumes "namei d fl n i (ps @ [p]) = Inr j" "p \<noteq> []" "is_dir d j"
  obtains k m up es where "namei d True n i ps = Inr k" "nodes d k = Some (DirNode m up es)" "can_search m"
    "p = ''.'' \<or> p = ''..'' \<or> map_of es p \<noteq> None"
proof -
  from namei_append [OF assms(1)] obtain k n' where k: "namei d True n i ps = Inr k" "namei d fl n' k [p] = Inr j"
    by blast
  have "\<exists>m up es. nodes d k = Some (DirNode m up es) \<and> can_search m \<and> (p = ''.'' \<or> p = ''..'' \<or> map_of es p \<noteq> None)"
    using k(2) assms(2) by (auto simp: dot_def lookup_def split: if_splits sum.splits option.splits node.splits)
  with k(1) that show thesis by blast
qed

definition comps :: "string \<Rightarrow> string list" where
  "comps p = filter (\<lambda>c. c \<noteq> []) (split_on CHR ''/'' p)"

lemma rooted_comps: "rooted p r d \<longleftrightarrow> p \<noteq> [] \<and> namei d True os_max_symlinks (start_ino d p) (comps p) = Inr r"
  by (auto simp: rooted_def resolve_path_def comps_def namei_filter)

lemma sys_mkdir_snoc:
  assumes "comps p = cs @ [c]"
  shows "sys_mkdir p perm d = (case namei d True os_max_symlinks (start_ino d p) cs of
     Inl e \<Rightarrow> (Inl e, d)
   | Inr i \<Rightarrow> if c \<in> {''.'', ''..''} then (Inl EEXIST, d) else sys_mkdir_at i c perm d)"
proof -
  obtain a l where al: "cs @ [c] = a # l" by (cases "cs @ [c]") auto
  have "butlast (a # l) = cs" "last (a # l) = c" unfolding al [symmetric] by simp_all
  then show ?thesis
    using assms unfolding al sys_mkdir_def comps_def by (simp del: namei.simps butlast.simps last.simps split: sum.splits)
qed

lemma mkdir_existing:
  assumes "rooted p r d" "is_dir d r"
  shows "sys_mkdir p perm d = (Inl EEXIST, d)"
proof (cases "comps p" rule: rev_cases)
  case Nil
  then show ?thesis by (simp add: sys_mkdir_def comps_def)
next
  case (snoc cs c)
  then have "c \<in> set (comps p)" by simp
  then have c: "c \<noteq> []" by (simp add: comps_def)
  from assms(1) have "namei d True os_max_symlinks (start_ino d p) (cs @ [c]) = Inr r"
    unfolding rooted_comps snoc by simp
  then obtain k m up es where k: "namei d True os_max_symlinks (start_ino d p) cs = Inr k"
    "nodes d k = Some (DirNode m up es)" "can_search m" "c = ''.'' \<or> c = ''..'' \<or> map_of es c \<noteq> None"
    using assms(2) c by (elim namei_prefix) auto
  have "sys_mkdir p perm d = (if c \<in> {''.'', ''..''} then (Inl EEXIST, d) else sys_mkdir_at k c perm d)"
    using k(1) by (simp add: sys_mkdir_snoc [OF snoc])
  also have "\<dots> = (Inl EEXIST, d)"
    using k(2-4) by (auto simp: sys_mkdir_at_def add_entry_def)
  finally show ?thesis .
qed

text \<open>The parent that \<open>os.MkdirAll\<close> visits first has the components but the last.\<close>

lemma comps_slash [simp]: "comps (s @ CHR ''/'' # t) = comps s @ comps t"
  by (simp add: comps_def split_on_mid)

lemma comps_slashes: "set t \<subseteq> {CHR ''/''} \<Longrightarrow> comps t = []"
proof (induction t)
  case (Cons c t)
  then have "c = CHR ''/''" "comps t = []" by auto
  then show ?case using comps_slash [of "[]" t] by (simp add: comps_def)
qed (simp add: comps_def)

lemma comps_trailing: "set t \<subseteq> {CHR ''/''} \<Longrightarrow> comps (s @ t) = comps s"
proof (cases t)
  case (Cons c u)
  assume "set t \<subseteq> {CHR ''/''}"
  then show ?thesis using Cons comps_slashes [of u] by simp
qed simp

lemma parent_path_split:
  assumes "parent_path p \<noteq> []"
  obtains q c t where "p = parent_path p @ c @ t" "parent_path p = q @ ''/''" "c \<noteq> []" "CHR ''/'' \<notin> set c" "set t \<subseteq> {CHR ''/''}"
proof -
  define t where "t = takeWhile (\<lambda>c. c = CHR ''/'') (rev p)"
  define s where "s = dropWhile (\<lambda>c. c = CHR ''/'') (rev p)"
  define c where "c = takeWhile (\<lambda>c. c \<noteq> CHR ''/'') s"
  define q where "q = dropWhile (\<lambda>c. c \<noteq> CHR ''/'') s"
  have rp: "rev p = t @ s" and s: "s = c @ q" by (simp_all add: t_def s_def c_def q_def)
  from rp s have "rev (rev p) = rev (t @ c @ q)" by simp
  then have p: "p = rev q @ rev c @ rev t" by simp
  have pq: "parent_path p = rev q" by (simp add: parent_path_def q_def s_def)
  with assms have "q \<noteq> []" by simp
  then have "hd q = CHR ''/''" using hd_dropWhile [of "\<lambda>c. c \<noteq> CHR ''/''" s] unfolding q_def by blast
  with \<open>q \<noteq> []\<close> obtain x where x: "q = CHR ''/'' # x" by (cases q) simp_all
  have "c \<noteq> []"
  proof
    assume "c = []"
    then have "hd s = CHR ''/''" "s \<noteq> []" using s x by simp_all
    then show False using hd_dropWhile [of "\<lambda>c. c = CHR ''/''" "rev p"] unfolding s_def by blast
  qed
  moreover have "CHR ''/'' \<notin> set (rev c)" unfolding c_def by (auto dest: set_takeWhileD)
  moreover have "set (rev t) \<subseteq> {CHR ''/''}" unfolding t_def by (auto dest: set_takeWhileD)
  ultimately show thesis using p pq x that [of "rev c" "rev t" "rev x"] by simp
qed

lemma comps_parent:
  assumes "parent_path p \<noteq> []"
  obtains c where "comps p = comps (parent_path p) @ [c]" "c \<noteq> []"
proof -
  from assms obtain q c t where
    p: "p = parent_path p @ c @ t" "parent_path p = q @ ''/''" "c \<noteq> []" "CHR ''/'' \<notin> set c" "set t \<subseteq> {CHR ''/''}"
    by (rule parent_path_split)
  have c: "comps c = [c]" using p(3,4) by (simp add: comps_def split_on_no_sep)
  have "p = q @ CHR ''/'' # c @ t" using p(1) [unfolded p(2)] by simp
  then have "comps p = comps (q @ CHR ''/'' # c @ t)" by (rule arg_cong)
  also have "\<dots> = comps q @ comps (c @ t)" by simp
  also have "comps (c @ t) = [c]" using comps_trailing [OF p(5), of c] c by simp
  also have "comps q = comps (parent_path p)" unfolding p(2) by (rule comps_trailing [symmetric]) simp
  finally show thesis by (rule that [OF _ p(3)])
qed

lemma rooted_parent:
  assumes "rooted p r d" "is_dir d r" "parent_path p \<noteq> []"
  obtains k where "rooted (parent_path p) k d" "is_dir d k"
proof -
  from assms(3) obtain c where c: "comps p = comps (parent_path p) @ [c]" "c \<noteq> []" by (rule comps_parent)
  from assms(3) obtain q c' t where pp: "p = parent_path p @ c' @ t"
    by (rule parent_path_split)
  have "is_abs (parent_path p @ c' @ t) = is_abs p" by (rule arg_cong [OF pp [symmetric]])
  moreover have "is_abs (parent_path p @ u) = is_abs (parent_path p)" for u
    using assms(3) by (cases "parent_path p") (simp_all add: is_abs_def has_prefix_def)
  ultimately have "is_abs (parent_path p) = is_abs p" by simp
  then have st: "start_ino d (parent_path p) = start_ino d p" by (simp add: start_ino_def)
  from assms(1) have "namei d True os_max_symlinks (start_ino d p) (comps (parent_path p) @ [c]) = Inr r"
    unfolding rooted_comps c(1) by blast
  then obtain k m up es
    where "namei d True os_max_symlinks (start_ino d p) (comps (parent_path p)) = Inr k" "nodes d k = Some (DirNode m up es)"
    by (rule namei_prefix [OF _ c(2) assms(2)])
  then show thesis using that assms(3) st by (auto simp: rooted_comps is_dir_def)
qed

lemma stat_rooted:
  assumes "rooted p r d" "is_dir d r"
  obtains st where "sys_stat True p d = (Inr st, d)" "st_kind st = KDir"
  using assms by (auto simp: rooted_def sys_stat_def is_dir_def stat_of_def)

lemma stat_keeps: "\<exists>r. sys_stat fl p d = (r, d)"
  by (auto simp: sys_stat_def split: sum.splits option.splits)

text \<open>\<open>os.MkdirAll\<close> of an existing directory changes nothing, whatever call of it fails.\<close>

lemma yields_mkdir_all:
  "rooted p r d \<Longrightarrow> is_dir d r \<Longrightarrow> spec b d (mkdir_all p perm) (yields True b d ())"
proof (induction p arbitrary: r rule: measure_induct_rule [where f = length])
  case (less p)
  obtain st where st: "sys_stat True p d = (Inr st, d)" "st_kind st = KDir"
    by (rule stat_rooted [OF less.prems])
  have stat: "spec b d (os_stat p) (yields False b d st)"
    unfolding os_stat_def by (rule yields_syscall) (rule st(1))
  have p: "p \<noteq> []" using less.prems(1) by (simp add: rooted_comps)
  have parent: "spec b d (\<lambda>w. if p = [] \<or> parent_path p = [] then (Inr (), w) else mkdir_all (parent_path p) perm w)
      (yields True b d ())"
  proof (cases "parent_path p = []")
    case False
    then obtain k where "rooted (parent_path p) k d" "is_dir d k" by (rule rooted_parent [OF less.prems])
    then show ?thesis using less.IH [OF parent_path_shorter [OF p]] False p by simp
  qed (simp add: spec_return)
  have mk: "spec b d (os_mkdir p perm) (\<lambda>r d'. d' = d \<and> (case r of Inl e \<Rightarrow> is_exist e \<or> b | Inr _ \<Rightarrow> False))"
    unfolding os_mkdir_def by (rule spec_syscall [where f = "sys_mkdir p perm", OF mkdir_existing [OF less.prems]]) simp_all
  have ls: "spec b d (os_lstat p) (\<lambda>_ d'. d' = d)"
  proof -
    obtain r where "sys_stat False p d = (r, d)" using stat_keeps by blast
    then show ?thesis unfolding os_lstat_def by (rule spec_syscall) simp_all
  qed
  have eq: "mkdir_all p perm = (\<lambda>w. case os_stat p w of
      (Inl e, w1) \<Rightarrow>
        (case (if p = [] \<or> parent_path p = [] then (Inr (), w1) else mkdir_all (parent_path p) perm w1) of
           (Inl e, w2) \<Rightarrow> (Inl e, w2)
         | (Inr x, w2) \<Rightarrow>
             (case os_mkdir p perm w2 of
                (Inl e, w3) \<Rightarrow>
                  (case os_lstat p w3 of
                     (Inl _, w4) \<Rightarrow> (Inl e, w4)
                   | (Inr st, w4) \<Rightarrow> if st_kind st = KDir then (Inr (), w4) else (Inl e, w4))
              | (Inr _, w3) \<Rightarrow> (Inr (), w3)))
    | (Inr st, w1) \<Rightarrow> if st_kind st = KDir then (Inr (), w1) else (Inl (SysErr ''mkdir'' p ENOTDIR), w1))" (is "_ = ?f")
    by (rule ext, subst mkdir_all.simps, rule refl)
  have "spec b d ?f (yields True b d ())"
  proof (rule spec_yields [OF stat])
    show "spec b d (\<lambda>w. if st_kind st = KDir then (Inr (), w) else (Inl (SysErr ''mkdir'' p ENOTDIR), w)) (yields True b d ())"
      using st(2) by (simp add: spec_return)
  next
    fix e assume b: b
    show "spec b d (\<lambda>w1. case (if p = [] \<or> parent_path p = [] then (Inr (), w1) else mkdir_all (parent_path p) perm w1) of
           (Inl e, w2) \<Rightarrow> (Inl e, w2)
         | (Inr x, w2) \<Rightarrow>
             (case os_mkdir p perm w2 of
                (Inl e, w3) \<Rightarrow>
                  (case os_lstat p w3 of
                     (Inl _, w4) \<Rightarrow> (Inl e, w4)
                   | (Inr st, w4) \<Rightarrow> if st_kind st = KDir then (Inr (), w4) else (Inl e, w4))
              | (Inr _, w3) \<Rightarrow> (Inr (), w3))) (yields True b d ())"
    proof (rule spec_yields [OF parent])
      show "spec b d (\<lambda>w2. case os_mkdir p perm w2 of
                (Inl e, w3) \<Rightarrow>
                  (case os_lstat p w3 of
                     (Inl _, w4) \<Rightarrow> (Inl e, w4)
                   | (Inr st, w4) \<Rightarrow> if st_kind st = KDir then (Inr (), w4) else (Inl e, w4))
              | (Inr _, w3) \<Rightarrow> (Inr (), w3)) (yields True b d ())"
      proof (rule spec_try, rule spec_conseq [OF mk], clarsimp split: sum.splits)
        fix e assume "is_exist e \<or> b"
        show "spec b d (\<lambda>w3. case os_lstat p w3 of (Inl _, w4) \<Rightarrow> (Inl e, w4)
            | (Inr st, w4) \<Rightarrow> if st_kind st = KDir then (Inr (), w4) else (Inl e, w4)) (yields True b d ())"
          by (rule spec_try, rule spec_conseq [OF ls]) (auto simp: b intro!: spec_return spec_if split: sum.splits)
      qed
    qed (use b in \<open>simp add: spec_return\<close>)
  qed
  then show ?case unfolding eq [symmetric] .
qed

subsection \<open>Opening directories\<close>

definition strict_root :: "string \<Rightarrow> ino \<Rightarrow> filesys \<Rightarrow> bool" where
  "strict_root root r d = (resolve_path d False root = Inr r)"

lemma strict_root_grows:
  assumes "grows d d'" "strict_root root r d" "is_dir d r"
  shows "strict_root root r d'"
proof -
  have "start_ino d' p = start_ino d p" for p using assms(1) by (simp add: start_ino_def grows_def)
  then show ?thesis using assms(2) namei_grows [OF assms(1) _ assms(3)]
    by (auto simp: strict_root_def resolve_path_def split: if_splits)
qed

definition ready :: "bool \<Rightarrow> layout \<Rightarrow> string \<Rightarrow> ino \<Rightarrow> filesys \<Rightarrow> bool" where
  "ready b L root r d = (valid_layout L \<and> inv_at b L r d \<and> rooted root r d \<and> (lay_strict L \<longrightarrow> strict_root root r d))"

lemma readyD:
  assumes "ready b L root r d"
  shows "valid_layout L" "inv_at b L r d" "rooted root r d" "wf_disk d" "private_dir d r" "is_dir d r"
    "umask d AND dir_perm = 0" "lay_strict L \<Longrightarrow> strict_root root r d"
proof -
  show 1: "valid_layout L" "inv_at b L r d" "rooted root r d" "lay_strict L \<Longrightarrow> strict_root root r d"
    using assms by (simp_all add: ready_def)
  show "wf_disk d" "umask d AND dir_perm = 0" using 1(2) by (simp_all add: inv_at_def)
  show "private_dir d r" using inv_root [OF 1(2)] by (simp add: dir_ok_def)
  then show "is_dir d r" by (auto simp: private_dir_def is_dir_def)
qed

lemma ready_weaken: "ready False L root r d \<Longrightarrow> ready b L root r d"
proof -
  have "dir_ok False F d i \<Longrightarrow> dir_ok b F d i" for F i by (simp add: dir_ok_def)
  then show "ready False L root r d \<Longrightarrow> ready b L root r d" by (auto simp: ready_def inv_at_def)
qed

lemma ready_edited:
  assumes "ready b L root r d" "legal_edit b L r d i M n d'"
  shows "ready b L root r d'"
  using readyD [OF assms(1)] inv_edited [OF assms(2)] rooted_grows [OF grows_edited [OF assms(2)]]
    strict_root_grows [OF grows_edited [OF assms(2)]]
  by (simp add: ready_def)

lemma spec_open_directory:
  assumes rd: "ready a L root r d" and loc: "is_local name"
    and desc: "spec b d (descend r (split_on CHR ''/'' (clean name)) create) Q"
    and err: "\<And>e. b \<Longrightarrow> create \<or> hard e \<Longrightarrow> Q (Inl e) d"
  shows "spec b d (open_directory root name create) Q"
proof -
  note R = readyD [OF rd]
  have mk: "spec b d (\<lambda>w. if create then mkdir_all root dir_perm w else (Inr (), w)) (yields create b d ())"
    using yields_mkdir_all [OF R(3,6)] by (cases create) (simp_all add: spec_return)
  obtain m up es where n: "nodes d r = Some (DirNode m up es)" "can_read m"
    using R(5) by (elim private_dirE)
  have "sys_openroot root d = (Inr r, d)"
    using R(3) n by (simp add: sys_openroot_def rooted_def open_dir_node_def)
  then have op: "spec b d (os_openroot root) (yields create b d r)"
    unfolding os_openroot_def by (rule yields_syscall)
  have sd: "spec b d (secure_directory r None create) (yields create b d ())"
    by (rule yields_secure_directory [OF R(5)]) simp
  show ?thesis
    unfolding open_directory_def
    by (simp only: loc not_True_eq_False if_False)
      (rule spec_yields [OF mk], rule spec_yields [OF op], rule spec_yields [OF sd desc];
        simp add: spec_return err)
qed

lemma add_entry_new:
  assumes "private_dir d i" "plain_name p" "entry d i p = None" "wf_disk d"
  obtains d' where "add_entry i p mk d = (Inr (next_ino d), d')"
    "edited d i ((entry d i)(p \<mapsto> next_ino d)) (Some (mk i)) d'"
proof -
  obtain m up es where n: "nodes d i = Some (DirNode m up es)" "can_write m" "can_search m" "entry d i = map_of es"
    using assms(1) by (elim private_dirE)
  have i: "i \<noteq> next_ino d" using n wf_none [OF assms(4)] by auto
  have "p \<noteq> ''.''" "p \<noteq> ''..''" "map_of es p = None" using assms(2,3) n(4) by (simp_all add: plain_name_def)
  then have "add_entry i p mk d = (Inr (next_ino d), set_node i (DirNode m up (AList.update p (next_ino d) es)) (snd (alloc (mk i) d)))"
    using n by (simp add: add_entry_def alloc_def)
  moreover have "edited d i ((entry d i)(p \<mapsto> next_ino d)) (Some (mk i))
      (set_node i (DirNode m up (AList.update p (next_ino d) es)) (snd (alloc (mk i) d)))"
    unfolding edited_def
    by (intro exI [of _ m] exI [of _ up] exI [of _ es] exI [of _ "AList.update p (next_ino d) es"])
      (simp add: n set_node_def alloc_def)
  ultimately show thesis by (rule that)
qed

lemma legal_new:
  assumes "valid_layout L" "inv_at b L r d" "managed_dir L d r i"
    and "edited d i ((entry d i)(p \<mapsto> next_ino d)) n d'" "leaf n" "allowed b L r d i n p (Some (next_ino d))"
  shows "legal_edit b L r d i ((entry d i)(p \<mapsto> next_ino d)) n d'"
proof -
  have "wf_disk d" using assms(2) by (simp add: inv_at_def)
  then have "entry d i q \<noteq> Some (next_ino d)" for q using wf_entry [of d i q "next_ino d"] by auto
  then show ?thesis using assms by (auto simp: legal_edit_def)
qed

lemma umasked:
  fixes u :: mode
  assumes "u AND dir_perm = 0"
  shows "dir_perm AND NOT u = dir_perm" "file_perm AND NOT u = file_perm"
proof -
  have 1: "x AND NOT u = x" if "x AND dir_perm = x" for x :: mode
  proof -
    have "u AND x = u AND (x AND dir_perm)" using that by simp
    also have "\<dots> = x AND (u AND dir_perm)" by (metis and.assoc and.commute)
    finally have z: "u AND x = 0" using assms by simp
    show ?thesis
    proof (rule bit_eqI)
      fix k
      have "\<not> (bit u k \<and> bit x k)" using z by (metis bit_0_eq bit_and_iff bot_apply bot_bool_def)
      then show "bit (x AND NOT u) k = bit x k"
        using bit_imp_le_length [of x k] by (auto simp: bit_and_iff bit_not_iff)
    qed
  qed
  show "dir_perm AND NOT u = dir_perm" "file_perm AND NOT u = file_perm"
    by (rule 1, simp add: dir_perm_def file_perm_def)+
qed

lemma yields_lstat:
  assumes "private_dir d i" "plain_name p" "entry d i p = Some j" "nodes d j = Some n"
  shows "spec b d (r_lstat i p) (yields c b d (stat_of j n))"
  unfolding r_lstat_def by (rule yields_syscall) (simp add: lstat_private [OF assms(1,2)] assms(3,4))

text \<open>A missing entry.\<close>

lemma spec_lstat_missing:
  assumes "private_dir d i" "plain_name p" "entry d i p = None"
  shows "spec b d (r_lstat i p) (\<lambda>r d'. d' = d \<and> (\<exists>e. r = Inl e \<and> (is_not_exist e \<and> \<not> is_exist e \<or> b \<and> hard e)))"
  unfolding r_lstat_def
  by (rule spec_syscall [where f = "sys_lstat_at i p" and d' = d and r = "Inl ENOENT"])
    (simp_all add: lstat_private [OF assms(1,2)] assms(3))

lemma descend_one:
  assumes "s \<noteq> ''.''"
  shows "descend r [s] create = (\<lambda>w. case inspect_part r s create w of
       (Inl e, w1) \<Rightarrow> (Inl (WrapErr ''inspect storage directory: '' e), w1)
     | (Inr info, w1) \<Rightarrow>
         if st_kind info \<noteq> KDir then (Inl (Sentinel ErrUnsafePath), w1)
         else case r_openroot r s w1 of
           (Inl e, w2) \<Rightarrow> (Inl (WrapErr ''open storage directory: '' e), w2)
         | (Inr nx, w2) \<Rightarrow>
             (case secure_directory nx (Some info) create w2 of
                (Inl e, w3) \<Rightarrow> (Inl e, w3)
              | (Inr _, w3) \<Rightarrow> (Inr nx, w3)))"
  using assms by (simp add: fun_eq_iff split: prod.splits sum.splits)

lemma yields_descend:
  assumes "private_dir d r" "plain_name s" "entry d r s = Some j" "private_dir d j"
  shows "spec b d (descend r [s] create) (yields create b d j)"
proof -
  obtain m up es where n: "nodes d j = Some (DirNode m up es)" "can_read m"
    using assms(4) by (elim private_dirE)
  let ?st = "stat_of j (DirNode m up es)"
  have ls: "spec b d (r_lstat r s) (yields False b d ?st)"
    by (rule yields_lstat [OF assms(1-3) n(1)])
  have ip: "spec b d (inspect_part r s create) (yields False b d ?st)"
    unfolding inspect_part_def
    by (rule spec_yields [OF ls]) (simp_all add: spec_return hard_not_exist)
  have "sys_openroot_at r s d = (Inr j, d)"
    using n resolve_in_private [OF assms(1-3) n(1)] by (simp add: sys_openroot_at_def open_dir_node_def)
  then have op: "spec b d (r_openroot r s) (yields create b d j)"
    unfolding r_openroot_def by (rule yields_syscall)
  have sd: "spec b d (secure_directory j (Some ?st) create) (yields create b d ())"
    by (rule yields_secure_directory [OF assms(4)]) (simp add: stat_of_def)
  have dot: "s \<noteq> ''.''" using assms(2) by (simp add: plain_name_def)
  have k: "st_kind ?st = KDir" by (simp add: stat_of_def)
  show ?thesis
    unfolding descend_one [OF dot]
    by (rule spec_yields [OF ip], simp only: k simp_thms if_False,
       rule spec_yields [OF op], rule spec_yields [OF sd], auto intro: spec_return spec_pair)
qed

lemma spec_descend_missing:
  assumes "private_dir d r" "plain_name s" "entry d r s = None"
  shows "spec b d (descend r [s] False) (\<lambda>res d'. d' = d \<and> (\<exists>e. res = Inl e \<and> (is_not_exist e \<or> b \<and> hard e)))"
proof -
  have dot: "s \<noteq> ''.''" using assms(2) by (simp add: plain_name_def)
  have ip: "spec b d (inspect_part r s False) (\<lambda>res d'. d' = d \<and> (\<exists>e. res = Inl e \<and> (is_not_exist e \<or> b \<and> hard e)))"
    unfolding inspect_part_def
    by (rule spec_try, rule spec_conseq [OF spec_lstat_missing [OF assms]]) (auto intro!: spec_return spec_pair)
  show ?thesis
    unfolding descend_one [OF dot]
    by (rule spec_try, rule spec_conseq [OF ip]) (auto intro!: spec_return spec_pair)
qed

text \<open>A missing subdirectory is created; afterwards it is an existing one.\<close>

lemma spec_descend_create:
  assumes rd: "ready b L root r d" and s: "lay_dir L s" "entry d r s = None"
  shows "spec b d (descend r [s] True) (\<lambda>res d'. ready b L root r d' \<and> view_at L r d' = view_at L r d \<and>
     (case res of Inl _ \<Rightarrow> b | Inr j \<Rightarrow> entry d' r s = Some j))"
proof -
  note R = readyD [OF rd]
  have pl: "plain_name s" using valid_dir [OF R(1) s(1)] by simp
  then have dot: "s \<noteq> ''.''" by (simp add: plain_name_def)
  let ?n = "Some (DirNode (dir_perm AND NOT (umask d)) r [])"
  obtain d' where ae: "add_entry r s (\<lambda>up. DirNode (dir_perm AND NOT (umask d)) up []) d = (Inr (next_ino d), d')"
    "edited d r ((entry d r)(s \<mapsto> next_ino d)) ?n d'"
    by (rule add_entry_new [OF R(5) pl s(2) R(4)])
  have le: "legal_edit b L r d r ((entry d r)(s \<mapsto> next_ino d)) ?n d'"
    by (rule legal_new [OF R(1,2) _ ae(2)])
      (simp_all add: managed_dir_def leaf_def umasked [OF R(7)] allowed_def s is_dir_node_def, simp add: dir_perm_def)
  have rd': "ready b L root r d'" by (rule ready_edited [OF rd le])
  have vw: "view_at L r d' = view_at L r d"
    by (rule view_unchanged [OF le]) (use valid_dir [OF R(1) s(1)] in \<open>auto simp: files_of_def\<close>)
  have e': "entry d' r s = Some (next_ino d)" by (simp add: entry_edited [OF le])
  obtain m up es where n': "nodes d' (next_ino d) = Some (DirNode m up es)" using node_new [OF le] by blast
  have pd: "private_dir d' (next_ino d)"
    using inv_sub [OF readyD(2) [OF rd'] s(1) e'] by (simp add: dir_ok_def)
  have ls': "spec b d' (r_lstat r s) (yields True b d' (stat_of (next_ino d) (DirNode m up es)))"
    by (rule yields_lstat [OF readyD(5) [OF rd'] pl e' n'])
  have mk: "spec b d (r_mkdir r s dir_perm) (\<lambda>res x. (case res of Inl e \<Rightarrow> x = d \<and> b \<and> hard e | Inr _ \<Rightarrow> x = d'))"
    unfolding r_mkdir_def
    by (rule spec_syscall [where f = "sys_mkdir_at r s dir_perm" and d' = d' and r = "Inr ()"])
      (simp_all add: sys_mkdir_at_def ae(1))
  have ip: "spec b d (inspect_part r s True) (\<lambda>res x. (case res of Inl e \<Rightarrow> (x = d \<or> x = d') \<and> b
      | Inr st \<Rightarrow> x = d' \<and> st = stat_of (next_ino d) (DirNode m up es)))"
    unfolding inspect_part_def
    apply (rule spec_try, rule spec_conseq [OF spec_lstat_missing [OF R(5) pl s(2)]])
    apply clarsimp
    apply (rule spec_if)
     apply (rule spec_try, rule spec_conseq [OF mk])
    subgoal for e res x
      by (cases res) (auto simp: hard_def intro!: spec_return spec_conseq [OF ls'] split: sum.splits)
    apply (auto intro!: spec_return)
    done
  obtain m' up' es' where n2: "nodes d' (next_ino d) = Some (DirNode m' up' es')" "can_read m'"
    using pd by (elim private_dirE)
  have "sys_openroot_at r s d' = (Inr (next_ino d), d')"
    using n2 resolve_in_private [OF readyD(5) [OF rd'] pl e' n2(1)] by (simp add: sys_openroot_at_def open_dir_node_def)
  then have op: "spec b d' (r_openroot r s) (yields True b d' (next_ino d))"
    unfolding r_openroot_def by (rule yields_syscall)
  have k: "st_kind (stat_of (next_ino d) (DirNode m up es)) = KDir" by (simp add: stat_of_def)
  have sd: "spec b d' (secure_directory (next_ino d) (Some (stat_of (next_ino d) (DirNode m up es))) True) (yields True b d' ())"
    by (rule yields_secure_directory [OF pd]) (simp add: stat_of_def)
  let ?Q = "\<lambda>res d'. ready b L root r d' \<and> view_at L r d' = view_at L r d \<and>
     (case res of Inl _ \<Rightarrow> b | Inr j \<Rightarrow> entry d' r s = Some j)"
  have go: "spec b d' (\<lambda>w1. case r_openroot r s w1 of
           (Inl e, w2) \<Rightarrow> (Inl (WrapErr ''open storage directory: '' e), w2)
         | (Inr nx, w2) \<Rightarrow>
             (case secure_directory nx (Some (stat_of (next_ino d) (DirNode m up es))) True w2 of
                (Inl e, w3) \<Rightarrow> (Inl e, w3)
              | (Inr _, w3) \<Rightarrow> (Inr nx, w3))) ?Q"
    by (rule spec_yields [OF op], rule spec_yields [OF sd]) (use rd' in \<open>auto simp: vw e' intro!: spec_return spec_pair\<close>)
  show ?thesis
    unfolding descend_one [OF dot]
  proof (rule spec_try, rule spec_conseq [OF ip], goal_cases)
    case (1 res x)
    show ?case
    proof (cases res)
      case (Inl e)
      then show ?thesis using 1 rd rd' vw by (auto intro!: spec_return)
    next
      case (Inr info)
      then show ?thesis using 1 go by (simp add: k)
    qed
  qed
qed

text \<open>The parent directory of a managed name.\<close>

lemma dot_facts: "is_local ''.''" "split_on CHR ''/'' (clean ''.'') = [''.'']"
  by (simp_all add: is_local_def is_abs_def has_prefix_def clean_def)

lemma descend_dot: "descend r [''.''] create = (\<lambda>w. (Inr r, w))"
  by (simp add: fun_eq_iff)

lemma open_parent_eq:
  assumes "is_local n"
  shows "open_parent root n create = (\<lambda>w. case open_directory root (path_dir n) create w of
     (Inl e, w1) \<Rightarrow> (Inl e, w1) | (Inr r, w1) \<Rightarrow> (Inr (r, path_base n), w1))"
  using assms by (simp add: fun_eq_iff open_parent_def)

lemma managed_cases:
  assumes "valid_layout L" "managed L n"
  obtains "lay_file L n" "is_local n" "path_dir n = ''.''" "path_base n = n"
  | s p where "n = s @ ''/'' @ p" "lay_dir L s" "lay_sub L p" "plain_name s" "plain_name p"
      "is_local n" "path_dir n = s" "path_base n = p"
  using assms valid_file [OF assms(1)] valid_dir [OF assms(1)] valid_sub [OF assms(1)] unfolding managed_def
  by (metis plain_base plain_dir plain_is_local two_base two_dir two_is_local)

lemma target_is_managed: "target L d r n i p \<Longrightarrow> managed L n"
  by (auto simp: target_def managed_def)

lemma yields_open_parent:
  assumes rd: "ready a L root r d" and t: "target L d r n i p"
  shows "spec b d (open_parent root n create) (yields create b d (i, p))"
proof (rule managed_cases [OF readyD(1) [OF rd] target_is_managed [OF t]])
  assume n: "lay_file L n" "is_local n" "path_dir n = ''.''" "path_base n = n"
  then have ip: "i = r" "p = n" using t two_not_file [OF readyD(1) [OF rd]] by (auto simp: target_def)
  have "spec b d (open_directory root ''.'' create) (yields create b d r)"
    by (rule spec_open_directory [OF rd dot_facts(1)])
      (auto simp: dot_facts(2) descend_dot simp del: descend.simps intro!: spec_return)
  then show ?thesis
    unfolding open_parent_eq [OF n(2)] n(3,4) ip by (rule spec_yields) (auto intro!: spec_return spec_pair)
next
  fix s q assume n: "n = s @ ''/'' @ q" "lay_dir L s" "lay_sub L q" "plain_name s" "plain_name q"
      "is_local n" "path_dir n = s" "path_base n = q"
  have "\<not> lay_file L n" using two_not_file [OF readyD(1) [OF rd] n(2)] n(1) by simp
  with t obtain s' where s': "n = s' @ ''/'' @ p" "lay_dir L s'" "lay_sub L p" "entry d r s' = Some i"
    unfolding target_def by blast
  have "[s', p] = [s, q]"
    using two_split [of s q] two_split [of s' p] n(1,4,5) s'(1) valid_dir [OF readyD(1) [OF rd] s'(2)]
      valid_sub [OF readyD(1) [OF rd] s'(3)] by simp
  with s'(4) have e: "entry d r s = Some i" and q: "p = q" by simp_all
  have "private_dir d i" using inv_sub [OF readyD(2) [OF rd] n(2) e] by (simp add: dir_ok_def)
  then have "spec b d (open_directory root s create) (yields create b d i)"
    by (intro spec_open_directory [OF rd plain_is_local [OF n(4)]])
      (auto simp: n(4) intro!: yields_descend [OF readyD(5) [OF rd] n(4) e])
  then show ?thesis
    unfolding open_parent_eq [OF n(6)] n(7,8) q by (rule spec_yields) (auto intro!: spec_return spec_pair)
qed

definition missing :: "bool \<Rightarrow> filesys \<Rightarrow> goerr + 'a \<Rightarrow> filesys \<Rightarrow> bool" where
  "missing b d res d' = (d' = d \<and> (\<exists>e. res = Inl e \<and> (is_not_exist e \<or> b \<and> hard e)))"

lemma missing_simps [simp]:
  "missing b d (Inl e) d' = (d' = d \<and> (is_not_exist e \<or> b \<and> hard e))" "\<not> missing b d (Inr x) d'"
  by (simp_all add: missing_def)

lemma missing_open_parent:
  assumes rd: "ready a L root r d" and m: "managed L n" and nt: "\<And>i p. \<not> target L d r n i p"
  shows "spec b d (open_parent root n False) (missing b d)"
proof (rule managed_cases [OF readyD(1) [OF rd] m])
  assume "lay_file L n"
  then show ?thesis using nt [of r n] by (simp add: target_def)
next
  fix s p assume n: "n = s @ ''/'' @ p" "lay_dir L s" "lay_sub L p" "plain_name s" "plain_name p"
      "is_local n" "path_dir n = s" "path_base n = p"
  then have e: "entry d r s = None" using nt [of _ p] by (auto simp: target_def)
  have "spec b d (open_directory root s False) (missing b d)"
    by (intro spec_open_directory [OF rd plain_is_local [OF n(4)]])
      (auto simp: n(4) missing_def intro!: spec_conseq [OF spec_descend_missing [OF readyD(5) [OF rd] n(4) e]])
  then show ?thesis
    unfolding open_parent_eq [OF n(6)] n(7,8)
    by (intro spec_try) (erule spec_conseq, auto simp: missing_def intro!: spec_return spec_pair)
qed

lemma spec_open_parent_create:
  assumes rd: "ready b L root r d" and m: "managed L n"
  shows "spec b d (open_parent root n True) (\<lambda>res d'. ready b L root r d' \<and> view_at L r d' = view_at L r d \<and>
     (case res of Inl _ \<Rightarrow> b | Inr (i, p) \<Rightarrow> target L d' r n i p))"
proof (cases "\<exists>i p. target L d r n i p")
  case True
  then obtain i p where t: "target L d r n i p" by blast
  show ?thesis
    by (rule spec_conseq [OF yields_open_parent [OF rd t]]) (use rd t in \<open>auto simp: yields_def split: sum.splits\<close>)
next
  case False
  show ?thesis
  proof (rule managed_cases [OF readyD(1) [OF rd] m])
    assume "lay_file L n"
    then show ?thesis using False by (auto simp: target_def)
  next
    fix s p assume n: "n = s @ ''/'' @ p" "lay_dir L s" "lay_sub L p" "plain_name s" "plain_name p"
        "is_local n" "path_dir n = s" "path_base n = p"
    have e: "entry d r s = None"
    proof (cases "entry d r s")
      case (Some i)
      then have "target L d r n i p" using n by (auto simp: target_def)
      with False show ?thesis by blast
    qed
    have t: "target L d' r n i p" if "entry d' r s = Some i" for d' i using n that by (auto simp: target_def)
    have "spec b d (open_directory root s True) (\<lambda>res d'. ready b L root r d' \<and> view_at L r d' = view_at L r d \<and>
       (case res of Inl _ \<Rightarrow> b | Inr j \<Rightarrow> entry d' r s = Some j))"
      by (intro spec_open_directory [OF rd plain_is_local [OF n(4)]])
        (use rd in \<open>auto simp: n(4) intro!: spec_descend_create [OF rd n(2) e]\<close>)
    then show ?thesis
      unfolding open_parent_eq [OF n(6)] n(7,8)
      by (intro spec_try) (erule spec_conseq, auto simp: t intro!: spec_return spec_pair split: sum.splits)
  qed
qed

subsection \<open>Reading\<close>

lemma private_nodeE:
  assumes "private_node n"
  obtains m c where "n = Some (RegFile m c)" "can_read m" "(m AND 0x1FF) AND file_perm = m AND 0x1FF"
proof -
  from assms obtain m c where "n = Some (RegFile m c)" "can_read m" "m AND 0x1FF AND file_perm = m AND 0x1FF"
    unfolding private_node_def by blast
  then show thesis by (intro that) (simp_all add: and.assoc)
qed

lemma yields_regular_info:
  assumes "private_dir d i" "plain_name p" "entry d i p = Some j" "nodes d j = Some (RegFile m c)"
  shows "spec b d (regular_info i p) (yields False b d (stat_of j (RegFile m c)))"
  unfolding regular_info_def
  by (rule spec_yields [OF yields_lstat [OF assms(1-4)]]) (auto simp: stat_of_def intro!: spec_return spec_pair)

lemma missing_regular_info:
  assumes "private_dir d i" "plain_name p" "entry d i p = None"
  shows "spec b d (regular_info i p) (missing b d)"
  unfolding regular_info_def
  by (rule spec_try, rule spec_conseq [OF spec_lstat_missing [OF assms]]) (auto intro!: spec_return spec_pair)

lemma open_managed_read_eq:
  "open_managed_file i p O_RDONLY False = (\<lambda>w. case regular_info i p w of
      (Inl e, w1) \<Rightarrow> (Inl e, w1)
    | (Inr info, w1) \<Rightarrow>
        (case r_openfile i p O_RDONLY file_perm w1 of
           (Inl e, w2) \<Rightarrow> (Inl e, w2)
         | (Inr f, w2) \<Rightarrow>
             (case f_stat f w2 of
                (Inl e, w3) \<Rightarrow> (Inl e, w3)
              | (Inr opened, w3) \<Rightarrow>
                  if st_kind opened \<noteq> KReg \<or> st_ino info \<noteq> st_ino opened
                  then (Inl (Sentinel ErrUnsafePath), w3)
                  else (case secure_permissions f opened file_perm (wants_write O_RDONLY) w3 of
                          (Inl e, w4) \<Rightarrow> (Inl e, w4) | (Inr _, w4) \<Rightarrow> (Inr f, w4)))))"
  by (rule ext) (simp add: open_managed_file_def numeral_2_eq_2 split: prod.splits sum.splits)

lemma yields_open_managed_read:
  assumes "private_dir d i" "plain_name p" "entry d i p = Some j" "private_node (nodes d j)"
  shows "spec b d (open_managed_file i p O_RDONLY False) (yields False b d j)"
proof -
  obtain m c where n: "nodes d j = Some (RegFile m c)" "can_read m" "(m AND 0x1FF) AND file_perm = m AND 0x1FF"
    by (rule private_nodeE [OF assms(4)])
  let ?st = "stat_of j (RegFile m c)"
  have st: "st_kind ?st = KReg" "st_ino ?st = j" "st_perm ?st = m AND 0x1FF" by (simp_all add: stat_of_def)
  have ri: "spec b d (regular_info i p) (yields False b d ?st)"
    by (rule yields_regular_info [OF assms(1-3) n(1)])
  have "resolve_root d root_max_symlinks [i] [p] = Inr j"
    by (rule resolve_in_private [OF assms(1-3) n(1)]) simp
  then have "sys_open_at i p O_RDONLY file_perm d = (Inr j, d)"
    using n by (simp add: sys_open_at_def wants_create_def access_ok_def wants_write_def O_RDONLY_def O_WRONLY_def O_RDWR_def)
  then have op: "spec b d (r_openfile i p O_RDONLY file_perm) (yields False b d j)"
    unfolding r_openfile_def by (rule yields_syscall)
  have "sys_fstat j d = (Inr ?st, d)" using n(1) by (simp add: sys_fstat_def)
  then have fs: "spec b d (f_stat j) (yields False b d ?st)"
    unfolding f_stat_def by (rule yields_syscall)
  have sp: "spec b d (secure_permissions j ?st file_perm (wants_write O_RDONLY)) (yields False b d ())"
    by (rule yields_secure) (simp_all add: st n(3) wants_write_def O_RDONLY_def)
  show ?thesis
    unfolding open_managed_read_eq
    by (rule spec_yields [OF ri], rule spec_yields [OF op], rule spec_yields [OF fs])
      (auto simp: st intro!: spec_return spec_pair spec_yields [OF sp])
qed

lemma missing_open_managed_read:
  assumes "private_dir d i" "plain_name p" "entry d i p = None"
  shows "spec b d (open_managed_file i p O_RDONLY False) (missing b d)"
  unfolding open_managed_read_eq
  by (rule spec_try, rule spec_conseq [OF missing_regular_info [OF assms]])
    (auto simp: missing_def intro!: spec_return spec_pair)

definition reads :: "bool \<Rightarrow> filesys \<Rightarrow> string option \<Rightarrow> goerr + string \<Rightarrow> filesys \<Rightarrow> bool" where
  "reads b d content res d' = (d' = d \<and> (case res of Inr x \<Rightarrow> content = Some x
     | Inl e \<Rightarrow> (is_not_exist e \<longrightarrow> content = None) \<and> (\<not> b \<longrightarrow> is_not_exist e)))"

lemma reads_missing: "missing b d res d' \<Longrightarrow> reads b d None res d'"
  by (auto simp: missing_def reads_def)

lemma target_plain:
  "valid_layout L \<Longrightarrow> target L d r n i p \<Longrightarrow> plain_name p \<and> \<not> has_prefix p temp_prefix"
  using valid_file valid_sub unfolding target_def by blast

theorem spec_read_secure_at:
  assumes rd: "ready a L root r d" and m: "managed L n"
  shows "spec b d (read_secure_at root n) (reads b d (view_at L r d n))"
proof (cases "\<exists>i p. target L d r n i p")
  case False
  have "spec b d (read_secure_at root n) (missing b d)"
    unfolding read_secure_at_def
    by (rule spec_try, rule spec_conseq [OF missing_open_parent [OF rd m]])
      (use False in \<open>auto simp: missing_def intro!: spec_return spec_pair\<close>)
  moreover have "view_at L r d n = None" by (rule view_no_target [OF readyD(1) [OF rd]]) (use False in blast)
  ultimately show ?thesis by (auto elim!: spec_conseq intro: reads_missing)
next
  case True
  then obtain i p where t: "target L d r n i p" by blast
  have pl: "plain_name p" using target_plain [OF readyD(1) [OF rd] t] by blast
  have i: "private_dir d i" by (rule target_dir_ok [OF readyD(2) [OF rd] t])
  have v: "view_at L r d n = file_at d i p" by (rule view_target [OF readyD(1) [OF rd] t])
  show ?thesis
  proof (cases "entry d i p")
    case None
    have "spec b d (read_secure_at root n) (missing b d)"
      unfolding read_secure_at_def
      by (rule spec_yields [OF yields_open_parent [OF rd t]], simp, rule spec_try,
          rule spec_conseq [OF missing_open_managed_read [OF i pl None]])
        (auto simp: missing_def intro!: spec_return spec_pair)
    then show ?thesis using None v by (auto simp: file_at_def elim!: spec_conseq intro: reads_missing)
  next
    case (Some j)
    then have "private_node (nodes d j)"
      using managed_dir_ok [OF readyD(2) [OF rd]] target_managed [OF readyD(2) [OF rd] t] by (auto simp: dir_ok_def)
    then obtain mo c where n: "nodes d j = Some (RegFile mo c)" by (rule private_nodeE)
    have "sys_read j d = (Inr c, d)" using n by (simp add: sys_read_def)
    then have rdall: "spec b d (f_read_all j) (yields False b d c)"
      unfolding f_read_all_def by (rule yields_syscall)
    have "spec b d (read_secure_at root n) (yields False b d c)"
      unfolding read_secure_at_def
      by (rule spec_yields [OF yields_open_parent [OF rd t]], simp,
          rule spec_yields [OF yields_open_managed_read [OF i pl Some \<open>private_node (nodes d j)\<close>]],
          rule spec_yields [OF rdall])
        (auto intro!: spec_return spec_pair)
    moreover have "view_at L r d n = Some c" using v Some n by (simp add: file_at_def)
    ultimately show ?thesis
      by (auto simp: reads_def yields_def hard_not_exist elim!: spec_conseq split: sum.splits)
  qed
qed

subsection \<open>Writing\<close>

lemma editedE:
  assumes "edited d i M n d1" "private_dir d i" "wf_disk d"
  obtains m up es where "nodes d1 i = Some (DirNode m up es)" "map_of es = M" "can_write m" "can_search m"
    "nodes d1 (next_ino d) = n" "i \<noteq> next_ino d" "\<And>k. k \<noteq> i \<Longrightarrow> k \<noteq> next_ino d \<Longrightarrow> nodes d1 k = nodes d k"
proof -
  obtain m up es where n: "nodes d i = Some (DirNode m up es)" "can_write m" "can_search m"
    using assms(2) by (elim private_dirE)
  moreover have "i \<noteq> next_ino d" using n wf_none [OF assms(3)] by auto
  ultimately show thesis using assms(1) that by (auto simp: edited_def)
qed

lemma edited_node:
  assumes "edited d i M (Some n) d1" "private_dir d i" "wf_disk d"
  shows "edited d i M (Some n') (set_node (next_ino d) n' d1)"
proof -
  have "i \<noteq> next_ino d" using assms(2) wf_none [OF assms(3)] by (auto simp: private_dir_def)
  then show ?thesis using assms(1) by (auto simp: edited_def set_node_def fun_upd_twist)
qed

lemma edited_entries:
  assumes "edited d i M n d1" "nodes d1 i = Some (DirNode m up es)"
  shows "edited d i (map_of es') n (set_node i (DirNode m up es') d1)"
  using assms by (auto simp: edited_def set_node_def)

text \<open>The temporary file: created, filled, then renamed over the destination.\<close>

lemma yields_staged:
  assumes "edited d i M (Some (RegFile file_perm c)) d1" "private_dir d i" "wf_disk d"
  shows "spec b d1 (f_stat (next_ino d)) (yields False b d1 (stat_of (next_ino d) (RegFile file_perm c)))"
    "spec b d1 (secure_permissions (next_ino d) (stat_of (next_ino d) (RegFile file_perm c)) file_perm True) (yields False b d1 ())"
proof -
  have "nodes d1 (next_ino d) = Some (RegFile file_perm c)" using assms by (elim editedE)
  then have "sys_fstat (next_ino d) d1 = (Inr (stat_of (next_ino d) (RegFile file_perm c)), d1)"
    by (simp add: sys_fstat_def)
  then show "spec b d1 (f_stat (next_ino d)) (yields False b d1 (stat_of (next_ino d) (RegFile file_perm c)))"
    unfolding f_stat_def by (rule yields_syscall)
  show "spec b d1 (secure_permissions (next_ino d) (stat_of (next_ino d) (RegFile file_perm c)) file_perm True) (yields False b d1 ())"
    by (rule yields_secure) (simp_all add: stat_of_def file_perm_def)
qed

lemma spec_fill:
  assumes "edited d i M (Some (RegFile file_perm [])) d1" "private_dir d i" "wf_disk d"
  shows "spec b d1 (f_write (next_ino d) False data) (\<lambda>res d2. case res of
     Inl e \<Rightarrow> b \<and> (\<exists>c. edited d i M (Some (RegFile file_perm c)) d2)
   | Inr _ \<Rightarrow> edited d i M (Some (RegFile file_perm data)) d2)"
proof -
  have n: "nodes d1 (next_ino d) = Some (RegFile file_perm [])" using assms by (elim editedE)
  have w: "edited d i M (Some (RegFile file_perm x)) (write_bytes (next_ino d) False x d1)" for x
    using edited_node [OF assms] n by (simp add: write_bytes_def)
  show ?thesis
    unfolding f_write_def
    by (rule spec_syscall_partial [where r = "Inr ()" and d' = "write_bytes (next_ino d) False data d1"])
      (use w in \<open>auto simp: sys_write_def n\<close>)
qed

lemma spec_rename:
  assumes ed: "edited d i ((entry d i)(t \<mapsto> next_ino d)) (Some (RegFile file_perm c)) d1"
    and d: "private_dir d i" "wf_disk d" and t: "entry d i t = None" "plain_name t" and p: "plain_name p" "p \<noteq> t"
    and old: "\<And>j. entry d i p = Some j \<Longrightarrow> private_node (nodes d j)"
  shows "spec b d1 (r_rename i t p) (\<lambda>res d2. case res of
     Inl e \<Rightarrow> b \<and> d2 = d1
   | Inr _ \<Rightarrow> edited d i ((entry d i)(p \<mapsto> next_ino d)) (Some (RegFile file_perm c)) d2)"
proof -
  obtain m up es where n: "nodes d1 i = Some (DirNode m up es)" "map_of es = (entry d i)(t \<mapsto> next_ino d)"
    "can_write m" "can_search m" "nodes d1 (next_ino d) = Some (RegFile file_perm c)" "i \<noteq> next_ino d"
    "\<And>k. k \<noteq> i \<Longrightarrow> k \<noteq> next_ino d \<Longrightarrow> nodes d1 k = nodes d k"
    using ed d by (rule editedE) blast
  let ?es = "AList.update p (next_ino d) (AList.delete t es)"
  let ?d2 = "set_node i (DirNode m up ?es) d1"
  have "map_of ?es = (entry d i)(p \<mapsto> next_ino d)" using t(1) by (auto simp: n(2))
  then have ed2: "edited d i ((entry d i)(p \<mapsto> next_ino d)) (Some (RegFile file_perm c)) ?d2"
    using edited_entries [OF ed n(1), of ?es] by simp
  have dots: "t \<notin> {''.'', ''..''}" "p \<notin> {''.'', ''..''}" using t(2) p(1) by (simp_all add: plain_name_def)
  have old': "\<not> (case map_of es p of None \<Rightarrow> False
      | Some k \<Rightarrow> (case nodes d1 k of Some (DirNode _ _ _) \<Rightarrow> True | _ \<Rightarrow> False))" "map_of es p \<noteq> Some (next_ino d)"
  proof -
    have mp: "map_of es p = entry d i p" using p(2) by (simp add: n(2))
    show "map_of es p \<noteq> Some (next_ino d)" using wf_entry [OF d(2), of i p] mp by auto
    show "\<not> (case map_of es p of None \<Rightarrow> False
      | Some k \<Rightarrow> (case nodes d1 k of Some (DirNode _ _ _) \<Rightarrow> True | _ \<Rightarrow> False))"
    proof (cases "entry d i p")
      case (Some k)
      then obtain mo co where k: "nodes d k = Some (RegFile mo co)" using old by (metis private_nodeE)
      then have "k \<noteq> i" using d(1) by (auto simp: private_dir_def)
      moreover have "k \<noteq> next_ino d" using wf_entry [OF d(2) Some] by simp
      ultimately show ?thesis using Some mp k n(7) by simp
    qed (simp add: mp)
  qed
  have "sys_rename_at i t p d1 = (Inr (), ?d2)"
    using dots n old' by (simp add: sys_rename_at_def)
  then show ?thesis
    unfolding r_rename_def by (rule spec_syscall [where f = "sys_rename_at i t p"]) (use ed2 in auto)
qed

lemma yields_noop: "spec b d (syscall op p (\<lambda>d. (Inr (), d))) (yields c b d ())"
  by (rule yields_syscall) simp

lemma spec_staged_write:
  assumes ed: "edited d i ((entry d i)(t \<mapsto> next_ino d)) (Some (RegFile file_perm [])) d1"
    and d: "private_dir d i" "wf_disk d" and t: "entry d i t = None" "plain_name t" and p: "plain_name p" "p \<noteq> t"
    and old: "\<And>j. entry d i p = Some j \<Longrightarrow> private_node (nodes d j)"
  shows "spec b d1 (staged_write i t p (next_ino d) data) (\<lambda>res d2. case res of
     Inl e \<Rightarrow> b \<and> (\<exists>c. edited d i ((entry d i)(t \<mapsto> next_ino d)) (Some (RegFile file_perm c)) d2)
   | Inr _ \<Rightarrow> edited d i ((entry d i)(p \<mapsto> next_ino d)) (Some (RegFile file_perm data)) d2)" (is "spec b d1 _ ?Q")
proof -
  let ?s = "\<lambda>c d2. edited d i ((entry d i)(t \<mapsto> next_ino d)) (Some (RegFile file_perm c)) d2"
  have fin: "spec b d2 (\<lambda>w. case f_sync (next_ino d) w of
       (Inl e, w4) \<Rightarrow> (Inl (WrapErr ''sync credential file: '' e), w4)
     | (Inr _, w4) \<Rightarrow>
     (case f_close (next_ino d) w4 of
        (Inl e, w5) \<Rightarrow> (Inl (WrapErr ''close credential file: '' e), w5)
      | (Inr _, w5) \<Rightarrow>
     (case r_rename i t p w5 of
        (Inl e, w6) \<Rightarrow> (Inl (WrapErr ''replace credential file: '' e), w6)
      | (Inr _, w6) \<Rightarrow> (Inr (), w6)))) ?Q" if s: "?s data d2" for d2
    unfolding f_sync_def f_close_def
    by (rule spec_yields [OF yields_noop], rule spec_yields [OF yields_noop], rule spec_try,
        rule spec_conseq [OF spec_rename [OF s d t p old]])
      (use s in \<open>auto intro!: spec_return spec_pair split: sum.splits\<close>)
  have "spec b d1 (\<lambda>w2. case f_write (next_ino d) False data w2 of
      (Inl e, w3) \<Rightarrow> (Inl (WrapErr ''write credential file: '' e), w3)
    | (Inr _, w3) \<Rightarrow>
    (case f_sync (next_ino d) w3 of
       (Inl e, w4) \<Rightarrow> (Inl (WrapErr ''sync credential file: '' e), w4)
     | (Inr _, w4) \<Rightarrow>
     (case f_close (next_ino d) w4 of
        (Inl e, w5) \<Rightarrow> (Inl (WrapErr ''close credential file: '' e), w5)
      | (Inr _, w5) \<Rightarrow>
     (case r_rename i t p w5 of
        (Inl e, w6) \<Rightarrow> (Inl (WrapErr ''replace credential file: '' e), w6)
      | (Inr _, w6) \<Rightarrow> (Inr (), w6))))) ?Q"
  proof (rule spec_try, rule spec_conseq [OF spec_fill [OF ed d]], goal_cases)
    case (1 res x)
    show ?case
    proof (cases res)
      case (Inl e)
      then show ?thesis using 1 by (auto intro!: spec_return)
    next
      case (Inr u)
      then show ?thesis using 1 fin [of x] by simp
    qed
  qed
  then show ?thesis
    unfolding staged_write_def
    by (intro spec_yields [OF yields_staged(1) [OF ed d]] spec_yields [OF yields_staged(2) [OF ed d]])
      (use ed in \<open>auto intro!: spec_return spec_pair\<close>)
qed

lemma legal_orphan:
  assumes "ready b L root r d" "managed_dir L d r i" "edited d i (entry d i) (Some (RegFile m c)) d'"
  shows "legal_edit b L r d i (entry d i) (Some (RegFile m c)) d'"
  using assms wf_entry [OF readyD(4) [OF assms(1)], of i _ "next_ino d"] readyD(1,2) [OF assms(1)]
  by (auto simp: legal_edit_def leaf_def)

lemma file_perm_private: "private_node (Some (RegFile file_perm c))"
  by (simp add: private_node_def file_perm_def can_read_def)

lemma is_dir_node_file: "\<not> is_dir_node (Some (RegFile m c))"
  by (simp add: is_dir_node_def)

definition wrote :: "bool \<Rightarrow> layout \<Rightarrow> string \<Rightarrow> ino \<Rightarrow> filesys \<Rightarrow> string \<Rightarrow> string \<Rightarrow> goerr + unit \<Rightarrow> filesys \<Rightarrow> bool" where
  "wrote b L root r d n data res d' = (ready b L root r d' \<and>
     (case res of Inl _ \<Rightarrow> b \<and> view_at L r d' = view_at L r d
      | Inr _ \<Rightarrow> view_at L r d' = (view_at L r d)(n \<mapsto> data)))"

lemma wrote_err: "ready b L root r d \<Longrightarrow> b \<Longrightarrow> wrote b L root r d n data (Inl e) d"
  by (simp add: wrote_def)

text \<open>The three ways a write can leave the directory.\<close>

lemma wrote_staged:
  assumes rd: "ready b L root r d" and t: "target L d r n i p" and tt: "has_prefix t temp_prefix" "entry d i t = None"
    and b: b and ed: "edited d i ((entry d i)(t \<mapsto> next_ino d)) (Some (RegFile file_perm c)) d'"
  shows "wrote b L root r d n data (Inl e) d'"
proof -
  note R = readyD [OF rd]
  have le: "legal_edit b L r d i ((entry d i)(t \<mapsto> next_ino d)) (Some (RegFile file_perm c)) d'"
    by (rule legal_new [OF R(1,2) target_managed(1) [OF R(2) t] ed])
      (simp_all add: leaf_def allowed_def b tt file_perm_private)
  have "\<not> files_of L r i t" using tt(1) R(1) by (auto simp: files_of_def valid_layout_def fname_def)
  then have "view_at L r d' = view_at L r d" by (intro view_unchanged [OF le]) auto
  then show ?thesis using ready_edited [OF rd le] b by (simp add: wrote_def)
qed

lemma wrote_dropped:
  assumes rd: "ready b L root r d" and t: "target L d r n i p" and b: b
    and ed: "edited d i (entry d i) (Some (RegFile m c)) d'"
  shows "wrote b L root r d n data (Inl e) d'"
proof -
  have le: "legal_edit b L r d i (entry d i) (Some (RegFile m c)) d'"
    by (rule legal_orphan [OF rd target_managed(1) [OF readyD(2) [OF rd] t] ed])
  then show ?thesis using ready_edited [OF rd le] view_unchanged [OF le] b by (simp add: wrote_def)
qed

lemma wrote_renamed:
  assumes rd: "ready b L root r d" and t: "target L d r n i p"
    and ed: "edited d i ((entry d i)(p \<mapsto> next_ino d)) (Some (RegFile file_perm data)) d'"
  shows "wrote b L root r d n data (Inr ()) d'"
proof -
  note R = readyD [OF rd]
  have le: "legal_edit b L r d i ((entry d i)(p \<mapsto> next_ino d)) (Some (RegFile file_perm data)) d'"
    by (rule legal_new [OF R(1,2) target_managed(1) [OF R(2) t] ed])
      (simp_all add: leaf_def allowed_def file_perm_private target_managed(2) [OF R(2) t])
  have "file_at d' i p = Some data" by (simp add: file_at_def entry_edited [OF le] node_new [OF le])
  then have "view_at L r d' = (view_at L r d)(n \<mapsto> data)"
    using view_changed [OF le t] by simp
  then show ?thesis using ready_edited [OF rd le] by (simp add: wrote_def)
qed

text \<open>The deferred removal of the temporary name.\<close>

lemma spec_drop_staged:
  assumes ed: "edited d i ((entry d i)(t \<mapsto> next_ino d)) (Some (RegFile file_perm c)) d1"
    and d: "private_dir d i" "wf_disk d" and t: "entry d i t = None" "plain_name t"
  shows "spec b d1 (r_remove i t) (\<lambda>_ d2. b \<and> d2 = d1 \<or> edited d i (entry d i) (Some (RegFile file_perm c)) d2)"
proof -
  obtain m up es where n: "nodes d1 i = Some (DirNode m up es)" "map_of es = (entry d i)(t \<mapsto> next_ino d)"
    "can_write m" "can_search m" "nodes d1 (next_ino d) = Some (RegFile file_perm c)"
    using ed d by (rule editedE)
  let ?es = "AList.delete t es"
  have "map_of ?es = entry d i" using t(1) by (auto simp: n(2))
  then have ed2: "edited d i (entry d i) (Some (RegFile file_perm c)) (set_node i (DirNode m up ?es) d1)"
    using edited_entries [OF ed n(1), of ?es] by simp
  have "sys_remove_at i t d1 = (Inr (), set_node i (DirNode m up ?es) d1)"
    using t(2) n by (simp add: sys_remove_at_def plain_name_def)
  then show ?thesis
    unfolding r_remove_def by (rule spec_syscall [where f = "sys_remove_at i t"]) (use ed2 in auto)
qed

lemma spec_drop_absent:
  assumes ed: "edited d i ((entry d i)(p \<mapsto> next_ino d)) n d1"
    and d: "private_dir d i" "wf_disk d" and t: "entry d i t = None" "plain_name t" "p \<noteq> t"
  shows "spec b d1 (r_remove i t) (\<lambda>_ d2. d2 = d1)"
proof -
  obtain m up es where n: "nodes d1 i = Some (DirNode m up es)" "map_of es = (entry d i)(p \<mapsto> next_ino d)"
    "can_search m"
    using ed d by (rule editedE)
  have "sys_remove_at i t d1 = (Inl ENOENT, d1)"
    using t n by (auto simp: sys_remove_at_def plain_name_def)
  then show ?thesis
    unfolding r_remove_def by (rule spec_syscall [where f = "sys_remove_at i t"]) simp_all
qed

lemma temp_plain: "set txt \<subseteq> set base32_alphabet \<Longrightarrow> plain_name (temp_prefix @ txt)"
  by (auto simp: plain_name_def temp_prefix_def base32_alphabet_def)

lemma spec_create_staged:
  assumes d: "private_dir d i" "wf_disk d" "umask d AND dir_perm = 0" and t: "plain_name t"
    and free: "\<not> b \<longrightarrow> entry d i t = None"
  shows "spec b d (r_openfile i t (O_CREATE OR O_EXCL OR O_WRONLY) file_perm) (\<lambda>res d1. case res of
     Inl e \<Rightarrow> b \<and> d1 = d
   | Inr f \<Rightarrow> f = next_ino d \<and> entry d i t = None \<and>
       edited d i ((entry d i)(t \<mapsto> next_ino d)) (Some (RegFile file_perm [])) d1)"
proof -
  let ?mk = "\<lambda>_. RegFile (file_perm AND NOT (umask d)) []"
  have "sys_open_at i t (O_CREATE OR O_EXCL OR O_WRONLY) file_perm d = add_entry i t ?mk d"
    by (simp add: sys_open_at_def wants_create_def O_CREATE_def O_EXCL_def O_WRONLY_def)
  moreover have "\<exists>d1. add_entry i t ?mk d = (Inr (next_ino d), d1) \<and>
      edited d i ((entry d i)(t \<mapsto> next_ino d)) (Some (RegFile file_perm [])) d1" if "entry d i t = None"
    using add_entry_new [OF d(1) t that d(2), of ?mk] umasked [OF d(3)] by metis
  moreover have "add_entry i t ?mk d = (Inl EEXIST, d)" if "entry d i t \<noteq> None"
    using that t d(1) by (elim private_dirE) (auto simp: add_entry_def plain_name_def)
  ultimately show ?thesis
    unfolding r_openfile_def using free
    by (cases "entry d i t = None") (auto intro!: spec_syscall [where f = "sys_open_at i t (O_CREATE OR O_EXCL OR O_WRONLY) file_perm"])
qed

text \<open>From the parent directory on.\<close>

lemma spec_write_tail:
  assumes rd: "ready b L root r d" and t: "target L d r n i p" and pl: "plain_name tmp" "has_prefix tmp temp_prefix"
  shows "spec b d (\<lambda>w3. case r_openfile i tmp (O_CREATE OR O_EXCL OR O_WRONLY) file_perm w3 of
       (Inl e, w4) \<Rightarrow> (Inl (WrapErr ''create temporary credential file: '' e), w4)
     | (Inr f, w4) \<Rightarrow>
         (case staged_write i tmp p f data w4 of
            (res, w5) \<Rightarrow> (res, snd (r_remove i tmp w5)))) (wrote b L root r d n data)"
proof -
  note R = readyD [OF rd]
  have i: "private_dir d i" by (rule target_dir_ok [OF R(2) t])
  have ok: "dir_ok b (files_of L r i) d i" by (rule managed_dir_ok [OF R(2) target_managed(1) [OF R(2) t]])
  have p: "plain_name p" "p \<noteq> tmp" using target_plain [OF R(1) t] pl(2) by auto
  have old: "private_node (nodes d j)" if "entry d i p = Some j" for j
    using ok that target_managed(2) [OF R(2) t] by (auto simp: dir_ok_def)
  have free: "\<not> b \<longrightarrow> entry d i tmp = None" using ok pl(2) by (auto simp: dir_ok_def)
  have run: "spec b d1 (\<lambda>w4. case staged_write i tmp p (next_ino d) data w4 of
      (res, w5) \<Rightarrow> (res, snd (r_remove i tmp w5))) (wrote b L root r d n data)"
    if tt: "entry d i tmp = None" and ed: "edited d i ((entry d i)(tmp \<mapsto> next_ino d)) (Some (RegFile file_perm [])) d1" for d1
  proof (rule spec_bind, rule spec_conseq [OF spec_staged_write [OF ed i R(4) tt pl(1) p old]], goal_cases)
    case (1 j)
    then show ?case .
  next
    case (2 res d2)
    show ?case
    proof (cases res)
      case (Inl e)
      then obtain c where b: b and ed2: "edited d i ((entry d i)(tmp \<mapsto> next_ino d)) (Some (RegFile file_perm c)) d2"
        using 2 by auto
      show ?thesis
        unfolding Inl
        by (rule spec_after, rule spec_conseq [OF spec_drop_staged [OF ed2 i R(4) tt pl(1)]])
          (use wrote_staged [OF rd t pl(2) tt b ed2] wrote_dropped [OF rd t b] in blast)
    next
      case (Inr u)
      then have ed2: "edited d i ((entry d i)(p \<mapsto> next_ino d)) (Some (RegFile file_perm data)) d2"
        using 2 by simp
      show ?thesis
        unfolding Inr
        by (rule spec_after, rule spec_conseq [OF spec_drop_absent [OF ed2 i R(4) tt pl(1) p(2)]])
          (use ed2 in \<open>auto intro: wrote_renamed [OF rd t]\<close>)
    qed
  qed
  show ?thesis
  proof (rule spec_try, rule spec_conseq [OF spec_create_staged [OF i R(4,7) pl(1) free]], goal_cases)
    case (1 res d1)
    show ?case
    proof (cases res)
      case (Inl e)
      then show ?thesis using 1 wrote_err [OF rd] by (auto intro!: spec_return)
    next
      case (Inr f)
      then show ?thesis using 1 run [of d1] by simp
    qed
  qed
qed

lemma spec_regular_target:
  assumes rd: "ready b L root r d" and t: "target L d r n i p"
  shows "spec b d (regular_info i p) (\<lambda>res d'. d' = d \<and> (case res of Inl e \<Rightarrow> is_not_exist e \<and> entry d i p = None \<or> b \<and> hard e | Inr st \<Rightarrow> entry d i p \<noteq> None))"
proof -
  note R = readyD [OF rd]
  have i: "private_dir d i" by (rule target_dir_ok [OF R(2) t])
  have pl: "plain_name p" using target_plain [OF R(1) t] by blast
  show ?thesis
  proof (cases "entry d i p")
    case None
    then show ?thesis
      by (intro spec_conseq [OF missing_regular_info [OF i pl None]]) (auto simp: missing_def)
  next
    case (Some j)
    then have "private_node (nodes d j)"
      using managed_dir_ok [OF R(2)] target_managed [OF R(2) t] by (auto simp: dir_ok_def)
    then obtain m c where "nodes d j = Some (RegFile m c)" by (rule private_nodeE)
    then show ?thesis
      by (intro spec_conseq [OF yields_regular_info [OF i pl Some]]) (auto simp: yields_def Some split: sum.splits)
  qed
qed

theorem spec_write_secure_at:
  assumes rd: "ready b L root r d" and m: "managed L n"
  shows "spec b d (write_secure_at root n data) (wrote b L root r d n data)"
proof -
  have tail: "spec b d' (\<lambda>w1. case regular_info i p w1 of
        (ri, w2) \<Rightarrow>
          if (case ri of Inl e \<Rightarrow> \<not> is_not_exist e | Inr _ \<Rightarrow> False)
          then (Inl (WrapErr ''inspect destination: '' (case ri of Inl e \<Rightarrow> e | Inr _ \<Rightarrow> MsgErr [])), w2)
          else
            (let (txt, w3) = rand_text w2;
                 temporary = temp_prefix @ txt
             in case r_openfile i temporary (O_CREATE OR O_EXCL OR O_WRONLY) file_perm w3 of
                  (Inl e, w4) \<Rightarrow> (Inl (WrapErr ''create temporary credential file: '' e), w4)
                | (Inr f, w4) \<Rightarrow>
                    (case staged_write i temporary p f data w4 of
                       (res, w5) \<Rightarrow> (res, snd (r_remove i temporary w5))))) (wrote b L root r d n data)"
    if rd': "ready b L root r d'" and v: "view_at L r d' = view_at L r d" and t: "target L d' r n i p" for d' i p
  proof -
    have w: "wrote b L root r d' n data = wrote b L root r d n data"
      by (intro ext) (simp add: wrote_def v split: sum.splits)
    show ?thesis
      unfolding w [symmetric]
    proof (rule spec_bind, rule spec_conseq [OF spec_regular_target [OF rd' t]], rule spec_if, goal_cases)
      case (1 ri x)
      then show ?case using wrote_err [OF rd'] by (auto intro!: spec_return split: sum.splits)
    next
      case (2 ri x)
      then have x: "x = d'" by simp
      show ?case
        unfolding x by (rule spec_rand_text, unfold Let_def, rule spec_write_tail [OF rd' t]) (simp_all add: temp_plain)
    qed
  qed
  show ?thesis
    unfolding write_secure_at_def
  proof (rule spec_try, rule spec_conseq [OF spec_open_parent_create [OF rd m]], goal_cases)
    case (1 res x)
    show ?case
    proof (cases res)
      case (Inl e)
      then show ?thesis using 1 by (auto simp: wrote_def intro!: spec_return)
    next
      case (Inr ip)
      then show ?thesis using 1 tail [of x "fst ip" "snd ip"] by (simp add: split_beta)
    qed
  qed
qed

subsection \<open>Removing\<close>

definition removed :: "bool \<Rightarrow> layout \<Rightarrow> string \<Rightarrow> ino \<Rightarrow> filesys \<Rightarrow> string \<Rightarrow> goerr + unit \<Rightarrow> filesys \<Rightarrow> bool" where
  "removed b L root r d n res d' = (ready b L root r d' \<and>
     (case res of
        Inl e \<Rightarrow> view_at L r d' = view_at L r d \<and> (is_not_exist e \<longrightarrow> view_at L r d n = None) \<and> (\<not> b \<longrightarrow> is_not_exist e)
      | Inr _ \<Rightarrow> view_at L r d n \<noteq> None \<and> view_at L r d' = (view_at L r d)(n := None)))"

lemma removed_missing:
  "ready b L root r d \<Longrightarrow> view_at L r d n = None \<Longrightarrow> missing b d res d' \<Longrightarrow> removed b L root r d n res d'"
  by (auto simp: missing_def removed_def)

lemma removed_hard: "ready b L root r d \<Longrightarrow> b \<Longrightarrow> hard e \<Longrightarrow> removed b L root r d n (Inl e) d"
  by (auto simp: removed_def hard_not_exist)

theorem spec_remove_secure_at:
  assumes rd: "ready b L root r d" and m: "managed L n"
  shows "spec b d (remove_secure_at root n) (removed b L root r d n)"
proof (cases "\<exists>i p. target L d r n i p")
  case False
  have "spec b d (remove_secure_at root n) (missing b d)"
    unfolding remove_secure_at_def
    by (rule spec_try, rule spec_conseq [OF missing_open_parent [OF rd m]])
      (use False in \<open>auto simp: missing_def intro!: spec_return spec_pair\<close>)
  moreover have "view_at L r d n = None" by (rule view_no_target [OF readyD(1) [OF rd]]) (use False in blast)
  ultimately show ?thesis by (auto elim!: spec_conseq intro: removed_missing [OF rd])
next
  case True
  then obtain i p where t: "target L d r n i p" by blast
  note R = readyD [OF rd]
  have pl: "plain_name p" using target_plain [OF R(1) t] by blast
  have i: "private_dir d i" by (rule target_dir_ok [OF R(2) t])
  have v: "view_at L r d n = file_at d i p" by (rule view_target [OF R(1) t])
  show ?thesis
  proof (cases "entry d i p")
    case None
    have "spec b d (remove_secure_at root n) (missing b d)"
      unfolding remove_secure_at_def
      by (rule spec_yields [OF yields_open_parent [OF rd t]], simp, rule spec_try,
          rule spec_conseq [OF missing_regular_info [OF i pl None]])
        (auto simp: missing_def intro!: spec_return spec_pair)
    moreover have "view_at L r d n = None" using v None by (simp add: file_at_def)
    ultimately show ?thesis by (auto elim!: spec_conseq intro: removed_missing [OF rd])
  next
    case (Some j)
    then have pn: "private_node (nodes d j)"
      using managed_dir_ok [OF R(2)] target_managed [OF R(2) t] by (auto simp: dir_ok_def)
    then obtain mo c where n: "nodes d j = Some (RegFile mo c)" by (rule private_nodeE)
    obtain m up es where dn: "nodes d i = Some (DirNode m up es)" "can_write m" "can_search m" "entry d i = map_of es"
      using i by (elim private_dirE)
    let ?M = "(entry d i)(p := None)" and ?d' = "set_node i (DirNode m up (AList.delete p es)) d"
    have ed: "edited d i ?M None ?d'"
      using dn wf_none [OF R(4)]
      by (auto simp: edited_def set_node_def fun_eq_iff intro!: exI [of _ m] exI [of _ up] exI [of _ es] exI [of _ "AList.delete p es"])
    have le: "legal_edit b L r d i ?M None ?d'"
      using R(1,2) target_managed [OF R(2) t] ed wf_entry [OF R(4), of i _ "next_ino d"]
      by (auto simp: legal_edit_def leaf_def allowed_def)
    have "view_at L r ?d' = (view_at L r d)(n := file_at ?d' i p)" by (rule view_changed [OF le t]) simp
    then have vw: "view_at L r ?d' = (view_at L r d)(n := None)"
      by (simp add: file_at_def entry_edited [OF le])
    have "sys_remove_at i p d = (Inr (), ?d')"
      using dn pl n Some by (simp add: sys_remove_at_def plain_name_def)
    then have rm: "spec b d (r_remove i p) (removed b L root r d n)"
      unfolding r_remove_def
    proof (rule spec_syscall)
      show "removed b L root r d n (lift_sys ''unlinkat'' p (Inr ())) ?d'"
        using vw v Some n ready_edited [OF rd le] by (simp add: removed_def file_at_def)
    qed (rule removed_hard [OF rd])
    show ?thesis
      unfolding remove_secure_at_def
      by (rule spec_yields [OF yields_open_parent [OF rd t]], simp,
          rule spec_yields [OF yields_regular_info [OF i pl Some n]])
        (use rm removed_hard [OF rd] in \<open>auto intro!: spec_return spec_pair\<close>)
  qed
qed

subsection \<open>Existence and listing\<close>

theorem spec_exists_secure_at:
  assumes rd: "ready b L root r d" and m: "managed L n"
  shows "spec b d (\<lambda>w. case exists_secure_at root n w of (x, w1) \<Rightarrow> (Inr x, w1))
    (\<lambda>res d'. d' = d \<and> (\<exists>x. res = Inr x \<and> (x \<longrightarrow> view_at L r d n \<noteq> None) \<and> (\<not> b \<longrightarrow> x = (view_at L r d n \<noteq> None))))"
    (is "spec b d _ ?Q")
proof -
  have eq: "(\<lambda>w. case exists_secure_at root n w of (x, w1) \<Rightarrow> (Inr x, w1)) = (\<lambda>w. case open_parent root n False w of
        (Inl e, w1) \<Rightarrow> (Inr False, w1)
      | (Inr ip, w1) \<Rightarrow>
     (case open_managed_file (fst ip) (snd ip) O_RDONLY False w1 of
        (Inl e, w2) \<Rightarrow> (Inr False, w2)
      | (Inr f, w2) \<Rightarrow> (case f_close f w2 of (Inl e, w3) \<Rightarrow> (Inr False, w3) | (Inr u, w3) \<Rightarrow> (Inr True, w3))))"
    by (rule ext) (simp add: exists_secure_at_def split: prod.splits sum.splits)
  show ?thesis
  proof (cases "\<exists>i p. target L d r n i p")
    case False
    have "view_at L r d n = None" by (rule view_no_target [OF readyD(1) [OF rd]]) (use False in blast)
    then show ?thesis
      unfolding eq
      by (intro spec_try spec_conseq [OF missing_open_parent [OF rd m]])
        (use False in \<open>auto simp: missing_def intro!: spec_return spec_pair\<close>)
  next
    case True
    then obtain i p where t: "target L d r n i p" by blast
    have pl: "plain_name p" using target_plain [OF readyD(1) [OF rd] t] by blast
    have i: "private_dir d i" by (rule target_dir_ok [OF readyD(2) [OF rd] t])
    have v: "view_at L r d n = file_at d i p" by (rule view_target [OF readyD(1) [OF rd] t])
    show ?thesis
    proof (cases "entry d i p")
      case None
      then have "view_at L r d n = None" using v by (simp add: file_at_def)
      then show ?thesis
        unfolding eq
        by (intro spec_yields [OF yields_open_parent [OF rd t]], simp,
            intro spec_try spec_conseq [OF missing_open_managed_read [OF i pl None]])
          (auto simp: missing_def intro!: spec_return spec_pair)
    next
      case (Some j)
      then have pn: "private_node (nodes d j)"
        using managed_dir_ok [OF readyD(2) [OF rd]] target_managed [OF readyD(2) [OF rd] t] by (auto simp: dir_ok_def)
      then obtain c where "view_at L r d n = Some c" using v Some by (auto simp: file_at_def elim: private_nodeE)
      then show ?thesis
        unfolding eq f_close_def
        by (intro spec_yields [OF yields_open_parent [OF rd t]], simp,
            intro spec_yields [OF yields_open_managed_read [OF i pl Some pn]] spec_yields [OF yields_noop])
          (auto intro!: spec_return spec_pair)
    qed
  qed
qed

lemma two_inj:
  assumes "plain_name s" "plain_name p" "plain_name s'" "plain_name q" "s @ ''/'' @ p = s' @ ''/'' @ q"
  shows "s = s' \<and> p = q"
proof -
  have "[s, p] = [s', q]"
    using arg_cong [OF assms(5), of "split_on CHR ''/''"]
    unfolding two_split [OF assms(1,2)] two_split [OF assms(3,4)] .
  then show ?thesis by simp
qed

definition lists :: "bool \<Rightarrow> layout \<Rightarrow> ino \<Rightarrow> filesys \<Rightarrow> string \<Rightarrow> goerr + string list \<Rightarrow> filesys \<Rightarrow> bool" where
  "lists b L r d s res d' = (d' = d \<and>
     (case res of
        Inl e \<Rightarrow> (is_not_exist e \<longrightarrow> (\<forall>p. lay_sub L p \<longrightarrow> view_at L r d (s @ ''/'' @ p) = None)) \<and> (\<not> b \<longrightarrow> is_not_exist e)
      | Inr ns \<Rightarrow> sorted ns \<and> distinct ns \<and> (\<forall>p. lay_sub L p \<longrightarrow> (p \<in> set ns \<longleftrightarrow> view_at L r d (s @ ''/'' @ p) \<noteq> None))))"

theorem spec_read_dir_secure_at:
  assumes rd: "ready b L root r d" and s: "lay_dir L s"
  shows "spec b d (read_dir_secure_at root s) (lists b L r d s)"
proof -
  note R = readyD [OF rd]
  have pl: "plain_name s" using valid_dir [OF R(1) s] by simp
  have loc: "is_local s" "split_on CHR ''/'' (clean s) = [s]" using pl by simp_all
  show ?thesis
  proof (cases "entry d r s")
    case None
    have nt: "\<not> target L d r (s @ ''/'' @ p) i q" if "lay_sub L p" for p i q
    proof
      assume "target L d r (s @ ''/'' @ p) i q"
      then obtain s' where s': "s @ ''/'' @ p = s' @ ''/'' @ q" "lay_dir L s'" "lay_sub L q" "entry d r s' = Some i"
        using two_not_file [OF R(1) s, of p] unfolding target_def by blast
      have "s = s'"
        using two_inj [OF pl _ _ _ s'(1)] valid_dir [OF R(1) s'(2)] valid_sub [OF R(1) s'(3)]
          valid_sub [OF R(1) that] by blast
      then show False using s'(4) None by simp
    qed
    have none: "\<forall>p. lay_sub L p \<longrightarrow> view_at L r d (s @ ''/'' @ p) = None"
      using nt view_no_target [OF R(1)] by blast
    have "spec b d (open_directory root s False) (missing b d)"
      by (rule spec_open_directory [OF rd loc(1)])
        (auto simp: loc(2) missing_def intro!: spec_conseq [OF spec_descend_missing [OF R(5) pl None]])
    then have "spec b d (read_dir_secure_at root s) (missing b d)"
      unfolding read_dir_secure_at_def
      by (intro spec_try) (erule spec_conseq, auto simp: missing_def intro!: spec_return spec_pair)
    then show ?thesis
      by (rule spec_conseq) (use none in \<open>auto simp: missing_def lists_def\<close>)
  next
    case (Some i)
    have i: "private_dir d i" and iok: "dir_ok b (lay_sub L) d i"
      using inv_sub [OF R(2) s Some] by (auto simp: dir_ok_def)
    have v: "view_at L r d (s @ ''/'' @ p) = file_at d i p" if "lay_sub L p" for p
      by (rule view_target [OF R(1)]) (use s that Some in \<open>auto simp: target_def\<close>)
    obtain m up es where n: "nodes d i = Some (DirNode m up es)" "can_read m" "can_search m" "entry d i = map_of es"
      using i by (elim private_dirE)
    have mem: "p \<in> set (map fst es) \<longleftrightarrow> file_at d i p \<noteq> None" if "lay_sub L p" for p
    proof -
      have "p \<in> set (map fst es) \<longleftrightarrow> entry d i p \<noteq> None" by (simp add: n(4) map_of_eq_None_iff)
      also have "\<dots> \<longleftrightarrow> file_at d i p \<noteq> None"
      proof (cases "entry d i p")
        case (Some j)
        then have "private_node (nodes d j)" using iok that unfolding dir_ok_def by blast
        then obtain mo c where "nodes d j = Some (RegFile mo c)" by (rule private_nodeE)
        then show ?thesis using Some by (simp add: file_at_def)
      qed (simp add: file_at_def)
      finally show ?thesis .
    qed
    have op: "spec b d (open_directory root s False) (yields False b d i)"
      by (rule spec_open_directory [OF rd loc(1)])
        (auto simp: loc(2) intro!: yields_descend [OF R(5) pl Some i])
    have "sys_readdir i d = (Inr (sort (remdups (map fst es))), d)" using n by (simp add: sys_readdir_def)
    then have "spec b d (r_readdir i) (yields False b d (sort (remdups (map fst es))))"
      unfolding r_readdir_def by (rule yields_syscall)
    then have "spec b d (read_dir_secure_at root s) (yields False b d (sort (remdups (map fst es))))"
      unfolding read_dir_secure_at_def
      by (intro spec_yields [OF op]) (auto intro!: spec_return spec_pair)
    then show ?thesis
      by (rule spec_conseq)
        (use mem v in \<open>auto simp: yields_def lists_def hard_not_exist split: sum.splits\<close>)
  qed
qed

subsection \<open>The path of a file: \<open>EnsureDir\<close>, \<open>WriteSecure\<close>, \<open>ReadSecure\<close>\<close>

text \<open>A file the owner made read-only cannot be opened for writing.\<close>

definition frozen :: "filesys \<Rightarrow> ino \<Rightarrow> string \<Rightarrow> bool" where
  "frozen d i p = (case entry d i p of None \<Rightarrow> False
     | Some j \<Rightarrow> (case nodes d j of Some (RegFile m c) \<Rightarrow> \<not> can_write m | _ \<Rightarrow> False))"

text \<open>A handle of a writer: the inode of a private writable file that still has its name.\<close>

definition held :: "filesys \<Rightarrow> ino \<Rightarrow> string \<Rightarrow> ino \<Rightarrow> bool" where
  "held d i p j = (entry d i p = Some j \<and> (\<exists>m c. nodes d j = Some (RegFile m c) \<and> m AND 0x1FF = file_perm))"

lemma chmod_root:
  assumes rd: "ready b L root r d" and st: "lay_strict L"
  obtains d' where "sys_chmod_path root dir_perm d = (Inr (), d')" "ready b L root r d'"
    "view_at L r d' = view_at L r d" "\<And>i p. frozen d' i p = frozen d i p" "\<And>i p j. held d i p j \<Longrightarrow> held d' i p j"
proof -
  note R = readyD [OF rd]
  obtain m up es where n: "nodes d r = Some (DirNode m up es)" "can_search m" using R(5) by (elim private_dirE)
  let ?d' = "set_node r (DirNode dir_perm up es) d"
  have ch: "sys_chmod_path root dir_perm d = (Inr (), ?d')"
    using R(3) n by (simp add: sys_chmod_path_def rooted_def sys_chmod_def)
  have e: "entry ?d' i p = entry d i p" for i p using n by (simp add: entry_def set_node_def)
  have node: "i \<noteq> r \<Longrightarrow> nodes ?d' i = nodes d i" for i by (simp add: set_node_def)
  have pd: "private_dir ?d' i = private_dir d i" for i
    using R(5) n by (cases "i = r") (auto simp: private_dir_def set_node_def dir_perm_def)
  have pn: "private_node (nodes ?d' j) = private_node (nodes d j)" for j
    using n by (cases "j = r") (auto simp: private_node_def set_node_def)
  have fa: "file_at ?d' i p = file_at d i p" for i p
  proof (cases "entry d i p")
    case (Some j)
    have "nodes ?d' r = Some (DirNode dir_perm up es)" by (simp add: set_node_def)
    then show ?thesis using Some n node by (cases "j = r") (simp_all add: file_at_def e)
  qed (simp add: file_at_def e)
  have g: "grows d ?d'"
    using n by (auto simp: grows_def set_node_def can_search_def dir_perm_def)
  have wf: "wf_disk ?d'"
    using R(4) n by (auto simp: wf_disk_def e) (auto simp: set_node_def wf_disk_def)
  have ok: "dir_ok b F ?d' i = dir_ok b F d i" for F i by (simp add: dir_ok_def e pd pn)
  have "umask ?d' = umask d" by (simp add: set_node_def)
  with wf have "inv_at b L r ?d'" using R(2) by (simp add: inv_at_def ok e)
  then have "ready b L root r ?d'"
    using R(1) rooted_grows [OF g R(3,6)] strict_root_grows [OF g R(8) [OF st] R(6)] by (simp add: ready_def)
  moreover have "view_at L r ?d' = view_at L r d"
    by (rule ext) (simp only: view_at_def fa e)
  moreover have "frozen ?d' i p = frozen d i p" for i p
  proof (cases "entry d i p")
    case (Some j)
    have "nodes ?d' r = Some (DirNode dir_perm up es)" by (simp add: set_node_def)
    then show ?thesis using Some n node by (cases "j = r") (simp_all add: frozen_def e)
  qed (simp add: frozen_def e)
  moreover have "held d i p j \<Longrightarrow> held ?d' i p j" for i p j
    using n node by (cases "j = r") (auto simp: held_def e)
  ultimately show thesis using that ch by blast
qed

lemma spec_ensure_dir:
  assumes rd: "ready b L root r d" and st: "lay_strict L"
  shows "spec b d (ensure_dir root) (\<lambda>res d'. ready b L root r d' \<and> view_at L r d' = view_at L r d \<and>
     (\<forall>i p. frozen d' i p = frozen d i p) \<and> (\<forall>i p j. held d i p j \<longrightarrow> held d' i p j) \<and>
     (case res of Inl _ \<Rightarrow> b | Inr _ \<Rightarrow> True))"
proof -
  note R = readyD [OF rd]
  obtain m up es where n: "nodes d r = Some (DirNode m up es)" using R(6) by (auto simp: is_dir_def)
  have "sys_stat False root d = (Inr (stat_of r (DirNode m up es)), d)"
    using R(8) [OF st] n by (simp add: sys_stat_def strict_root_def)
  then have ls: "spec b d (os_lstat root) (yields False b d (stat_of r (DirNode m up es)))"
    unfolding os_lstat_def by (rule yields_syscall)
  have k: "st_kind (stat_of r (DirNode m up es)) = KDir" by (simp add: stat_of_def)
  obtain d' where d': "sys_chmod_path root dir_perm d = (Inr (), d')" "ready b L root r d'"
    "view_at L r d' = view_at L r d" "\<And>i p. frozen d' i p = frozen d i p"
    "\<And>i p j. held d i p j \<Longrightarrow> held d' i p j"
    by (rule chmod_root [OF rd st]) blast
  have ch: "spec b d (secure_directory_path root info) (\<lambda>res x. case res of Inl _ \<Rightarrow> b \<and> x = d | Inr _ \<Rightarrow> x = d')" for info
    unfolding secure_directory_path_def os_chmod_def
    by (rule spec_syscall [where f = "sys_chmod_path root dir_perm", OF d'(1)]) simp_all
  show ?thesis
    unfolding ensure_dir_def
    by (intro spec_yields [OF yields_mkdir_all [OF R(3,6)]] spec_yields [OF ls], simp only: k simp_thms if_False,
        intro spec_try spec_conseq [OF ch])
      (use rd d' in \<open>auto intro!: spec_return spec_pair split: sum.splits\<close>)
qed

theorem spec_read_secure:
  assumes "ready b L (path_dir path) r d" "managed L (path_base path)"
  shows "spec b d (read_secure path) (reads b d (view_at L r d (path_base path)))"
  unfolding read_secure_def by (rule spec_read_secure_at [OF assms])

theorem spec_write_secure:
  assumes rd: "ready b L (path_dir path) r d" and st: "lay_strict L" and m: "managed L (path_base path)"
  shows "spec b d (write_secure path data) (wrote b L (path_dir path) r d (path_base path) data)"
  unfolding write_secure_def Let_def
proof (rule spec_try, rule spec_conseq [OF spec_ensure_dir [OF rd st]], goal_cases)
  case (1 res x)
  have w: "wrote b L (path_dir path) r x (path_base path) data = wrote b L (path_dir path) r d (path_base path) data"
    if "view_at L r x = view_at L r d"
    by (intro ext) (simp add: wrote_def that split: sum.splits)
  show ?case
  proof (cases res)
    case (Inl e)
    then show ?thesis using 1 by (auto simp: wrote_def intro!: spec_return)
  next
    case (Inr u)
    then show ?thesis using 1 w spec_write_secure_at [of b L "path_dir path" r x "path_base path" data] m by simp
  qed
qed

end
