(* ===== verification/Store_Interface.thy ===== *)
theory Store_Interface
  imports Store_Map
begin

text \<open>
  What the rest of the program may assume of the package \<open>store\<close>, as locales: a map from
  managed names to contents that is read, written and pruned, with results that tell the
  truth about it whether or not system calls fail.  The package is an instance of each.
\<close>

subsection \<open>The interfaces\<close>

locale file_map =
  fixes ok :: "bool \<Rightarrow> world \<Rightarrow> bool"
    and names :: "string \<Rightarrow> bool"
    and view :: "world \<Rightarrow> string \<Rightarrow> string option"
    and rd :: "string \<Rightarrow> string io"
    and wr :: "string \<Rightarrow> string \<Rightarrow> unit io"
  assumes read_law: "ok b w \<Longrightarrow> names n \<Longrightarrow> rd n w = (res, w') \<Longrightarrow>
      ok b w' \<and> same_env w w' \<and> disk w' = disk w \<and> view w' = view w \<and>
      (case res of Inr x \<Rightarrow> view w n = Some x
       | Inl e \<Rightarrow> (is_not_exist e \<longrightarrow> view w n = None) \<and> (\<not> b \<longrightarrow> is_not_exist e))"
    and write_law: "ok b w \<Longrightarrow> names n \<Longrightarrow> wr n x w = (res', w') \<Longrightarrow>
      ok b w' \<and> same_env w w' \<and>
      (case res' of Inr _ \<Rightarrow> view w' = (view w)(n \<mapsto> x) | Inl _ \<Rightarrow> b \<and> view w' = view w)"
begin

lemma read_frame:
  assumes "ok b w" "names n" "rd n w = (res, w')"
  shows "ok b w'" "same_env w w'" "view w' = view w" "disk w' = disk w"
  using read_law [OF assms] by simp_all

lemma write_frame:
  assumes "ok b w" "names n" "wr n x w = (res, w')"
  shows "ok b w'" "same_env w w'"
  using write_law [OF assms] by simp_all

lemma read_Some:
  assumes "ok b w" "names n" "view w n = Some x" "rd n w = (res, w')"
  shows "res = Inr x \<or> b \<and> (\<exists>e. res = Inl e \<and> \<not> is_not_exist e)"
  using read_law [OF assms(1,2,4)] assms(3) by (cases res) auto

lemma read_None:
  assumes "ok b w" "names n" "view w n = None" "rd n w = (res, w')"
  obtains e where "res = Inl e" "is_not_exist e \<or> b"
  using read_law [OF assms(1,2,4)] assms(3) by (cases res) auto

lemma write_quiet:
  assumes "ok False w" "names n" "wr n x w = (res, w')"
  shows "res = Inr ()" "view w' = (view w)(n \<mapsto> x)" "ok False w'"
  using write_law [OF assms] by (cases res; simp)+

lemma read_quiet:
  assumes "ok False w" "names n" "rd n w = (res, w')"
  shows "case view w n of Some x \<Rightarrow> res = Inr x | None \<Rightarrow> \<exists>e. res = Inl e \<and> is_not_exist e"
  using read_law [OF assms] by (cases res) auto

text \<open>A read after a successful write.\<close>

lemma read_back:
  assumes "ok False w" "names n" "wr n x w = (res, w1)" "names m" "rd m w1 = (res', w2)"
  shows "case ((view w)(n \<mapsto> x)) m of Some y \<Rightarrow> res' = Inr y | None \<Rightarrow> \<exists>e. res' = Inl e \<and> is_not_exist e"
  using read_quiet [OF write_quiet(3) [OF assms(1-3)] assms(4,5)] write_quiet(2) [OF assms(1-3)] by simp

text \<open>All or nothing, seen from any later read.\<close>

lemma write_atomic:
  assumes "ok b w" "names n" "wr n x w = (res, w1)"
  shows "view w1 m = view w m \<or> m = n \<and> view w1 n = Some x \<and> res = Inr ()"
  using write_law [OF assms] by (cases res) auto

end

locale file_map_del = file_map +
  fixes rm :: "string \<Rightarrow> unit io"
  assumes remove_law: "ok b w \<Longrightarrow> names n \<Longrightarrow> rm n w = (res', w') \<Longrightarrow>
      ok b w' \<and> same_env w w' \<and>
      (case res' of
         Inl e \<Rightarrow> view w' = view w \<and> (is_not_exist e \<longrightarrow> view w n = None) \<and> (\<not> b \<longrightarrow> is_not_exist e)
       | Inr _ \<Rightarrow> view w n \<noteq> None \<and> view w' = (view w)(n := None))"
begin

lemma remove_frame:
  assumes "ok b w" "names n" "rm n w = (res, w')"
  shows "ok b w'" "same_env w w'"
  using remove_law [OF assms] by simp_all

text \<open>Removing with an absent file forgiven: afterwards the name is gone, or an error is reported.\<close>

lemma remove_forgiving:
  assumes "ok b w" "names n" "rm n w = (res, w')"
  shows "case res of
     Inl e \<Rightarrow> if is_not_exist e then view w' = (view w)(n := None) else b \<and> view w' = view w
   | Inr _ \<Rightarrow> view w' = (view w)(n := None)"
  using remove_law [OF assms] by (cases res) (auto simp: fun_upd_idem)

end

text \<open>Values kept under a name in an encoding.\<close>

locale typed_store = file_map +
  fixes enc :: "'a \<Rightarrow> string option" and dec :: "string \<Rightarrow> 'b option" and norm :: "'a \<Rightarrow> 'b"
  assumes codec: "enc x = Some s \<Longrightarrow> dec s = Some (norm x)"
begin

lemma load_saved:
  assumes "ok False w" "names n" "enc x = Some s" "wr n s w = (res, w1)" "rd n w1 = (res', w2)"
  shows "\<exists>s. res' = Inr s \<and> dec s = Some (norm x)"
  using read_back [OF assms(1,2,4,2,5)] codec [OF assms(3)] by simp

lemma load_other:
  assumes "ok False w" "names n" "names m" "m \<noteq> n" "wr n s w = (res, w1)"
    and "rd m w = (r, w')" "rd m w1 = (r1, w1')"
  shows "case r of Inr y \<Rightarrow> r1 = Inr y | Inl e \<Rightarrow> \<exists>e'. r1 = Inl e' \<and> is_not_exist e'"
proof -
  have "view w1 m = view w m" using write_quiet(2) [OF assms(1,2,5)] assms(4) by simp
  then show ?thesis
    using read_quiet [OF assms(1,3,6)] read_quiet [OF write_quiet(3) [OF assms(1,2,5)] assms(3,7)]
    by (auto split: option.splits)
qed

end

subsection \<open>The package \<open>store\<close> is an instance\<close>

definition store_ok :: "layout \<Rightarrow> string \<Rightarrow> ino \<Rightarrow> bool \<Rightarrow> world \<Rightarrow> bool" where
  "store_ok L root r b w = (calm_world b w \<and> ready b L root r (disk w))"

definition store_view :: "layout \<Rightarrow> ino \<Rightarrow> world \<Rightarrow> string \<Rightarrow> string option" where
  "store_view L r w = view_at L r (disk w)"

lemma spec_run:
  assumes "spec b (disk w) m Q" "store_ok L root r b w" "m w = (res, w')"
  shows "calm_world b w'" "same_env w w'" "Q res (disk w')"
  using specD [OF assms(1) _ refl assms(3)] assms(2) by (simp_all add: store_ok_def)

interpretation rooted: file_map_del "store_ok L root r" "managed L" "store_view L r"
    "read_secure_at root" "write_secure_at root" "remove_secure_at root"
  for L root r
proof (unfold_locales, goal_cases)
  case (1 b w n res w')
  then have "ready b L root r (disk w)" by (simp add: store_ok_def)
  from spec_run [OF spec_read_secure_at [OF this 1(2)] 1(1,3)] show ?case
    using 1(1) by (auto simp: reads_def store_ok_def store_view_def split: sum.splits)
next
  case (2 b w n x res w')
  then have "ready b L root r (disk w)" by (simp add: store_ok_def)
  from spec_run [OF spec_write_secure_at [OF this 2(2)] 2(1,3)] show ?case
    by (auto simp: wrote_def store_ok_def store_view_def split: sum.splits)
next
  case (3 b w n res w')
  then have "ready b L root r (disk w)" by (simp add: store_ok_def)
  from spec_run [OF spec_remove_secure_at [OF this 3(2)] 3(1,3)] show ?case
    by (auto simp: removed_def store_ok_def store_view_def split: sum.splits)
qed

text \<open>One file given by its path, as \<open>WriteSecure\<close> and \<open>ReadSecure\<close> take it.\<close>

definition lone :: "string \<Rightarrow> layout" where
  "lone path = \<lparr>lay_file = (\<lambda>n. n = path_base path), lay_dir = (\<lambda>_. False), lay_sub = (\<lambda>_. False), lay_strict = True\<rparr>"

definition path_ok :: "string \<Rightarrow> ino \<Rightarrow> bool \<Rightarrow> world \<Rightarrow> bool" where
  "path_ok path r b w = store_ok (lone path) (path_dir path) r b w"

definition path_view :: "string \<Rightarrow> ino \<Rightarrow> world \<Rightarrow> string \<Rightarrow> string option" where
  "path_view path r w = (\<lambda>p. if p = path then store_view (lone path) r w (path_base path) else None)"

interpretation by_path: file_map "path_ok path r" "\<lambda>p. p = path" "path_view path r" read_secure write_secure
  for path r
proof (unfold_locales, goal_cases)
  case (1 b w n res w')
  then have "ready b (lone path) (path_dir path) r (disk w)" by (simp add: path_ok_def store_ok_def)
  from spec_read_secure [OF this] have "spec b (disk w) (read_secure path) (reads b (disk w) (view_at (lone path) r (disk w) (path_base path)))"
    by (simp add: managed_def lone_def)
  from spec_run [OF this 1(1) [unfolded path_ok_def] 1(3) [unfolded 1(2)]] show ?case
    using 1 by (auto simp: reads_def path_ok_def store_ok_def path_view_def store_view_def split: sum.splits)
next
  case (2 b w n x res w')
  then have "ready b (lone path) (path_dir path) r (disk w)" by (simp add: path_ok_def store_ok_def)
  from spec_write_secure [OF this] have "spec b (disk w) (write_secure path x) (wrote b (lone path) (path_dir path) r (disk w) (path_base path) x)"
    by (simp add: managed_def lone_def)
  from spec_run [OF this 2(1) [unfolded path_ok_def] 2(3) [unfolded 2(2)]] show ?case
    using 2 by (auto simp: wrote_def path_ok_def store_ok_def path_view_def store_view_def split: sum.splits)
qed

subsection \<open>An example disk\<close>

text \<open>A private directory \<open>/h\<close>, empty, below a public root: every layout is at home there.\<close>

definition demo_disk :: filesys where
  "demo_disk = \<lparr>nodes = [0 \<mapsto> DirNode 0x1ED 0 [(''h'', 5)], 5 \<mapsto> DirNode 0x1C0 0 []],
     next_ino = 6, root_ino = 0, cwd_ino = 0, umask = 0x12\<rparr>"

definition demo_world :: "fsevent list \<Rightarrow> world" where
  "demo_world evs = \<lparr>disk = demo_disk, sched = evs, clock = 0, ticks = [], local_zone = 0,
     environ = (\<lambda>_. []), entropy = (\<lambda>n. char_of n)\<rparr>"

lemma demo_env [simp]: "ticks (demo_world evs) = []" "clock (demo_world evs) = 0" "local_zone (demo_world evs) = 0"
  "sched (demo_world evs) = evs"
  by (simp_all add: demo_world_def)

lemma demo_entry: "entry demo_disk i p = (if i = 0 \<and> p = ''h'' then Some 5 else None)"
  by (simp add: entry_def demo_disk_def)

lemma demo_resolve: "resolve_path demo_disk fl ''/h'' = Inr 5"
  by (simp add: resolve_path_def start_ino_def is_abs_def has_prefix_def lookup_def can_search_def demo_disk_def)

lemma demo_ready:
  assumes "valid_layout L"
  shows "ready b L ''/h'' 5 demo_disk"
proof -
  have pd: "private_dir demo_disk 5" by (simp add: private_dir_def demo_disk_def dir_perm_def)
  have "wf_disk demo_disk" by (simp add: wf_disk_def demo_entry) (simp add: demo_disk_def)
  moreover have "umask demo_disk AND dir_perm = 0" by (simp add: demo_disk_def dir_perm_def)
  ultimately have "inv_at b L 5 demo_disk" using pd by (simp add: inv_at_def dir_ok_def demo_entry)
  then show ?thesis using assms by (simp add: ready_def rooted_def strict_root_def demo_resolve)
qed

lemma demo_ok: "valid_layout L \<Longrightarrow> list_all (calm b) evs \<Longrightarrow> store_ok L ''/h'' 5 b (demo_world evs)"
  using demo_ready by (simp add: store_ok_def calm_world_def demo_world_def)

lemma lone_valid: "plain_name (path_base p) \<Longrightarrow> \<not> has_prefix (path_base p) temp_prefix \<Longrightarrow> valid_layout (lone p)"
  by (simp add: valid_layout_def lone_def fname_def)

lemma demo_dir: "path_dir ''/h/t.json'' = ''/h''" "path_base ''/h/t.json'' = ''t.json''"
  by (simp_all add: path_dir_def path_base_def upto_last_slash_def after_last_slash_def Let_def clean_def is_abs_def has_prefix_def)

lemma demo_path_ok: "list_all (calm b) evs \<Longrightarrow> path_ok ''/h/t.json'' 5 b (demo_world evs)"
  unfolding path_ok_def demo_dir(1)
  by (rule demo_ok [OF lone_valid]) (simp_all add: demo_dir plain_name_def has_prefix_def temp_prefix_def)

lemma demo_view: "store_view L 5 (demo_world evs) n = None"
  by (simp add: store_view_def demo_world_def view_at_def file_at_def demo_entry split: list.splits)

lemma demo_path_view: "path_view ''/h/t.json'' 5 (demo_world evs) n = None"
  by (simp add: path_view_def demo_view)

end
