(* ===== verification/Store_Safety.thy ===== *)
theory Store_Safety
  imports Store_Interface
begin

text \<open>
  What the package \<open>store\<close> guarantees whatever the disk looks like, and in part whatever
  other processes do between its system calls.
\<close>

subsection \<open>Handles that were checked after opening\<close>

definition only_owner_file :: "filesys \<Rightarrow> ino \<Rightarrow> bool" where
  "only_owner_file d i = (\<exists>m c. nodes d i = Some (RegFile m c) \<and> m AND 0x1FF AND NOT file_perm = 0)"

definition only_owner_dir :: "filesys \<Rightarrow> ino \<Rightarrow> bool" where
  "only_owner_dir d i = (\<exists>m up es. nodes d i = Some (DirNode m up es) \<and> m AND 0x1FF AND NOT dir_perm = 0)"

lemma run_call_Inr: "run_call op p f w = (Inr x, w') \<Longrightarrow> f (disk w) = (Inr x, disk w')"
  by (auto simp: run_call_def split: prod.splits sum.splits)

lemma syscall_Inr:
  assumes "syscall op p f w = (Inr x, w')"
  obtains d where "f d = (Inr x, disk w')"
proof (cases "sched w")
  case Nil
  then show thesis using assms that run_call_Inr by (fastforce simp: syscall_def syscall_partial_def)
next
  case (Cons ev evs)
  then show thesis
    using assms that run_call_Inr by (cases ev) (fastforce simp: syscall_def syscall_partial_def Let_def)+
qed

lemma guard_Inr: "(if c then (Inl e, w1) else z) = (Inr y, w') \<Longrightarrow> z = (Inr y, w')"
  by (simp split: if_splits)

lemma f_stat_sees:
  assumes "f_stat i w = (Inr st, w')"
  shows "\<exists>n. nodes (disk w') i = Some n \<and> st = stat_of i n"
proof -
  from assms obtain d where "sys_fstat i d = (Inr st, disk w')" unfolding f_stat_def by (rule syscall_Inr)
  then show ?thesis by (auto simp: sys_fstat_def split: option.splits)
qed

lemma try_Inr:
  assumes "(case m w of (Inl e, w1) \<Rightarrow> (Inl (g e), w1) | (Inr x, w1) \<Rightarrow> k x w1) = (Inr y, w')"
  obtains x w1 where "m w = (Inr x, w1)" "k x w1 = (Inr y, w')"
  using assms by (cases "m w"; cases "fst (m w)") auto

lemma secure_read_only:
  assumes "secure_permissions f info permitted False w = (Inr u, w')"
  shows "w' = w" "st_perm info AND NOT permitted = 0"
proof -
  from assms have 1: "w' = w" "st_perm info AND permitted = st_perm info"
    by (auto simp: secure_permissions_def Let_def split: if_splits)
  show "w' = w" by (rule 1)
  have "st_perm info AND NOT permitted = (st_perm info AND permitted) AND NOT permitted" using 1(2) by simp
  then show "st_perm info AND NOT permitted = 0" by (simp add: and.assoc)
qed

lemma open_dot_same:
  assumes "r_open r ''.'' w = (Inr f, w')"
  shows "f = r"
proof -
  from assms obtain d where "sys_open_at r ''.'' O_RDONLY 0 d = (Inr f, disk w')"
    unfolding r_open_def r_openfile_def by (rule syscall_Inr)
  then show ?thesis
    by (auto simp: sys_open_at_def wants_create_def O_RDONLY_def dot_def
        split: option.splits node.splits if_splits)
qed

lemma secure_directory_checked:
  assumes "secure_directory r ex False w = (Inr u, w')"
  shows "only_owner_dir (disk w') r"
proof -
  from assms obtain f w1 info w2 where o: "r_open r ''.'' w = (Inr f, w1)" "f_stat f w1 = (Inr info, w2)"
    "st_kind info = KDir" "secure_permissions f info dir_perm False w2 = (Inr u, w')"
    by (auto simp: secure_directory_def split: prod.splits sum.splits if_splits)
  obtain n where n: "nodes (disk w2) r = Some n" "info = stat_of r n"
    using f_stat_sees [OF o(2)] open_dot_same [OF o(1)] by blast
  from o(3) n(2) have k: "kind_of n = KDir" by (simp add: stat_of_def)
  have w: "w' = w2" "st_perm info AND NOT dir_perm = 0" using secure_read_only [OF o(4)] by blast+
  show ?thesis
    using n w k by (cases n) (auto simp: only_owner_dir_def stat_of_def and.assoc)
qed

lemma descend_checked:
  "descend r ps False w = (Inr r', w') \<Longrightarrow> only_owner_dir (disk w) r \<Longrightarrow> only_owner_dir (disk w') r'"
proof (induction ps arbitrary: r w)
  case (Cons p ps)
  show ?case
  proof (cases "p = ''.''")
    case True
    then show ?thesis using Cons by simp
  next
    case False
    note d = Cons.prems(1) [simplified descend.simps False if_False]
    from d obtain info w1 where "(if st_kind info \<noteq> KDir then (Inl (Sentinel ErrUnsafePath), w1)
          else case r_openroot r p w1 of
            (Inl e, w2) \<Rightarrow> (Inl (WrapErr ''open storage directory: '' e), w2)
          | (Inr next, w2) \<Rightarrow>
              (case secure_directory next (Some info) False w2 of
                 (Inl e, w3) \<Rightarrow> (Inl e, w3)
               | (Inr _, w3) \<Rightarrow> descend next ps False w3)) = (Inr r', w')"
      by (rule try_Inr)
    then have "(case r_openroot r p w1 of
            (Inl e, w2) \<Rightarrow> (Inl (WrapErr ''open storage directory: '' e), w2)
          | (Inr next, w2) \<Rightarrow>
              (case secure_directory next (Some info) False w2 of
                 (Inl e, w3) \<Rightarrow> (Inl e, w3)
               | (Inr _, w3) \<Rightarrow> descend next ps False w3)) = (Inr r', w')"
      by (rule guard_Inr)
    then obtain nx w2 where "(case secure_directory nx (Some info) False w2 of
                 (Inl e, w3) \<Rightarrow> (Inl e, w3)
               | (Inr _, w3) \<Rightarrow> descend nx ps False w3) = (Inr r', w')"
      by (rule try_Inr)
    then obtain u w3 where "secure_directory nx (Some info) False w2 = (Inr u, w3)" "descend nx ps False w3 = (Inr r', w')"
      by (rule try_Inr)
    then show ?thesis using Cons.IH secure_directory_checked by blast
  qed
qed simp

lemma open_directory_checked:
  assumes "open_directory root name False w = (Inr r, w')"
  shows "only_owner_dir (disk w') r"
proof -
  have "(case os_openroot root w of
           (Inl e, w2) \<Rightarrow> (Inl (WrapErr ''open storage root: '' e), w2)
         | (Inr r, w2) \<Rightarrow>
             (case secure_directory r None False w2 of
                (Inl e, w3) \<Rightarrow> (Inl e, w3)
              | (Inr _, w3) \<Rightarrow> descend r (split_on CHR ''/'' (clean name)) False w3)) = (Inr r, w')"
    using guard_Inr [OF assms [unfolded open_directory_def]] by simp
  then obtain r0 w1 where "(case secure_directory r0 None False w1 of
                (Inl e, w3) \<Rightarrow> (Inl e, w3)
              | (Inr _, w3) \<Rightarrow> descend r0 (split_on CHR ''/'' (clean name)) False w3) = (Inr r, w')"
    by (rule try_Inr)
  then obtain u w2 where "secure_directory r0 None False w1 = (Inr u, w2)"
    "descend r0 (split_on CHR ''/'' (clean name)) False w2 = (Inr r, w')"
    by (rule try_Inr)
  then show ?thesis using secure_directory_checked descend_checked by blast
qed

lemma open_managed_checked:
  "open_managed n r name flags create w = (Inr f, w') \<Longrightarrow> \<not> wants_write flags \<Longrightarrow> only_owner_file (disk w') f"
proof (induction n arbitrary: w)
  case (Suc n)
  obtain ri w1 where ri: "regular_info r name w = (ri, w1)" by fastforce
  let ?info = "case ri of Inl _ \<Rightarrow> None | Inr st \<Rightarrow> Some st"
  let ?flags = "if ?info = None then flags OR O_CREATE OR O_EXCL else flags"
  obtain op w2 where op: "r_openfile r name ?flags file_perm w1 = (op, w2)" by fastforce
  show ?case
  proof (cases op)
    case (Inl e)
    then have "open_managed n r name flags create w2 = (Inr f, w')"
      using Suc.prems(1) ri op by (auto simp: Let_def split: if_splits)
    then show ?thesis using Suc.IH Suc.prems(2) by blast
  next
    case (Inr g)
    then obtain opened w3 where st: "f_stat g w2 = (Inr opened, w3)" "st_kind opened = KReg"
      and sp: "secure_permissions g opened file_perm (wants_write flags) w3 = (Inr (), w')" "g = f"
      using Suc.prems(1) ri op by (auto simp: Let_def split: prod.splits sum.splits if_splits)
    obtain nd where n: "nodes (disk w3) f = Some nd" "opened = stat_of f nd"
      using f_stat_sees [OF st(1)] sp(2) by blast
    have w: "w' = w3" "st_perm opened AND NOT file_perm = 0"
      using secure_read_only sp(1) Suc.prems(2) by (auto dest: secure_read_only)
    show ?thesis
      using n w st(2) by (cases nd) (auto simp: only_owner_file_def stat_of_def and.assoc)
  qed
qed simp

subsection \<open>Operations that only look\<close>

abbreviation keeps :: "filesys \<Rightarrow> 'a io \<Rightarrow> bool" where
  "keeps d m \<equiv> spec True d m (\<lambda>_ d'. d' = d)"

lemma keeps_syscall: "snd (f d) = d \<Longrightarrow> keeps d (syscall op p f)"
  by (rule spec_syscall [where r = "fst (f d)" and d' = d]) (simp_all add: prod_eq_iff)

lemma keeps_try:
  assumes "keeps d m" "\<And>x. keeps d (k x)" "\<And>e. keeps d (h e)"
  shows "keeps d (\<lambda>w. case m w of (Inl e, w1) \<Rightarrow> h e w1 | (Inr x, w1) \<Rightarrow> k x w1)"
  by (rule spec_try, rule spec_conseq [OF assms(1)]) (use assms(2,3) in \<open>auto split: sum.splits\<close>)

lemma keeps_bind:
  assumes "keeps d m" "\<And>r. keeps d (k r)"
  shows "keeps d (\<lambda>w. case m w of (r, w1) \<Rightarrow> k r w1)"
  by (rule spec_bind, rule spec_conseq [OF assms(1)]) (use assms(2) in auto)

lemma keeps_return: "keeps d (\<lambda>w. (r, w))" "keeps d (Pair r)"
  by (simp_all add: spec_return spec_pair)

lemmas keeps_rules = keeps_return keeps_try spec_if

lemma sys_keeps:
  "snd (sys_lstat_at r p d) = d" "snd (sys_fstat i d) = d" "snd (sys_openroot_at r p d) = d"
  "\<not> wants_create flags \<Longrightarrow> snd (sys_open_at r p flags m d) = d" "snd (sys_read i d) = d" "snd (sys_readdir r d) = d"
  "snd (sys_openroot q d) = d"
  by (auto simp: sys_lstat_at_def sys_fstat_def sys_openroot_at_def sys_open_at_def open_dir_node_def sys_read_def
      sys_readdir_def sys_openroot_def split: sum.splits option.splits node.splits)

lemma keeps_calls:
  "keeps d (r_lstat r p)" "keeps d (f_stat i)" "keeps d (r_openroot r p)" "keeps d (r_open r p)"
  "keeps d (f_read_all i)" "keeps d (r_readdir r)" "keeps d (os_openroot q)" "keeps d (f_close i)"
  "keeps d (r_openfile r p O_RDONLY m)"
  unfolding r_lstat_def f_stat_def r_openroot_def r_open_def r_openfile_def f_read_all_def r_readdir_def
    os_openroot_def f_close_def
  by (rule keeps_syscall, simp add: sys_keeps wants_create_def O_RDONLY_def)+

lemma keeps_secure: "keeps d (secure_permissions f info permitted False)"
  unfolding secure_permissions_def Let_def by (auto intro!: keeps_rules)

lemma keeps_secure_directory: "keeps d (secure_directory r ex False)"
  unfolding secure_directory_def by (intro keeps_rules keeps_calls keeps_secure)

lemma keeps_inspect: "keeps d (inspect_part r p False)"
proof -
  have "inspect_part r p False = (\<lambda>w. case r_lstat r p w of (Inl e, w1) \<Rightarrow> (Inl e, w1) | (Inr x, w1) \<Rightarrow> (Inr x, w1))"
    by (simp add: inspect_part_def fun_eq_iff split: prod.splits sum.splits)
  then show ?thesis by (auto intro!: keeps_rules keeps_calls)
qed

lemma keeps_descend: "keeps d (descend r ps False)"
proof (induction ps arbitrary: r)
  case Nil
  have "descend r [] False = (\<lambda>w. (Inr r, w))" by (simp add: fun_eq_iff)
  then show ?case by (simp add: keeps_return)
next
  case (Cons p ps)
  have "descend r (p # ps) False = (\<lambda>w. if p = ''.'' then descend r ps False w
      else case inspect_part r p False w of
        (Inl e, w1) \<Rightarrow> (Inl (WrapErr ''inspect storage directory: '' e), w1)
      | (Inr info, w1) \<Rightarrow>
          if st_kind info \<noteq> KDir then (Inl (Sentinel ErrUnsafePath), w1)
          else case r_openroot r p w1 of
            (Inl e, w2) \<Rightarrow> (Inl (WrapErr ''open storage directory: '' e), w2)
          | (Inr next, w2) \<Rightarrow>
              (case secure_directory next (Some info) False w2 of
                 (Inl e, w3) \<Rightarrow> (Inl e, w3)
               | (Inr _, w3) \<Rightarrow> descend next ps False w3))"
    by (simp add: fun_eq_iff)
  then show ?case
    using Cons by (simp only:) (intro keeps_rules keeps_calls keeps_inspect keeps_secure_directory)
qed

lemma keeps_open_directory: "keeps d (open_directory root name False)"
  unfolding open_directory_def by (simp only: if_False) (intro keeps_rules keeps_calls keeps_secure_directory keeps_descend)

lemma keeps_open_parent: "keeps d (open_parent root name False)"
  unfolding open_parent_def by (intro keeps_rules keeps_open_directory)

lemma keeps_open_managed: "keeps d (open_managed_file r p O_RDONLY False)"
  unfolding open_managed_read_eq regular_info_def
  by (intro keeps_rules keeps_calls) (simp_all add: wants_write_def O_RDONLY_def keeps_secure)

text \<open>The whole reading operations.\<close>

lemma keeps_pair: "(\<And>a b. keeps d (k a b)) \<Longrightarrow> keeps d (\<lambda>w. case x of (a, b) \<Rightarrow> k a b w)"
  by (cases x) simp

lemma keeps_read: "keeps d (read_secure_at root name)"
  unfolding read_secure_at_def
  by (intro keeps_rules keeps_pair keeps_open_parent keeps_open_managed keeps_calls)

lemma keeps_read_dir: "keeps d (read_dir_secure_at root name)"
  unfolding read_dir_secure_at_def by (intro keeps_rules keeps_open_directory keeps_calls)

lemma keeps_exists: "keeps d (\<lambda>w. case exists_secure_at root name w of (x, w1) \<Rightarrow> (Inr x, w1))"
proof -
  have eq: "(\<lambda>w. case exists_secure_at root name w of (x, w1) \<Rightarrow> (Inr x, w1)) = (\<lambda>w. case open_parent root name False w of
        (Inl e, w1) \<Rightarrow> (Inr False, w1)
      | (Inr ip, w1) \<Rightarrow>
     (case open_managed_file (fst ip) (snd ip) O_RDONLY False w1 of
        (Inl e, w2) \<Rightarrow> (Inr False, w2)
      | (Inr f, w2) \<Rightarrow> (case f_close f w2 of (Inl e, w3) \<Rightarrow> (Inr False, w3) | (Inr u, w3) \<Rightarrow> (Inr True, w3))))"
    by (rule ext) (simp add: exists_secure_at_def split: prod.splits sum.splits)
  show ?thesis
    unfolding eq by (intro keeps_rules keeps_open_parent keeps_open_managed keeps_calls)
qed

lemma keeps_run: "keeps d m \<Longrightarrow> calm_world True w \<Longrightarrow> disk w = d \<Longrightarrow> disk (snd (m w)) = d"
  by (simp add: spec_def)

text \<open>A name that leaves the root.\<close>

lemma nonlocal_open: "\<not> is_local name \<Longrightarrow> open_parent root name c w = (Inl (Sentinel ErrUnsafePath), w)"
  by (simp add: open_parent_def)

text \<open>Links and other special files among the managed names.\<close>

definition unsafe :: "filesys \<Rightarrow> goerr + 'a \<Rightarrow> filesys \<Rightarrow> bool" where
  "unsafe d res d' = (d' = d \<and> (\<exists>e. res = Inl e \<and> is_sentinel ErrUnsafePath e \<and> \<not> is_not_exist e))"

lemma unsafe_simps [simp]:
  "unsafe d (Inl e) d' = (d' = d \<and> is_sentinel ErrUnsafePath e \<and> \<not> is_not_exist e)" "\<not> unsafe d (Inr x) d'"
  by (simp_all add: unsafe_def)

lemma yields_root_parent:
  assumes "ready b L root r d" "plain_name p"
  shows "spec b d (open_parent root p c) (yields c b d (r, p))"
proof -
  have "spec b d (open_directory root ''.'' c) (yields c b d r)"
    by (rule spec_open_directory [OF assms(1) dot_facts(1)])
      (auto simp: dot_facts(2) descend_dot simp del: descend.simps intro!: spec_return)
  then show ?thesis
    unfolding open_parent_eq [OF plain_is_local [OF assms(2)]] plain_dir [OF assms(2)] plain_base [OF assms(2)]
    by (rule spec_yields) (auto intro!: spec_return spec_pair)
qed

lemma unsafe_regular_info:
  assumes "private_dir d r" "plain_name p" "entry d r p = Some j" "nodes d j = Some n" "kind_of n \<noteq> KReg"
  shows "spec False d (regular_info r p) (unsafe d)"
  unfolding regular_info_def
  by (rule spec_yields [OF yields_lstat [OF assms(1-4)]])
    (use assms(5) in \<open>auto simp: stat_of_def intro!: spec_return spec_pair\<close>)

lemma unsafe_descend:
  assumes "private_dir d r" "plain_name s" "entry d r s = Some j" "nodes d j = Some n" "kind_of n \<noteq> KDir"
  shows "spec False d (descend r [s] c) (unsafe d)"
proof -
  have dot: "s \<noteq> ''.''" using assms(2) by (simp add: plain_name_def)
  have ip: "spec False d (inspect_part r s c) (yields False False d (stat_of j n))"
    unfolding inspect_part_def
    by (rule spec_yields [OF yields_lstat [OF assms(1-4)]]) (auto intro!: spec_return spec_pair)
  have k: "(st_kind (stat_of j n) \<noteq> KDir) = True" using assms(5) by (simp add: stat_of_def)
  show ?thesis
    unfolding descend_one [OF dot]
    by (rule spec_yields [OF ip], simp only: k if_True) (auto intro!: spec_return spec_pair)
qed

lemma unsafe_try:
  assumes "spec False d m (unsafe d)" "\<And>e. is_sentinel ErrUnsafePath e \<Longrightarrow> \<not> is_not_exist e \<Longrightarrow> spec False d (h e) (unsafe d)"
  shows "spec False d (\<lambda>w. case m w of (Inl e, w1) \<Rightarrow> h e w1 | (Inr x, w1) \<Rightarrow> k x w1) (unsafe d)"
  by (rule spec_try, rule spec_conseq [OF assms(1)]) (use assms(2) in \<open>auto simp: unsafe_def\<close>)

lemma unsafe_open_managed:
  assumes "private_dir d r" "plain_name p" "entry d r p = Some j" "nodes d j = Some n" "kind_of n \<noteq> KReg"
  shows "spec False d (open_managed_file r p O_RDONLY False) (unsafe d)"
  unfolding open_managed_read_eq
  by (rule unsafe_try [OF unsafe_regular_info [OF assms]]) (auto intro!: spec_return spec_pair)

lemma unsafe_file:
  assumes rd: "ready False L root r d" and p: "plain_name p" "entry d r p = Some j" "nodes d j = Some n" "kind_of n \<noteq> KReg"
  shows "spec False d (read_secure_at root p) (unsafe d)" "spec False d (write_secure_at root p data) (unsafe d)"
    "spec False d (remove_secure_at root p) (unsafe d)"
proof -
  note pd = readyD(5) [OF rd]
  show "spec False d (read_secure_at root p) (unsafe d)"
    unfolding read_secure_at_def
    by (rule spec_yields [OF yields_root_parent [OF rd p(1)]], simp, rule unsafe_try [OF unsafe_open_managed [OF pd p]])
      (auto intro!: spec_return spec_pair)
  show "spec False d (remove_secure_at root p) (unsafe d)"
    unfolding remove_secure_at_def
    by (rule spec_yields [OF yields_root_parent [OF rd p(1)]], simp, rule unsafe_try [OF unsafe_regular_info [OF pd p]])
      (auto intro!: spec_return spec_pair)
  show "spec False d (write_secure_at root p data) (unsafe d)"
    unfolding write_secure_at_def
    by (rule spec_yields [OF yields_root_parent [OF rd p(1)]], simp, rule spec_bind,
        rule spec_conseq [OF unsafe_regular_info [OF pd p]], rule spec_if)
      (auto simp: unsafe_def intro!: spec_return spec_pair)
qed

lemma unsafe_open_parent:
  assumes rd: "ready False L root r d" and s: "plain_name s" "entry d r s = Some j" "nodes d j = Some n" "kind_of n \<noteq> KDir"
    and p: "plain_name p"
  shows "spec False d (open_parent root (s @ ''/'' @ p) c) (unsafe d)"
proof -
  have loc: "is_local (s @ ''/'' @ p)" "path_dir (s @ ''/'' @ p) = s"
    by (rule two_is_local [OF s(1) p], rule two_dir [OF s(1) p])
  have "spec False d (open_directory root s c) (unsafe d)"
    by (rule spec_open_directory [OF rd plain_is_local [OF s(1)]])
      (use s(1) in \<open>auto intro!: unsafe_descend [OF readyD(5) [OF rd] s]\<close>)
  then show ?thesis
    unfolding open_parent_eq [OF loc(1)] loc(2) by (rule unsafe_try) (auto intro!: spec_return spec_pair)
qed

lemma unsafe_dir:
  assumes rd: "ready False L root r d" and s: "plain_name s" "entry d r s = Some j" "nodes d j = Some n" "kind_of n \<noteq> KDir"
    and p: "plain_name p"
  shows "spec False d (read_secure_at root (s @ ''/'' @ p)) (unsafe d)"
    "spec False d (write_secure_at root (s @ ''/'' @ p) data) (unsafe d)"
    "spec False d (remove_secure_at root (s @ ''/'' @ p)) (unsafe d)"
proof -
  note up = unsafe_try [OF unsafe_open_parent [OF rd s p]]
  show "spec False d (read_secure_at root (s @ ''/'' @ p)) (unsafe d)"
    unfolding read_secure_at_def by (rule up) (auto intro!: spec_return spec_pair)
  show "spec False d (write_secure_at root (s @ ''/'' @ p) data) (unsafe d)"
    unfolding write_secure_at_def by (rule up) (auto intro!: spec_return spec_pair)
  show "spec False d (remove_secure_at root (s @ ''/'' @ p)) (unsafe d)"
    unfolding remove_secure_at_def by (rule up) (auto intro!: spec_return spec_pair)
qed

subsection \<open>Properties\<close>

text \<open>C1: writing a managed name is all or nothing.  Whichever system calls fail, in whatever
  place, the map from managed names to contents afterwards is the old one if an error is
  reported, and the old one with the name bound to exactly the new bytes if success is; nothing
  fails unless a system call does, and the directory stays as the storage policy wants it.\<close>

theorem write_secure_at_atomic:
  assumes "store_ok L root r b w" "managed L n" "write_secure_at root n data w = (res, w')"
  shows "store_ok L root r b w' \<and>
    (case res of
       Inr _ \<Rightarrow> store_view L r w' = (store_view L r w)(n \<mapsto> data)
     | Inl e \<Rightarrow> b \<and> store_view L r w' = store_view L r w)"
  using rooted.write_law [OF assms] by (auto split: sum.splits)

definition flat_layout :: layout where
  "flat_layout = \<lparr>lay_file = fname, lay_dir = (\<lambda>_. False), lay_sub = (\<lambda>_. False), lay_strict = False\<rparr>"

lemma flat_valid: "valid_layout flat_layout"
  by (simp add: flat_layout_def valid_layout_def)

lemma flat_managed: "managed flat_layout n = fname n"
  by (simp add: flat_layout_def managed_def)

lemma demo_names: "fname ''a''" "fname ''b''"
  by (simp_all add: fname_def plain_name_def has_prefix_def temp_prefix_def)

theorem write_secure_at_atomic_witness:
  "\<exists>res w'. write_secure_at ''/h'' ''a'' ''data'' (demo_world [Quiet, Quiet, Fault ENOSPC 2]) = (res, w') \<and>
     (store_view flat_layout 5 w' = [''a'' \<mapsto> ''data''] \<or> store_view flat_layout 5 w' = Map.empty)"
proof -
  obtain res w' where r: "write_secure_at ''/h'' ''a'' ''data'' (demo_world [Quiet, Quiet, Fault ENOSPC 2]) = (res, w')"
    by fastforce
  have ok: "store_ok flat_layout ''/h'' 5 True (demo_world [Quiet, Quiet, Fault ENOSPC 2])"
    by (rule demo_ok [OF flat_valid]) simp
  have v: "store_view flat_layout 5 (demo_world [Quiet, Quiet, Fault ENOSPC 2]) = Map.empty"
    by (rule ext) (rule demo_view)
  from write_secure_at_atomic [OF ok _ r] demo_names(1) have "case res of
       Inr _ \<Rightarrow> store_view flat_layout 5 w' = [''a'' \<mapsto> ''data''] | Inl e \<Rightarrow> store_view flat_layout 5 w' = Map.empty"
    by (simp add: flat_managed v split: sum.splits)
  then show ?thesis using r by (auto split: sum.splits)
qed

text \<open>C3: a read after an undisturbed write sees exactly the bytes written, and every other
  managed name reads as before the write: as its old contents, or as absent.\<close>

theorem write_then_read:
  assumes "store_ok L root r False w" "managed L n" "managed L m"
    and "write_secure_at root n data w = (res, w1)" "read_secure_at root m w1 = (res', w2)"
  shows "res = Inr () \<and>
    (case ((store_view L r w)(n \<mapsto> data)) m of
       Some x \<Rightarrow> res' = Inr x
     | None \<Rightarrow> \<exists>e. res' = Inl e \<and> is_not_exist e)"
  using rooted.read_back [OF assms(1,2,4,3,5)] rooted.write_quiet(1) [OF assms(1,2,4)] by blast

theorem write_then_read_witness:
  "\<exists>w1 w2. write_secure_at ''/h'' ''a'' ''data'' (demo_world []) = (Inr (), w1) \<and>
     read_secure_at ''/h'' ''a'' w1 = (Inr ''data'', w2)"
proof -
  obtain res w1 where w: "write_secure_at ''/h'' ''a'' ''data'' (demo_world []) = (res, w1)" by fastforce
  obtain res' w2 where r: "read_secure_at ''/h'' ''a'' w1 = (res', w2)" by fastforce
  have ok: "store_ok flat_layout ''/h'' 5 False (demo_world [])" by (rule demo_ok [OF flat_valid]) simp
  from write_then_read [OF ok _ _ w r] demo_names w r show ?thesis by (simp add: flat_managed)
qed

text \<open>
  A process that dies in the middle of an operation makes no further system call: from some call on, all
  fail, the first of them perhaps after a part of its bytes was written.
\<close>

definition crash_at :: "nat \<Rightarrow> nat \<Rightarrow> nat \<Rightarrow> world \<Rightarrow> world" where
  "crash_at k j c w = w\<lparr>sched := replicate k Quiet @ Fault EIO j # replicate c (Fault EIO 0)\<rparr>"

definition restart :: "world \<Rightarrow> world" where
  "restart w = w\<lparr>sched := []\<rparr>"

lemma crash_ok: "store_ok L root r False w \<Longrightarrow> store_ok L root r True (crash_at k j c w)"
  using ready_weaken by (auto simp: store_ok_def crash_at_def calm_world_def list_all_iff)

lemma read_after_restart:
  assumes "store_ok L root r b w" "managed L n" "read_secure_at root n (restart w) = (res, w')"
  shows "case store_view L r w n of Some x \<Rightarrow> res = Inr x | None \<Rightarrow> \<exists>e. res = Inl e \<and> is_not_exist e"
proof -
  have "ready b L root r (disk (restart w))" "calm_world False (restart w)"
    using assms(1) by (simp_all add: store_ok_def restart_def calm_world_def)
  from specD [OF spec_read_secure_at [OF this(1) assms(2)] this(2) refl assms(3)] show ?thesis
    by (auto simp: reads_def store_view_def restart_def split: sum.splits option.splits)
qed

text \<open>C2: a crash loses nothing.  Wherever in a write the process dies, a later read returns the old contents
  or exactly the new ones, and every other name reads as before.\<close>

theorem crash_then_read:
  assumes "store_ok L root r False w" "managed L n" "managed L m"
    and "write_secure_at root n data (crash_at k j c w) = (res, w1)" "read_secure_at root m (restart w1) = (res', w2)"
  shows "case (if m = n \<and> res = Inr () then Some data else store_view L r w m) of
      Some x \<Rightarrow> res' = Inr x
    | None \<Rightarrow> \<exists>e. res' = Inl e \<and> is_not_exist e"
proof -
  note law = rooted.write_law [OF crash_ok [OF assms(1)] assms(2,4)]
  have "store_view L r (crash_at k j c w) = store_view L r w" by (simp add: store_view_def crash_at_def)
  then have v: "store_view L r w1 m = (if m = n \<and> res = Inr () then Some data else store_view L r w m)"
    using law by (cases res) auto
  have "store_ok L root r True w1" using law by blast
  from read_after_restart [OF this assms(3,5)] show ?thesis unfolding v .
qed

theorem crash_then_read_witness:
  "\<exists>res w1 res' w2. write_secure_at ''/h'' ''a'' ''data'' (crash_at 3 2 9 (demo_world [])) = (res, w1) \<and>
     read_secure_at ''/h'' ''a'' (restart w1) = (res', w2) \<and> (res' = Inr ''data'' \<longleftrightarrow> res = Inr ())"
proof -
  obtain res w1 where w: "write_secure_at ''/h'' ''a'' ''data'' (crash_at 3 2 9 (demo_world [])) = (res, w1)" by fastforce
  obtain res' w2 where r: "read_secure_at ''/h'' ''a'' (restart w1) = (res', w2)" by fastforce
  have ok: "store_ok flat_layout ''/h'' 5 False (demo_world [])" by (rule demo_ok [OF flat_valid]) simp
  from crash_then_read [OF ok _ _ w r] demo_names w r show ?thesis by (auto simp: flat_managed demo_view split: if_splits)
qed

text \<open>Removing a managed name undisturbed takes away that name alone, or reports that it was
  not there and changes nothing; under failing calls an error leaves every name as it was.\<close>

theorem remove_secure_at_exact:
  assumes "store_ok L root r b w" "managed L n" "remove_secure_at root n w = (res, w')"
  shows "case res of
     Inr _ \<Rightarrow> store_view L r w n \<noteq> None \<and> store_view L r w' = (store_view L r w)(n := None)
   | Inl e \<Rightarrow> store_view L r w' = store_view L r w \<and> (is_not_exist e \<longrightarrow> store_view L r w n = None) \<and>
             (b \<or> is_not_exist e)"
  using rooted.remove_law [OF assms] by (auto split: sum.splits)

theorem remove_secure_at_exact_witness:
  "\<exists>e w'. remove_secure_at ''/h'' ''a'' (demo_world []) = (Inl e, w') \<and> is_not_exist e"
proof -
  obtain res w' where r: "remove_secure_at ''/h'' ''a'' (demo_world []) = (res, w')" by fastforce
  have ok: "store_ok flat_layout ''/h'' 5 False (demo_world [])" by (rule demo_ok [OF flat_valid]) simp
  from remove_secure_at_exact [OF ok _ r] demo_names(1) r show ?thesis
    by (cases res) (simp_all add: flat_managed demo_view)
qed

text \<open>C8: a file handle the package hands out for reading, and a directory handle it descends
  through without creating, is private at that moment: a regular file with owner bits only, or a
  directory with owner bits only.  This holds whatever other processes did to the disk before
  every single system call, and whichever calls failed.\<close>

theorem opened_handles_are_private:
  shows "(open_managed_file r name O_RDONLY create w = (Inr f, w1) \<longrightarrow> only_owner_file (disk w1) f) \<and>
    (open_directory root dir False v = (Inr i, v1) \<longrightarrow> only_owner_dir (disk v1) i)"
  using open_managed_checked [of 2 r name O_RDONLY create w f w1] open_directory_checked [of root dir v i v1]
  by (auto simp: open_managed_file_def wants_write_def O_RDONLY_def)

definition demo_file_disk :: filesys where
  "demo_file_disk = demo_disk\<lparr>nodes := (nodes demo_disk)(5 \<mapsto> DirNode 0x1C0 0 [(''a'', 6)], 6 \<mapsto> RegFile 0x180 ''x''), next_ino := 7\<rparr>"

definition meddle :: "filesys \<Rightarrow> filesys" where
  "meddle d = set_node 5 (DirNode 0x1C0 0 [(''a'', 6), (''b'', 6)]) d"

theorem opened_handles_are_private_witness:
  "\<exists>w1 v1. open_managed_file 5 ''a'' O_RDONLY False ((demo_world [Quiet, Interfere meddle])\<lparr>disk := demo_file_disk\<rparr>) = (Inr 6, w1) \<and>
     only_owner_file (disk w1) 6 \<and>
     open_directory ''/h'' ''.'' False (demo_world [Interfere meddle]) = (Inr 5, v1) \<and> only_owner_dir (disk v1) 5"
proof -
  have "fst (open_managed_file 5 ''a'' O_RDONLY False ((demo_world [Quiet, Interfere meddle])\<lparr>disk := demo_file_disk\<rparr>)) = Inr 6"
    unfolding open_managed_read_eq
    by (simp add: regular_info_def r_lstat_def syscall_def syscall_partial_def demo_world_def
        run_call_def sys_lstat_at_def lookup_def demo_file_disk_def demo_disk_def can_search_def stat_of_def
        r_openfile_def sys_open_at_def wants_create_def O_RDONLY_def meddle_def set_node_def access_ok_def
        wants_write_def O_WRONLY_def O_RDWR_def can_read_def f_stat_def sys_fstat_def secure_permissions_def file_perm_def)
  moreover have "fst (open_directory ''/h'' ''.'' False (demo_world [Interfere meddle])) = Inr 5"
    by (simp add: open_directory_def dot_facts os_openroot_def syscall_def syscall_partial_def demo_world_def
        run_call_def sys_openroot_def meddle_def set_node_def demo_disk_def resolve_path_def start_ino_def is_abs_def
        has_prefix_def lookup_def can_search_def open_dir_node_def can_read_def secure_directory_def r_open_def
        r_openfile_def sys_open_at_def wants_create_def O_RDONLY_def dot_def access_ok_def wants_write_def
        O_WRONLY_def O_RDWR_def f_stat_def sys_fstat_def stat_of_def secure_permissions_def dir_perm_def)
  ultimately show ?thesis
    using opened_handles_are_private by (metis prod.collapse)
qed

text \<open>Reading, listing and testing for existence never change the disk: no content, no
  permission bits, no directory entry, on any disk at all and whichever calls fail.\<close>

theorem reads_change_nothing:
  assumes "calm_world True w"
  shows "disk (snd (read_secure_at root name w)) = disk w \<and>
    disk (snd (read_dir_secure_at root name w)) = disk w \<and>
    disk (snd (exists_secure_at root name w)) = disk w"
  using keeps_run [OF keeps_read assms refl] keeps_run [OF keeps_read_dir assms refl]
    keeps_run [OF keeps_exists assms refl]
  by (auto simp: split_beta)

theorem reads_change_nothing_witness:
  "disk (snd (read_secure_at ''/h'' ''a'' (demo_world [Quiet, Fault EIO 0]))) = demo_disk"
  using reads_change_nothing [of "demo_world [Quiet, Fault EIO 0]" "''/h''" "''a''"]
  by (simp add: calm_world_def demo_world_def)

text \<open>A name that is absolute, or that \<open>..\<close> takes out of the root, is refused with
  \<open>ErrUnsafePath\<close> by every rooted operation before a single system call is made.\<close>

theorem escaping_names_refused:
  assumes "\<not> is_local name"
  shows "read_secure_at root name w = (Inl (Sentinel ErrUnsafePath), w) \<and>
    write_secure_at root name data w = (Inl (Sentinel ErrUnsafePath), w) \<and>
    remove_secure_at root name w = (Inl (Sentinel ErrUnsafePath), w) \<and>
    exists_secure_at root name w = (False, w) \<and>
    read_dir_secure_at root name w = (Inl (Sentinel ErrUnsafePath), w)"
  using assms
  by (simp add: read_secure_at_def write_secure_at_def remove_secure_at_def exists_secure_at_def
      read_dir_secure_at_def nonlocal_open open_directory_def)

theorem escaping_names_refused_witness:
  "write_secure_at ''/h'' ''a/../../etc/passwd'' ''x'' (demo_world []) = (Inl (Sentinel ErrUnsafePath), demo_world [])"
proof -
  have "\<not> is_local ''a/../../etc/passwd''"
    by (simp add: is_local_def is_abs_def has_prefix_def clean_def)
  from escaping_names_refused [OF this] show ?thesis by blast
qed

text \<open>C21: a symbolic link in a managed place is refused with \<open>ErrUnsafePath\<close> and nothing is
  touched, neither the link nor what it points to: as the file itself for reading, writing
  and removing, and as a directory on the way to one.\<close>

theorem links_refused:
  assumes "store_ok L root r False w" "plain_name p" "plain_name q"
    and "entry (disk w) r p = Some j" "nodes (disk w) j = Some (SymNode t)"
  shows "\<forall>name \<in> {p, p @ ''/'' @ q}.
    (case read_secure_at root name w of (res, w') \<Rightarrow> unsafe (disk w) res (disk w')) \<and>
    (case write_secure_at root name data w of (res, w') \<Rightarrow> unsafe (disk w) res (disk w')) \<and>
    (case remove_secure_at root name w of (res, w') \<Rightarrow> unsafe (disk w) res (disk w'))"
proof -
  from assms(1) have rd: "ready False L root r (disk w)" and cw: "calm_world False w" by (simp_all add: store_ok_def)
  have run: "case m w of (res, w') \<Rightarrow> unsafe (disk w) res (disk w')" if "spec False (disk w) m (unsafe (disk w))"
    for m :: "'x io"
    using that cw by (auto simp: spec_def split_beta)
  have k: "kind_of (SymNode t) \<noteq> KReg" "kind_of (SymNode t) \<noteq> KDir" by simp_all
  note f = unsafe_file [OF rd assms(2,4,5) k(1)] and d = unsafe_dir [OF rd assms(2,4,5) k(2) assms(3)]
  show ?thesis
    using run [OF f(1)] run [OF f(2), of data] run [OF f(3)] run [OF d(1)] run [OF d(2), of data] run [OF d(3)]
    by simp
qed

definition demo_link_world :: world where
  "demo_link_world = (demo_world [])\<lparr>disk := demo_disk\<lparr>nodes := (nodes demo_disk)(5 \<mapsto> DirNode 0x1C0 0 [(''a'', 6)], 6 \<mapsto> SymNode ''/h''), next_ino := 7\<rparr>\<rparr>"

lemma demo_link_ok: "store_ok (lone ''/h/t.json'') ''/h'' 5 False demo_link_world"
proof -
  let ?d = "disk demo_link_world"
  have e: "entry ?d i p = (if i = 0 \<and> p = ''h'' then Some 5 else if i = 5 \<and> p = ''a'' then Some 6 else None)" for i p
    by (simp add: entry_def demo_link_world_def demo_disk_def)
  have "wf_disk ?d" by (simp add: wf_disk_def e) (simp add: demo_link_world_def demo_disk_def)
  moreover have "umask ?d AND dir_perm = 0" by (simp add: demo_link_world_def demo_disk_def dir_perm_def)
  moreover have "private_dir ?d 5" by (simp add: private_dir_def demo_link_world_def demo_disk_def dir_perm_def)
  ultimately have "inv_at False (lone ''/h/t.json'') 5 ?d"
    by (simp add: inv_at_def dir_ok_def e lone_def demo_dir temp_prefix_def has_prefix_def)
  moreover have "resolve_path ?d fl ''/h'' = Inr 5" for fl
    by (simp add: resolve_path_def start_ino_def is_abs_def has_prefix_def lookup_def can_search_def
        demo_link_world_def demo_disk_def)
  moreover have "valid_layout (lone ''/h/t.json'')"
    by (rule lone_valid) (simp_all add: demo_dir plain_name_def has_prefix_def temp_prefix_def)
  ultimately show ?thesis
    by (simp add: store_ok_def ready_def rooted_def strict_root_def calm_world_def demo_link_world_def demo_world_def)
qed

theorem links_refused_witness:
  "\<exists>e w'. write_secure_at ''/h'' ''a/b'' ''x'' demo_link_world = (Inl e, w') \<and> is_sentinel ErrUnsafePath e"
proof -
  have "entry (disk demo_link_world) 5 ''a'' = Some 6" "nodes (disk demo_link_world) 6 = Some (SymNode ''/h'')"
    by (simp_all add: entry_def demo_link_world_def)
  from links_refused [OF demo_link_ok _ _ this, of "''b''" "''x''"] demo_names show ?thesis
    by (auto simp: fname_def unsafe_def split: prod.splits)
qed

end
