(* ===== verification/Store_Bounds.thy ===== *)
theory Store_Bounds
  imports Store_Interface
begin

text \<open>
  How many calls the storage operations make.  A schedule gives each call of the model what happens to it, so
  the calls of an operation are the events it consumes; the retry of \<open>openManagedFile\<close>, the walk over
  the components and the recursion of \<open>os.MkdirAll\<close> end after a number of calls that no fault and no other process can raise.  A
  call of the model is a call of a function or method of \<open>os\<close> or \<open>io\<close>; what happens inside one is not counted.  In particular
  \<open>io.ReadAll\<close>, which reads until the end of the file, is one call, and does not end while another process
  keeps the file growing; listing a directory and writing a file are one call each.
\<close>

subsection \<open>Counting calls\<close>

definition takes :: "nat \<Rightarrow> (world \<Rightarrow> 'a \<times> world) \<Rightarrow> bool" where
  "takes k f \<longleftrightarrow> (\<forall>w. \<exists>j \<le> k. sched (snd (f w)) = drop j (sched w))"

named_theorems calls

lemma takes_weaken: "takes k f \<Longrightarrow> k \<le> n \<Longrightarrow> takes n f"
  unfolding takes_def by (meson order_trans)

lemma takes_pure: "takes 0 (\<lambda>w. (x, w))"
  by (simp add: takes_def)

lemma takes_bind:
  assumes "takes a f" "\<And>x. takes b (g x)"
  shows "takes (a + b) (\<lambda>w. case f w of (x, w1) \<Rightarrow> g x w1)"
  unfolding takes_def
proof
  fix w
  obtain x w1 where f: "f w = (x, w1)" by fastforce
  obtain i where i: "i \<le> a" "sched w1 = drop i (sched w)" using assms(1) f unfolding takes_def by (metis snd_conv)
  obtain j where j: "j \<le> b" "sched (snd (g x w1)) = drop j (sched w1)" using assms(2) unfolding takes_def by blast
  show "\<exists>j \<le> a + b. sched (snd (case f w of (x, w1) \<Rightarrow> g x w1)) = drop j (sched w)"
    using f i j by (intro exI [of _ "j + i"]) (simp add: add.commute add_mono)
qed

text \<open>The form of the code: an error returns, a result goes on.\<close>

lemma takes_try:
  assumes "takes a f" "\<And>e. takes b (g e)" "\<And>x. takes b (h x)"
  shows "takes (a + b) (\<lambda>w. case f w of (Inl e, w1) \<Rightarrow> g e w1 | (Inr x, w1) \<Rightarrow> h x w1)"
proof -
  have "takes (a + b) (\<lambda>w. case f w of (r, w1) \<Rightarrow> (case r of Inl e \<Rightarrow> g e | Inr x \<Rightarrow> h x) w1)"
  proof (rule takes_bind [OF assms(1)])
    show "takes b (case r of Inl e \<Rightarrow> g e | Inr x \<Rightarrow> h x)" for r using assms by (cases r) simp_all
  qed
  moreover have "(\<lambda>w. case f w of (r, w1) \<Rightarrow> (case r of Inl e \<Rightarrow> g e | Inr x \<Rightarrow> h x) w1) =
      (\<lambda>w. case f w of (Inl e, w1) \<Rightarrow> g e w1 | (Inr x, w1) \<Rightarrow> h x w1)"
    by (rule ext) (simp split: prod.split sum.split)
  ultimately show ?thesis by simp
qed

lemma takes_if: "takes k f \<Longrightarrow> takes k g \<Longrightarrow> takes k (\<lambda>w. if b then f w else g w)"
  by (simp add: takes_def)

lemma takes_return: "takes k (\<lambda>w. (x, w))"
  by (rule takes_weaken [OF takes_pure]) simp

lemma takes_syscall_partial: "takes 1 (syscall_partial op p partial f)"
proof -
  have run: "sched (snd (run_call op p f w)) = sched w" for w by (simp add: run_call_def split: prod.split sum.split)
  show ?thesis
    unfolding takes_def syscall_partial_def
  proof
    fix w :: world
    show "\<exists>j\<le>1. sched (snd (case sched w of [] \<Rightarrow> run_call op p f w
        | ev # evs \<Rightarrow> (let w1 = w\<lparr>sched := evs\<rparr> in case ev of Quiet \<Rightarrow> run_call op p f w1
            | Fault e n \<Rightarrow> (Inl (SysErr op p e), w1\<lparr>disk := partial n (disk w)\<rparr>)
            | Interfere g \<Rightarrow> run_call op p f (w1\<lparr>disk := g (disk w)\<rparr>)))) = drop j (sched w)"
    proof (cases "sched w")
      case Nil
      then show ?thesis by (auto simp: run)
    next
      case (Cons ev evs)
      then show ?thesis by (intro exI [of _ 1]) (cases ev; simp add: run Let_def)
    qed
  qed
qed

lemma takes_calls [calls]:
  "takes 1 (r_lstat r p)" "takes 1 (r_mkdir r p m)" "takes 1 (r_openroot r p)" "takes 1 (r_openfile r p fl m)" "takes 1 (r_open r p)"
  "takes 1 (r_rename r p q)" "takes 1 (r_remove r p)" "takes 1 (r_readdir r)" "takes 1 (f_stat i)" "takes 1 (f_chmod i m)"
  "takes 1 (f_read_all i)" "takes 1 (f_write i app data)" "takes 1 (f_sync i)" "takes 1 (f_close i)" "takes 1 (os_stat p)"
  "takes 1 (os_lstat p)" "takes 1 (os_mkdir p m)" "takes 1 (os_chmod p m)" "takes 1 (os_openroot p)" "takes 1 (os_open p)"
  unfolding r_lstat_def r_mkdir_def r_openroot_def r_openfile_def r_open_def r_rename_def r_remove_def r_readdir_def f_stat_def f_chmod_def
    f_read_all_def f_write_def f_sync_def f_close_def os_stat_def os_lstat_def os_mkdir_def os_chmod_def os_openroot_def os_open_def
    syscall_def
  by (rule takes_syscall_partial)+

subsection \<open>Directories\<close>

lemma takes_secure_permissions [calls]: "takes 1 (secure_permissions f info permitted write)"
proof -
  have "takes 1 (\<lambda>w. if m = st_perm info then (Inr (), w) else if \<not> write then (Inl (Sentinel ErrUnsafePath), w) else f_chmod f m w)" for m
    by (intro takes_if takes_return calls)
  then show ?thesis unfolding secure_permissions_def [abs_def] Let_def .
qed

lemma takes_secure_directory [calls]: "takes 3 (secure_directory r expected create)"
proof -
  have "takes (1 + (1 + 1)) (secure_directory r expected create)"
    unfolding secure_directory_def [abs_def] by (intro takes_try takes_if takes_return calls)
  then show ?thesis by (simp add: numeral_3_eq_3)
qed

lemma takes_inspect_part [calls]: "takes 3 (inspect_part r part create)"
proof -
  have eq: "inspect_part r part create = (\<lambda>w. case r_lstat r part w of
      (Inl e, w1) \<Rightarrow> (if is_not_exist e \<and> create then
         (case r_mkdir r part dir_perm w1 of
            (Inl e', w2) \<Rightarrow> if is_exist e' then r_lstat r part w2 else (Inl e', w2)
          | (Inr _, w2) \<Rightarrow> r_lstat r part w2)
         else (Inl e, w1))
    | (Inr info, w1) \<Rightarrow> (Inr info, w1))"
    by (rule ext) (simp add: inspect_part_def split: prod.split sum.split)
  have "takes (1 + (1 + 1)) (inspect_part r part create)"
    unfolding eq by (intro takes_try takes_if takes_return calls)
  then show ?thesis by (simp add: numeral_3_eq_3)
qed

lemma takes_descend: "takes (7 * length parts) (descend r parts create)"
proof (induction parts arbitrary: r)
  case Nil
  show ?case using takes_pure by (simp add: fun_eq_iff)
next
  case (Cons part parts)
  have "takes (3 + (1 + (3 + 7 * length parts))) (\<lambda>w. case inspect_part r part create w of
        (Inl e, w1) \<Rightarrow> (Inl (WrapErr ''inspect storage directory: '' e), w1)
      | (Inr info, w1) \<Rightarrow>
          if st_kind info \<noteq> KDir then (Inl (Sentinel ErrUnsafePath), w1)
          else case r_openroot r part w1 of
            (Inl e, w2) \<Rightarrow> (Inl (WrapErr ''open storage directory: '' e), w2)
          | (Inr next, w2) \<Rightarrow>
              (case secure_directory next (Some info) create w2 of
                 (Inl e, w3) \<Rightarrow> (Inl e, w3)
               | (Inr _, w3) \<Rightarrow> descend next parts create w3))"
    by (intro takes_try takes_if takes_return calls Cons.IH)
  moreover have "takes (3 + (1 + (3 + 7 * length parts))) (descend r parts create)"
    by (rule takes_weaken [OF Cons.IH]) simp
  ultimately have "takes (3 + (1 + (3 + 7 * length parts))) (\<lambda>w. descend r (part # parts) create w)"
    by (cases "part = ''.''") simp_all
  then show ?case by (simp add: add.assoc)
qed

lemma takes_mkdir_all: "takes (3 * length p + 3) (mkdir_all p m)"
proof (induction "length p" arbitrary: p rule: less_induct)
  case less
  have eq: "mkdir_all p m = (\<lambda>w. case os_stat p w of
        (Inl _, w1) \<Rightarrow>
          (case (if p = [] \<or> parent_path p = [] then (\<lambda>w. (Inr (), w)) else mkdir_all (parent_path p) m) w1 of
             (Inl e, w2) \<Rightarrow> (Inl e, w2)
           | (Inr _, w2) \<Rightarrow>
               (case os_mkdir p m w2 of
                  (Inl e, w3) \<Rightarrow> (case os_lstat p w3 of (Inl _, w4) \<Rightarrow> (Inl e, w4)
                      | (Inr st, w4) \<Rightarrow> if st_kind st = KDir then (Inr (), w4) else (Inl e, w4))
                | (Inr _, w3) \<Rightarrow> (Inr (), w3)))
      | (Inr st, w1) \<Rightarrow> if st_kind st = KDir then (Inr (), w1) else (Inl (SysErr ''mkdir'' p ENOTDIR), w1))"
    by (rule ext) (subst mkdir_all.simps, simp only: if_distribR)
  have "takes (3 * length p) (if p = [] \<or> parent_path p = [] then (\<lambda>w. (Inr (), w)) else mkdir_all (parent_path p) m)"
  proof (cases "p = [] \<or> parent_path p = []")
    case False
    then have "length (parent_path p) < length p" using parent_path_shorter by blast
    then show ?thesis using False takes_weaken [OF less] by simp
  qed (simp add: takes_return)
  then have "takes (1 + (3 * length p + (1 + (1 + 0)))) (mkdir_all p m)"
    unfolding eq by (intro takes_try takes_if takes_return calls)
  then show ?case by (simp add: numeral_3_eq_3)
qed

definition components :: "string \<Rightarrow> nat" where
  "components name = length (split_on CHR ''/'' (clean name))"

lemma takes_open_directory:
  "takes ((if create then 3 * length rootDir + 3 else 0) + (4 + 7 * components name)) (open_directory rootDir name create)"
proof -
  let ?d = "\<lambda>w1. (case os_openroot rootDir w1 of
             (Inl e, w2) \<Rightarrow> (Inl (WrapErr ''open storage root: '' e), w2)
           | (Inr r, w2) \<Rightarrow>
               (case secure_directory r None create w2 of
                  (Inl e, w3) \<Rightarrow> (Inl e, w3)
                | (Inr _, w3) \<Rightarrow> descend r (split_on CHR ''/'' (clean name)) create w3))"
  have d: "takes (1 + (3 + 7 * components name)) ?d"
    unfolding components_def by (intro takes_try takes_if takes_return calls takes_descend)
  have eq: "open_directory rootDir name create = (\<lambda>w. if \<not> is_local name then (Inl (Sentinel ErrUnsafePath), w)
      else (case (if create then mkdir_all rootDir dir_perm else (\<lambda>w. (Inr (), w))) w of
        (Inl e, w1) \<Rightarrow> (Inl (WrapErr ''create storage root: '' e), w1) | (Inr _, w1) \<Rightarrow> ?d w1))"
    by (rule ext) (simp only: open_directory_def if_distribR)
  have "takes (if create then 3 * length rootDir + 3 else 0) (if create then mkdir_all rootDir dir_perm else (\<lambda>w. (Inr (), w)))"
    by (simp add: takes_mkdir_all takes_pure)
  then have "takes ((if create then 3 * length rootDir + 3 else 0) + (1 + (3 + 7 * components name))) (open_directory rootDir name create)"
    unfolding eq by (intro takes_try takes_if takes_return d)
  then show ?thesis by (simp add: add.assoc numeral_eq_Suc)
qed

lemma takes_open_parent:
  "takes ((if create then 3 * length rootDir + 3 else 0) + (4 + 7 * components (path_dir name))) (open_parent rootDir name create)"
proof -
  have "takes ((if create then 3 * length rootDir + 3 else 0) + (4 + 7 * components (path_dir name)) + 0) (open_parent rootDir name create)"
    unfolding open_parent_def [abs_def] by (intro takes_try takes_if takes_return takes_open_directory)
  then show ?thesis by simp
qed

lemma takes_regular_info [calls]: "takes 1 (regular_info r name)"
proof -
  have "takes (1 + 0) (regular_info r name)"
    unfolding regular_info_def [abs_def] by (intro takes_try takes_if takes_return calls)
  then show ?thesis by simp
qed

subsection \<open>Files\<close>

text \<open>One round of \<open>openManagedFile\<close> makes four calls at most, and only a round that stopped after two is
  repeated.\<close>

lemma takes_open_managed: "takes (2 * n + 2) (open_managed n r name flags create)"
proof (induction n)
  case 0
  show ?case by (simp add: takes_return fun_eq_iff)
next
  case (Suc n)
  have eq: "open_managed (Suc n) r name flags create = (\<lambda>w. case regular_info r name w of (ri, w1) \<Rightarrow>
      (let info = (case ri of Inl _ \<Rightarrow> None | Inr st \<Rightarrow> Some st) in
       if (case ri of Inl e \<Rightarrow> \<not> (is_not_exist e \<and> create) | Inr _ \<Rightarrow> False) then (Inl (case ri of Inl e \<Rightarrow> e | Inr _ \<Rightarrow> MsgErr []), w1)
       else (case r_openfile r name (if info = None then flags OR O_CREATE OR O_EXCL else flags) file_perm w1 of
         (Inl e, w2) \<Rightarrow> if is_exist e \<and> info = None then open_managed n r name flags create w2 else (Inl e, w2)
       | (Inr f, w2) \<Rightarrow> (case f_stat f w2 of (Inl e, w3) \<Rightarrow> (Inl e, w3)
           | (Inr opened, w3) \<Rightarrow>
               if st_kind opened \<noteq> KReg \<or> (case info of None \<Rightarrow> False | Some st \<Rightarrow> st_ino st \<noteq> st_ino opened)
               then (Inl (Sentinel ErrUnsafePath), w3)
               else (case secure_permissions f opened file_perm (wants_write flags) w3 of
                 (Inl e, w4) \<Rightarrow> (Inl e, w4) | (Inr _, w4) \<Rightarrow> (Inr f, w4))))))"
    by (rule ext) (simp only: open_managed.simps Let_def)
  have two: "takes (2 * n + 2) (\<lambda>w2. case f_stat f w2 of (Inl e, w3) \<Rightarrow> (Inl e, w3)
           | (Inr opened, w3) \<Rightarrow> if b opened then (Inl (Sentinel ErrUnsafePath), w3)
               else (case secure_permissions f opened file_perm (wants_write flags) w3 of
                 (Inl e, w4) \<Rightarrow> (Inl e, w4) | (Inr _, w4) \<Rightarrow> (Inr f, w4)))" for f b
  proof -
    have "takes (1 + (1 + 0)) (\<lambda>w2. case f_stat f w2 of (Inl e, w3) \<Rightarrow> (Inl e, w3)
           | (Inr opened, w3) \<Rightarrow> if b opened then (Inl (Sentinel ErrUnsafePath), w3)
               else (case secure_permissions f opened file_perm (wants_write flags) w3 of
                 (Inl e, w4) \<Rightarrow> (Inl e, w4) | (Inr _, w4) \<Rightarrow> (Inr f, w4)))"
      by (intro takes_try takes_if takes_return calls)
    then show ?thesis by (rule takes_weaken) simp
  qed
  have "takes (1 + (1 + (2 * n + 2))) (open_managed (Suc n) r name flags create)"
    unfolding eq Let_def by (intro takes_bind takes_try takes_if takes_return two Suc.IH calls)
  then show ?case by (simp del: open_managed.simps)
qed

lemma takes_open_managed_file [calls]: "takes 6 (open_managed_file r name flags create)"
  using takes_open_managed [of 2 r name flags create] by (simp add: open_managed_file_def [abs_def])

lemma takes_staged_write [calls]: "takes 6 (staged_write r temporary base f data)"
proof -
  have "takes (1 + (1 + (1 + (1 + (1 + (1 + 0)))))) (staged_write r temporary base f data)"
    unfolding staged_write_def [abs_def] by (intro takes_try takes_if takes_return calls)
  then show ?thesis by (simp add: eval_nat_numeral)
qed

lemma takes_rand_text: "takes 0 rand_text"
  by (simp add: takes_def rand_text_def)

lemma takes_write_secure_at:
  "takes (3 * length rootDir + 16 + 7 * components (path_dir name)) (write_secure_at rootDir name data)"
proof -
  have eq: "write_secure_at rootDir name data = (\<lambda>w. case open_parent rootDir name True w of
        (Inl e, w1) \<Rightarrow> (Inl e, w1)
      | (Inr rb, w1) \<Rightarrow> (case regular_info (fst rb) (snd rb) w1 of (ri, w2) \<Rightarrow>
          if (case ri of Inl e \<Rightarrow> \<not> is_not_exist e | Inr _ \<Rightarrow> False)
          then (Inl (WrapErr ''inspect destination: '' (case ri of Inl e \<Rightarrow> e | Inr _ \<Rightarrow> MsgErr [])), w2)
          else (case rand_text w2 of (txt, w3) \<Rightarrow>
            (case r_openfile (fst rb) (temp_prefix @ txt) (O_CREATE OR O_EXCL OR O_WRONLY) file_perm w3 of
                  (Inl e, w4) \<Rightarrow> (Inl (WrapErr ''create temporary credential file: '' e), w4)
                | (Inr f, w4) \<Rightarrow> (case staged_write (fst rb) (temp_prefix @ txt) (snd rb) f data w4 of
                    (res, w5) \<Rightarrow> (case r_remove (fst rb) (temp_prefix @ txt) w5 of (_, w6) \<Rightarrow> (res, w6)))))))"
    by (rule ext) (simp add: write_secure_at_def Let_def split: prod.split sum.split)
  have "takes ((if True then 3 * length rootDir + 3 else 0) + (4 + 7 * components (path_dir name)) + (1 + (0 + (1 + (6 + (1 + 0))))))
      (write_secure_at rootDir name data)"
    unfolding eq by (intro takes_try takes_bind takes_if takes_return takes_open_parent takes_rand_text calls)
  then show ?thesis by (rule takes_weaken) simp
qed

lemma takes_with_parent:
  assumes "\<And>r base. takes k (f r base)"
  shows "takes (4 + 7 * components (path_dir name) + k)
    (\<lambda>w. case open_parent rootDir name False w of (Inl e, w1) \<Rightarrow> (g e, w1) | (Inr (r, base), w1) \<Rightarrow> f r base w1)"
proof -
  have eq: "(\<lambda>w. case open_parent rootDir name False w of (Inl e, w1) \<Rightarrow> (g e, w1) | (Inr (r, base), w1) \<Rightarrow> f r base w1) =
      (\<lambda>w. case open_parent rootDir name False w of (Inl e, w1) \<Rightarrow> (g e, w1) | (Inr rb, w1) \<Rightarrow> f (fst rb) (snd rb) w1)"
    by (rule ext) (simp split: prod.split sum.split)
  have "takes ((if False then 3 * length rootDir + 3 else 0) + (4 + 7 * components (path_dir name)) + k)
      (\<lambda>w. case open_parent rootDir name False w of (Inl e, w1) \<Rightarrow> (g e, w1) | (Inr rb, w1) \<Rightarrow> f (fst rb) (snd rb) w1)"
    by (intro takes_try takes_return takes_open_parent assms)
  then show ?thesis unfolding eq by simp
qed

subsection \<open>Operations on a path\<close>

lemma takes_ensure_dir: "takes (3 * length path + 5) (ensure_dir path)"
proof -
  have "takes (3 * length path + 3 + (1 + (1 + 0))) (ensure_dir path)"
    unfolding ensure_dir_def [abs_def] secure_directory_path_def [abs_def]
    by (intro takes_try takes_if takes_return calls takes_mkdir_all)
  then show ?thesis by (rule takes_weaken) simp
qed

lemma base_components: "components (path_dir (path_base p)) \<le> 2"
proof -
  have "path_base p = ''/'' \<or> CHR ''/'' \<notin> set (path_base p)"
    by (auto simp: path_base_def after_last_slash_def Let_def dest!: set_takeWhileD)
  moreover have "path_dir ''/'' = ''/''" "components ''/'' = 2"
    by (simp_all add: path_dir_def upto_last_slash_def clean_def is_abs_def has_prefix_def components_def)
  moreover have "components (path_dir q) = 1" if "CHR ''/'' \<notin> set q" for q
  proof -
    have "dropWhile (\<lambda>c. c \<noteq> CHR ''/'') (rev q) = []" using that by (auto simp: dropWhile_eq_Nil_conv)
    then have "upto_last_slash q = []" unfolding upto_last_slash_def by simp
    then have "path_dir q = ''.''" by (simp add: path_dir_def clean_def is_abs_def has_prefix_def)
    moreover have "components ''.'' = 1" by (simp add: components_def clean_def is_abs_def has_prefix_def)
    ultimately show ?thesis by simp
  qed
  ultimately show ?thesis by fastforce
qed

lemma takes_open_append: "takes (6 * length (path_dir path) + 32) (open_append_secure path)"
proof -
  let ?d = "path_dir path" and ?b = "path_base path"
  have "takes (6 + 0) (\<lambda>w2. case open_managed_file (fst rb) (snd rb) (O_APPEND OR O_WRONLY) True w2 of
      (Inl e, w3) \<Rightarrow> (Inl (WrapErr ''open secure append file: '' e), w3) | (Inr f, w3) \<Rightarrow> (Inr f, w3))" for rb
    by (intro takes_try takes_return calls)
  then have tail: "takes (3 * length ?d + 3 + (4 + 7 * components (path_dir ?b)) + 6) (\<lambda>w1. case open_parent ?d ?b True w1 of
      (Inl e, w2) \<Rightarrow> (Inl e, w2)
    | (Inr rb, w2) \<Rightarrow> (case open_managed_file (fst rb) (snd rb) (O_APPEND OR O_WRONLY) True w2 of
        (Inl e, w3) \<Rightarrow> (Inl (WrapErr ''open secure append file: '' e), w3) | (Inr f, w3) \<Rightarrow> (Inr f, w3)))"
    using takes_open_parent [of True ?d ?b] by (intro takes_try takes_return) simp_all
  have eq: "open_append_secure path = (\<lambda>w. case ensure_dir ?d w of (Inl e, w1) \<Rightarrow> (Inl e, w1)
    | (Inr _, w1) \<Rightarrow> (case open_parent ?d ?b True w1 of
      (Inl e, w2) \<Rightarrow> (Inl e, w2)
    | (Inr rb, w2) \<Rightarrow> (case open_managed_file (fst rb) (snd rb) (O_APPEND OR O_WRONLY) True w2 of
        (Inl e, w3) \<Rightarrow> (Inl (WrapErr ''open secure append file: '' e), w3) | (Inr f, w3) \<Rightarrow> (Inr f, w3))))"
    by (rule ext) (simp add: open_append_secure_def Let_def split: prod.split sum.split)
  have "takes (3 * length ?d + 5 + (3 * length ?d + 3 + (4 + 7 * components (path_dir ?b)) + 6)) (open_append_secure path)"
    unfolding eq by (intro takes_try takes_return takes_ensure_dir tail)
  then show ?thesis by (rule takes_weaken) (use base_components [of path] in simp)
qed

lemma takes_write_secure: "takes (6 * length (path_dir path) + 35) (write_secure path data)"
proof -
  have "takes (3 * length (path_dir path) + 5 + (3 * length (path_dir path) + 16 + 7 * components (path_dir (path_base path)))) (write_secure path data)"
    unfolding write_secure_def [abs_def] Let_def by (intro takes_try takes_return takes_ensure_dir takes_write_secure_at)
  then show ?thesis by (rule takes_weaken) (use base_components [of path] in simp)
qed

lemma takes_read_secure_at: "takes (11 + 7 * components (path_dir name)) (read_secure_at rootDir name)"
proof -
  have "takes (4 + 7 * components (path_dir name) + (6 + (1 + 0))) (read_secure_at rootDir name)"
    unfolding read_secure_at_def [abs_def] by (intro takes_with_parent takes_try takes_return calls)
  then show ?thesis by simp
qed

lemma takes_read_secure: "takes 25 (read_secure path)"
  using takes_weaken [OF takes_read_secure_at [of "path_base path" "path_dir path"], of 25] base_components [of path]
  by (simp add: read_secure_def [abs_def])

lemma takes_store_exists: "takes 1 (store_exists path)"
proof -
  have "takes (1 + 0) (store_exists path)"
    unfolding store_exists_def [abs_def] by (intro takes_bind takes_return calls)
  then show ?thesis by simp
qed

subsection \<open>A racing process\<close>

text \<open>Another process removes the file before every inspection and creates it before every attempt to create it.\<close>

definition appears :: "filesys \<Rightarrow> filesys" where
  "appears d = set_node 5 (DirNode 0x1C0 0 [(''t.json'', 6)]) (set_node 6 (RegFile 0x180 []) d)"

definition vanishes :: "filesys \<Rightarrow> filesys" where
  "vanishes d = set_node 5 (DirNode 0x1C0 0 []) d"

definition race :: "fsevent list" where
  "race = [Interfere vanishes, Interfere appears, Interfere vanishes, Interfere appears, Interfere vanishes, Interfere appears]"

lemma race_lost:
  "\<exists>e w. open_managed_file 5 ''t.json'' (O_APPEND OR O_WRONLY) True (demo_world race) = (Inl e, w) \<and> sched w = drop 4 race"
proof -
  have c: "wants_create ((O_APPEND OR O_WRONLY) OR O_CREATE OR O_EXCL)"
    by (simp add: wants_create_def O_APPEND_def O_WRONLY_def O_CREATE_def O_EXCL_def)
  have two: "open_managed_file r n flags b = open_managed (Suc (Suc 0)) r n flags b" for r n flags b
    by (simp add: open_managed_file_def numeral_2_eq_2)
  show ?thesis
    unfolding two
    by (simp add: race_def regular_info_def r_lstat_def r_openfile_def syscall_def syscall_partial_def
        run_call_def Let_def sys_lstat_at_def lookup_def sys_open_at_def c add_entry_def appears_def vanishes_def set_node_def
        demo_world_def demo_disk_def can_search_def)
qed

subsection \<open>Properties\<close>

text \<open>C22: the loops of the storage operations are bounded.  However the calls fail and whatever other processes do to the
  disk in between, so also when a racing process creates and removes the file again and again, each of the ten operations
  makes at most the stated number of calls of \<open>os\<close> and \<open>io\<close>: seven for each component of the name, three for each byte of a
  directory's path that may have to be made, and a constant; opening the file itself, with its second try, makes six at most.  How long a single one of these calls
  takes is not claimed: \<open>io.ReadAll\<close> of a file that grows for ever is one call that does not end.\<close>

theorem store_calls_bounded:
  "takes (11 + 7 * components (path_dir name)) (read_secure_at rootDir name) \<and>
   takes (11 + 7 * components (path_dir name)) (exists_secure_at rootDir name) \<and>
   takes (6 + 7 * components (path_dir name)) (remove_secure_at rootDir name) \<and>
   takes (5 + 7 * components name) (read_dir_secure_at rootDir name) \<and>
   takes (3 * length rootDir + 16 + 7 * components (path_dir name)) (write_secure_at rootDir name data) \<and>
   takes (3 * length path + 5) (ensure_dir path) \<and>
   takes (6 * length (path_dir path) + 35) (write_secure path data) \<and>
   takes (6 * length (path_dir path) + 32) (open_append_secure path) \<and>
   takes 25 (read_secure path) \<and> takes 1 (store_exists path) \<and>
   takes 6 (open_managed_file r base flags create)"
proof -
  have "takes (4 + 7 * components (path_dir name) + (6 + (1 + 0))) (exists_secure_at rootDir name)"
    unfolding exists_secure_at_def [abs_def] by (intro takes_with_parent takes_try takes_bind takes_return calls)
  moreover have "takes (4 + 7 * components (path_dir name) + (1 + 1)) (remove_secure_at rootDir name)"
    unfolding remove_secure_at_def [abs_def] by (intro takes_with_parent takes_try takes_return calls)
  moreover have "takes ((if False then 3 * length rootDir + 3 else 0) + (4 + 7 * components name) + 1) (read_dir_secure_at rootDir name)"
    unfolding read_dir_secure_at_def [abs_def] by (intro takes_try takes_return takes_open_directory calls)
  ultimately show ?thesis
    using takes_read_secure_at takes_write_secure_at takes_ensure_dir takes_write_secure takes_open_append takes_read_secure takes_store_exists
      takes_open_managed_file
    by (simp add: eval_nat_numeral)
qed

theorem store_calls_bounded_witness:
  "(\<exists>e w. open_managed_file 5 ''t.json'' (O_APPEND OR O_WRONLY) True (demo_world race) = (Inl e, w) \<and> sched w = drop 4 race) \<and>
   (\<exists>j \<le> 44. sched (snd (open_append_secure ''/h/t.json'' (demo_world (concat (replicate 10 race))))) = drop j (concat (replicate 10 race)))"
proof -
  have "takes (6 * length (path_dir ''/h/t.json'') + 32) (open_append_secure ''/h/t.json'')"
    using store_calls_bounded by blast
  then have "takes 44 (open_append_secure ''/h/t.json'')" by (simp add: demo_dir)
  then have "\<exists>j \<le> 44. sched (snd (open_append_secure ''/h/t.json'' w)) = drop j (sched w)" for w
    unfolding takes_def by blast
  from this [of "demo_world (concat (replicate 10 race))"] race_lost show ?thesis by simp
qed

end
