(* ===== verification/Windows_Acl.thy ===== *)
theory Windows_Acl
  imports Store
begin

text \<open>
  The file \<open>permissions_windows.go\<close> of the package \<open>store\<close>: the check of the security descriptor of an
  opened file.  The native functions on security identifiers and the queries of the system are
  parameters; addresses and lengths are 64-bit words, and memory is a map from addresses to bytes.
\<close>

subsection \<open>Native memory and identifiers\<close>

type_synonym memory = "64 word \<Rightarrow> 8 word"
type_synonym bytes_view = "nat \<Rightarrow> 8 word"

definition view_at :: "memory \<Rightarrow> 64 word \<Rightarrow> bytes_view" where
  "view_at mem a i = mem (a + of_nat i)"

text \<open>What the code asks of a \<open>windows.SID\<close>, whose bytes begin at the start of the view.\<close>

record sid_api =
  sid_valid :: "bytes_view \<Rightarrow> bool"
  sid_equals :: "bytes_view \<Rightarrow> bytes_view \<Rightarrow> bool"
  sid_local_system :: "bytes_view \<Rightarrow> bool"
  sid_administrators :: "bytes_view \<Rightarrow> bool"

definition trusted_principal :: "sid_api \<Rightarrow> bytes_view \<Rightarrow> bytes_view \<Rightarrow> bool" where
  "trusted_principal api sid current = (sid_equals api sid current \<or> sid_local_system api sid \<or> sid_administrators api sid)"

text \<open>An access control list: its number of entries and \<open>GetAce\<close>, which yields an address or nil.\<close>

record dacl =
  ac_count :: "16 word"
  ac_get :: "nat \<Rightarrow> goerr + 64 word option"

record descriptor =
  sd_valid :: bool
  sd_owner :: "goerr + 64 word option"
  sd_dacl :: "goerr + dacl option"
  sd_control :: "goerr + 16 word"
  sd_base :: "64 word"
  sd_len :: "32 word"

definition SE_SELF_RELATIVE :: "16 word" where "SE_SELF_RELATIVE = 0x8000"
definition ACCESS_ALLOWED :: "8 word" where "ACCESS_ALLOWED = 0"
definition ACCESS_DENIED :: "8 word" where "ACCESS_DENIED = 1"

text \<open>The header of an entry: type, flags and size, the size in two bytes with the low one first.\<close>

definition ace_header_size :: nat where "ace_header_size = 4"
definition sid_offset :: nat where "sid_offset = 8"

definition ace_size :: "memory \<Rightarrow> 64 word \<Rightarrow> nat" where
  "ace_size mem a = unat (mem (a + 2)) + 256 * unat (mem (a + 3))"

subsection \<open>The check\<close>

definition check_ace :: "sid_api \<Rightarrow> memory \<Rightarrow> bytes_view \<Rightarrow> 64 word \<Rightarrow> 64 word \<Rightarrow> 64 word \<Rightarrow> goerr option" where
  "check_ace api mem current base len address =
     (if address < base \<or> address - base > len \<or> of_nat ace_header_size > len - (address - base) then Some (Sentinel ErrUnsafePath)
      else
     (let size = ace_size mem address in
      if size < ace_header_size \<or> of_nat size > len - (address - base) then Some (Sentinel ErrUnsafePath)
      else if mem address = ACCESS_DENIED then None
      else if mem address = ACCESS_ALLOWED then
        (if size < sid_offset + 8 then Some (Sentinel ErrUnsafePath)
         else
        (let sid_length = 8 + 4 * unat (mem (address + of_nat (sid_offset + 1))) in
         if sid_length > size - sid_offset then Some (Sentinel ErrUnsafePath)
         else
        (let sid = view_at mem (address + of_nat sid_offset) in
         if \<not> sid_valid api sid \<or> \<not> trusted_principal api sid current then Some (Sentinel ErrUnsafePath) else None)))
      else Some (Sentinel ErrUnsafePath)))"

fun check_aces :: "sid_api \<Rightarrow> memory \<Rightarrow> bytes_view \<Rightarrow> 64 word \<Rightarrow> 64 word \<Rightarrow> dacl \<Rightarrow> nat list \<Rightarrow> goerr option" where
  "check_aces api mem current base len acl [] = None"
| "check_aces api mem current base len acl (i # is) =
     (case ac_get acl i of
        Inl e \<Rightarrow> Some (Sentinel ErrUnsafePath)
      | Inr None \<Rightarrow> Some (Sentinel ErrUnsafePath)
      | Inr (Some ace) \<Rightarrow>
          (case check_ace api mem current base len ace of
             Some e \<Rightarrow> Some e
           | None \<Rightarrow> check_aces api mem current base len acl is))"

definition validate_descriptor :: "sid_api \<Rightarrow> memory \<Rightarrow> descriptor option \<Rightarrow> bytes_view option \<Rightarrow> goerr option" where
  "validate_descriptor api mem sdo user =
     (case (sdo, user) of
        (Some sd, Some current) \<Rightarrow>
          if \<not> sd_valid sd \<or> \<not> sid_valid api current then Some (Sentinel ErrUnsafePath)
          else
         (case sd_owner sd of
            Inr (Some owner) \<Rightarrow>
              if \<not> sid_valid api (view_at mem owner) \<or> \<not> trusted_principal api (view_at mem owner) current
              then Some (Sentinel ErrUnsafePath)
              else
             (case sd_dacl sd of
                Inr (Some acl) \<Rightarrow>
                 (case sd_control sd of
                    Inl e \<Rightarrow> Some (Sentinel ErrUnsafePath)
                  | Inr control \<Rightarrow>
                      if control AND SE_SELF_RELATIVE = 0 then Some (Sentinel ErrUnsafePath)
                      else check_aces api mem current (sd_base sd) (ucast (sd_len sd)) acl [0..<unat (ac_count acl)])
              | _ \<Rightarrow> Some (Sentinel ErrUnsafePath))
          | _ \<Rightarrow> Some (Sentinel ErrUnsafePath))
      | _ \<Rightarrow> Some (Sentinel ErrUnsafePath))"

text \<open>The queries of the system, for the effective user and for an opened file.\<close>

record windows_calls =
  wc_token_user :: "goerr + bytes_view option"
  wc_security_info :: "ino \<Rightarrow> goerr + descriptor option"

definition win_secure_permissions :: "sid_api \<Rightarrow> memory \<Rightarrow> windows_calls \<Rightarrow> ino \<Rightarrow> goerr option" where
  "win_secure_permissions api mem win f =
     (case wc_token_user win of
        Inl e \<Rightarrow> Some (WrapErr ''query effective Windows user: '' e)
      | Inr user \<Rightarrow>
          (case wc_security_info win f of
             Inl e \<Rightarrow> Some (WrapErr ''query storage security descriptor: '' e)
           | Inr sd \<Rightarrow> validate_descriptor api mem sd user))"

definition win_secure_directory_path :: "sid_api \<Rightarrow> memory \<Rightarrow> windows_calls \<Rightarrow> string \<Rightarrow> stat \<Rightarrow> unit io" where
  "win_secure_directory_path api mem win path expected w =
     (case os_open path w of
        (Inl e, w1) \<Rightarrow> (Inl e, w1)
      | (Inr f, w1) \<Rightarrow>
     (case f_stat f w1 of
        (Inl e, w2) \<Rightarrow> (Inl e, snd (f_close f w2))
      | (Inr opened, w2) \<Rightarrow>
          if st_kind opened \<noteq> KDir \<or> st_ino expected \<noteq> st_ino opened
          then (Inl (Sentinel ErrUnsafePath), snd (f_close f w2))
          else (case win_secure_permissions api mem win f of
                  Some e \<Rightarrow> (Inl e, snd (f_close f w2))
                | None \<Rightarrow> (Inr (), snd (f_close f w2)))))"

subsection \<open>The policy in unbounded arithmetic\<close>

definition private_ace :: "sid_api \<Rightarrow> memory \<Rightarrow> bytes_view \<Rightarrow> nat \<Rightarrow> nat \<Rightarrow> 64 word \<Rightarrow> bool" where
  "private_ace api mem current first beyond a \<longleftrightarrow>
     first \<le> unat a \<and> 4 \<le> ace_size mem a \<and> unat a + ace_size mem a \<le> beyond \<and>
     (mem a = ACCESS_DENIED \<or>
      mem a = ACCESS_ALLOWED \<and> 16 + 4 * unat (mem (a + 9)) \<le> ace_size mem a \<and>
        sid_valid api (view_at mem (a + 8)) \<and> trusted_principal api (view_at mem (a + 8)) current)"

definition private_descriptor :: "sid_api \<Rightarrow> memory \<Rightarrow> descriptor \<Rightarrow> bytes_view \<Rightarrow> bool" where
  "private_descriptor api mem sd current \<longleftrightarrow>
     sd_valid sd \<and> sid_valid api current \<and>
     (\<exists>owner. sd_owner sd = Inr (Some owner) \<and> sid_valid api (view_at mem owner) \<and> trusted_principal api (view_at mem owner) current) \<and>
     (\<exists>acl control. sd_dacl sd = Inr (Some acl) \<and> sd_control sd = Inr control \<and> control AND SE_SELF_RELATIVE \<noteq> 0 \<and>
        (\<forall>i < unat (ac_count acl). \<exists>a. ac_get acl i = Inr (Some a) \<and>
           private_ace api mem current (unat (sd_base sd)) (unat (sd_base sd) + unat (sd_len sd)) a))"

lemma check_ace_ok:
  assumes "unat base + unat len \<le> 2 ^ 64"
  shows "check_ace api mem current base len a = None \<longleftrightarrow> private_ace api mem current (unat base) (unat base + unat len) a"
proof -
  have size: "ace_size mem a < 2 ^ 16"
    using unsigned_less [where 'a = nat, of "mem (a + 2)"] unsigned_less [where 'a = nat, of "mem (a + 3)"] by (simp add: ace_size_def)
  have diff: "unat (a - base) = unat a - unat base" if "\<not> a < base" using that by (simp add: unat_sub not_less)
  have rest: "unat (len - (a - base)) = unat len - (unat a - unat base)" if "\<not> a < base" "\<not> a - base > len"
    using that by (simp add: unat_sub not_less diff)
  have out: "\<not> private_ace api mem current (unat base) (unat base + unat len) a"
    if "a < base \<or> a - base > len \<or> 4 > len - (a - base)"
  proof (cases "a < base")
    case False
    then show ?thesis using that diff rest by (auto simp: private_ace_def word_less_nat_alt not_less)
  qed (simp add: private_ace_def word_less_nat_alt)
  have nat_size: "unat (of_nat (ace_size mem a) :: 64 word) = ace_size mem a"
    using size by (simp add: unsigned_of_nat take_bit_nat_eq_self)
  show ?thesis
  proof (cases "a < base \<or> a - base > len \<or> 4 > len - (a - base)")
    case True
    then show ?thesis using out by (simp add: check_ace_def ace_header_size_def)
  next
    case False
    then have le: "unat base \<le> unat a" "unat a - unat base \<le> unat len" "4 \<le> unat len - (unat a - unat base)"
      using diff rest by (auto simp: word_less_nat_alt not_less)
    have fits: "of_nat (ace_size mem a) > len - (a - base) \<longleftrightarrow> unat base + unat len < unat a + ace_size mem a"
      using False le rest nat_size by (auto simp: word_less_nat_alt not_less)
    show ?thesis
      using False le(1) fits
      by (auto simp: check_ace_def private_ace_def Let_def ace_header_size_def sid_offset_def not_less ACCESS_ALLOWED_def ACCESS_DENIED_def)
  qed
qed

lemma check_aces_ok:
  "check_aces api mem current base len acl is = None \<longleftrightarrow>
     (\<forall>i \<in> set is. \<exists>a. ac_get acl i = Inr (Some a) \<and> check_ace api mem current base len a = None)"
  by (induction "is") (auto split: sum.split option.split)

lemma validate_ok:
  assumes "unat (sd_base sd) + unat (sd_len sd) \<le> 2 ^ 64"
  shows "validate_descriptor api mem (Some sd) (Some current) = None \<longleftrightarrow> private_descriptor api mem sd current"
proof -
  have len: "unat (ucast (sd_len sd) :: 64 word) = unat (sd_len sd)" 
    using unsigned_less [where 'a = nat, of "sd_len sd"] by (simp add: unsigned_ucast_eq take_bit_nat_eq_self)
  show ?thesis
    unfolding validate_descriptor_def private_descriptor_def
    using assms by (auto simp: check_aces_ok check_ace_ok len split: sum.split option.split)
qed

subsection \<open>Reads\<close>

text \<open>A function of an identifier reads its header and the sub-authorities that the header counts.\<close>

definition sid_local :: "(bytes_view \<Rightarrow> bool) \<Rightarrow> bool" where
  "sid_local P \<longleftrightarrow> (\<forall>v v'. (\<forall>i < 8 + 4 * unat (v 1). v i = v' i) \<longrightarrow> P v = P v')"

definition sid_api_local :: "sid_api \<Rightarrow> bool" where
  "sid_api_local api \<longleftrightarrow> sid_local (sid_valid api) \<and> (\<forall>c. sid_local (\<lambda>v. sid_equals api v c)) \<and>
     sid_local (sid_local_system api) \<and> sid_local (sid_administrators api)"

definition agree_on :: "memory \<Rightarrow> memory \<Rightarrow> nat \<Rightarrow> nat \<Rightarrow> bool" where
  "agree_on mem mem' first beyond \<longleftrightarrow> (\<forall>a. first \<le> unat a \<and> unat a < beyond \<longrightarrow> mem a = mem' a)"

lemma unat_offset: "unat a + k < 2 ^ 64 \<Longrightarrow> unat (a + of_nat k) = unat a + k" for a :: "64 word"
  by (simp add: unat_word_ariths unat_of_nat)

lemma agree_at:
  assumes "agree_on mem mem' first beyond" "beyond \<le> 2 ^ 64" "first \<le> unat a" "unat a + k < beyond"
  shows "mem' (a + of_nat k) = mem (a + of_nat k)"
proof -
  have "unat (a + of_nat k) = unat a + k" using assms by (intro unat_offset) simp
  then show ?thesis using assms by (simp add: agree_on_def)
qed

lemma sid_agree:
  assumes "sid_api_local api" "agree_on mem mem' first beyond" "beyond \<le> 2 ^ 64" "first \<le> unat a"
    "unat a + 8 + 4 * unat (mem (a + 1)) \<le> beyond"
  shows "sid_valid api (view_at mem' a) = sid_valid api (view_at mem a)"
    "trusted_principal api (view_at mem' a) c = trusted_principal api (view_at mem a) c"
proof -
  have "view_at mem a i = view_at mem' a i" if "i < 8 + 4 * unat (view_at mem a 1)" for i
    using agree_at [OF assms(2-4), of i] assms(5) that by (simp add: view_at_def)
  then show "sid_valid api (view_at mem' a) = sid_valid api (view_at mem a)"
    "trusted_principal api (view_at mem' a) c = trusted_principal api (view_at mem a) c"
    using assms(1) unfolding sid_api_local_def sid_local_def trusted_principal_def by metis+
qed

lemma private_ace_agree:
  assumes "sid_api_local api" "agree_on mem mem' first beyond" "beyond \<le> 2 ^ 64"
    "first \<le> unat a" "unat a + 4 \<le> beyond"
  shows "private_ace api mem' c first beyond a = private_ace api mem c first beyond a"
proof -
  note at = agree_at [OF assms(2-4)]
  have m: "mem' a = mem a" "mem' (a + 2) = mem (a + 2)" "mem' (a + 3) = mem (a + 3)"
    using at [of 0] at [of 2] at [of 3] assms(5) by simp_all
  have size: "ace_size mem' a = ace_size mem a" by (simp add: ace_size_def m)
  show ?thesis
  proof (cases "unat a + ace_size mem a \<le> beyond \<and> 16 \<le> ace_size mem a")
    case True
    then have m9: "mem' (a + 9) = mem (a + 9)" using at [of 9] by simp
    have off: "unat (a + 8) = unat a + 8" using unat_offset [of a 8] True assms(3) by simp
    have "sid_valid api (view_at mem' (a + 8)) = sid_valid api (view_at mem (a + 8)) \<and>
        trusted_principal api (view_at mem' (a + 8)) c = trusted_principal api (view_at mem (a + 8)) c"
      if "16 + 4 * unat (mem (a + 9)) \<le> ace_size mem a"
      using sid_agree [OF assms(1-3), of "a + 8"] assms(4) True that off by (simp add: add.assoc)
    then show ?thesis by (auto simp: private_ace_def size m m9)
  next
    case False
    then show ?thesis by (auto simp: private_ace_def size m)
  qed
qed

lemma check_ace_error: "check_ace api mem c base len a = Some e \<Longrightarrow> e = Sentinel ErrUnsafePath"
  by (simp add: check_ace_def Let_def split: if_splits)

lemma check_aces_error: "check_aces api mem c base len acl is = Some e \<Longrightarrow> e = Sentinel ErrUnsafePath"
  by (induction "is") (auto split: sum.splits option.splits dest: check_ace_error)

lemma validate_error: "validate_descriptor api mem sd user = Some e \<Longrightarrow> e = Sentinel ErrUnsafePath"
  by (auto simp: validate_descriptor_def split: option.splits sum.splits if_splits dest: check_aces_error)

subsection \<open>A sample descriptor\<close>

text \<open>The identifiers of the local system and of the administrators, and native functions that decide by
  the bytes.\<close>

definition has_bytes :: "8 word list \<Rightarrow> bytes_view \<Rightarrow> bool" where
  "has_bytes bs v = (v 1 = bs ! 1 \<and> list_all (\<lambda>i. v i = bs ! i) [0..<8 + 4 * unat (v 1)])"

definition system_sid :: "8 word list" where "system_sid = [1, 1, 0, 0, 0, 0, 0, 5, 18, 0, 0, 0]"
definition administrators_sid :: "8 word list" where "administrators_sid = [1, 2, 0, 0, 0, 0, 0, 5, 32, 0, 0, 0, 32, 2, 0, 0]"
definition user_sid :: "8 word list" where "user_sid = [1, 1, 0, 0, 0, 0, 0, 5, 99, 0, 0, 0]"

definition demo_api :: sid_api where
  "demo_api = \<lparr>sid_valid = (\<lambda>v. v 0 = 1), sid_equals = (\<lambda>u v. list_all (\<lambda>i. u i = v i) [0..<8 + 4 * unat (u 1)]),
     sid_local_system = has_bytes system_sid, sid_administrators = has_bytes administrators_sid\<rparr>"

lemma local_list_all: "sid_local (\<lambda>v. list_all (\<lambda>i. v i = f i) [0..<8 + 4 * unat (v 1)])"
  unfolding sid_local_def by (auto simp: list_all_iff)

lemma local_has_bytes: "sid_local (has_bytes bs)"
  unfolding sid_local_def has_bytes_def by (auto simp: list_all_iff)

lemma local_first: "sid_local (\<lambda>v. v 0 = b)"
  unfolding sid_local_def by simp

lemma demo_api_local: "sid_api_local demo_api"
  unfolding sid_api_local_def demo_api_def sid_api.select_convs
  by (intro conjI allI local_list_all local_has_bytes local_first)

text \<open>A list of one entry, which grants access to the user, after a header of the descriptor of 20 bytes;
  the owner is the identifier in that entry.\<close>

definition demo_bytes :: "8 word list" where
  "demo_bytes = replicate 20 0 @ [0, 0, 20, 0, 255, 1, 31, 0] @ user_sid"

definition demo_memory :: memory where
  "demo_memory a = (if unat a < 40 then demo_bytes ! unat a else 0)"

definition demo_descriptor :: descriptor where
  "demo_descriptor = \<lparr>sd_valid = True, sd_owner = Inr (Some 28),
     sd_dacl = Inr (Some \<lparr>ac_count = 1, ac_get = (\<lambda>i. if i = 0 then Inr (Some 20) else Inl (MsgErr ''ace''))\<rparr>),
     sd_control = Inr 0x8004, sd_base = 0, sd_len = 40\<rparr>"

definition demo_calls :: windows_calls where
  "demo_calls = \<lparr>wc_token_user = Inr (Some (\<lambda>i. if i < 12 then user_sid ! i else 0)), wc_security_info = (\<lambda>f. Inr (Some demo_descriptor))\<rparr>"

abbreviation demo_user :: bytes_view where
  "demo_user \<equiv> (\<lambda>i. if i < 12 then user_sid ! i else 0)"

lemma demo_bytes_at:
  "demo_memory 20 = 0" "demo_memory 22 = 20" "demo_memory 23 = 0" "demo_memory 29 = 1" "demo_memory 28 = 1"
  by (simp_all add: demo_memory_def demo_bytes_def nth_append user_sid_def)

lemma demo_sid_view: "i < 12 \<Longrightarrow> view_at demo_memory 28 i = user_sid ! i"
proof -
  assume i: "i < 12"
  have "unat (28 + of_nat i :: 64 word) = 28 + i" using unat_offset [of 28 i] i by simp
  then show ?thesis using i by (simp add: view_at_def demo_memory_def demo_bytes_def nth_append)
qed

lemma demo_private: "private_descriptor demo_api demo_memory demo_descriptor demo_user"
proof -
  have one: "view_at demo_memory 28 0 = 1" "view_at demo_memory 28 (Suc 0) = 1"
    using demo_sid_view [of 0] demo_sid_view [of 1] by (simp_all add: user_sid_def)
  have "sid_valid demo_api (view_at demo_memory 28)" using one by (simp add: demo_api_def)
  moreover have "sid_valid demo_api demo_user" by (simp add: demo_api_def user_sid_def)
  moreover have "trusted_principal demo_api (view_at demo_memory 28) demo_user"
    using demo_sid_view one by (simp add: trusted_principal_def demo_api_def list_all_iff)
  ultimately show ?thesis
    by (simp add: private_descriptor_def private_ace_def demo_descriptor_def demo_bytes_at ace_size_def
        ACCESS_ALLOWED_def SE_SELF_RELATIVE_def)
qed

subsection \<open>Properties\<close>

text \<open>C12: the check of the descriptor is the policy.  For a descriptor that does not wrap around the end of
  the address space, a file is accepted exactly if its owner is trusted, its descriptor is self-relative with a list
  present, and every entry lies inside the descriptor in full and either denies, or grants
  to a valid identifier of the user, the local system or the administrators; the bounds checks on
  64-bit addresses decide that as if computed without overflow.\<close>

theorem acl_policy_exact:
  assumes "\<forall>sd. wc_security_info win f = Inr (Some sd) \<longrightarrow> unat (sd_base sd) + unat (sd_len sd) \<le> 2 ^ 64"
  shows "win_secure_permissions api mem win f = None \<longleftrightarrow>
    (\<exists>current sd. wc_token_user win = Inr (Some current) \<and> wc_security_info win f = Inr (Some sd) \<and> private_descriptor api mem sd current)"
proof -
  have none: "validate_descriptor api mem None u \<noteq> None" "validate_descriptor api mem d None \<noteq> None" for u d
    by (auto simp: validate_descriptor_def split: option.split)
  show ?thesis
  proof (cases "\<exists>current sd. wc_token_user win = Inr (Some current) \<and> wc_security_info win f = Inr (Some sd)")
    case True
    then show ?thesis using assms validate_ok by (auto simp: win_secure_permissions_def)
  next
    case False
    then have "win_secure_permissions api mem win f \<noteq> None"
      unfolding win_secure_permissions_def using none by (auto split: sum.split)
    then show ?thesis using False by blast
  qed
qed

theorem acl_policy_exact_witness:
  "win_secure_permissions demo_api demo_memory demo_calls 3 = None"
proof -
  have "\<forall>sd. wc_security_info demo_calls 3 = Inr (Some sd) \<longrightarrow> unat (sd_base sd) + unat (sd_len sd) \<le> 2 ^ 64"
    by (simp add: demo_calls_def demo_descriptor_def)
  from acl_policy_exact [OF this] demo_private show ?thesis by (simp add: demo_calls_def)
qed

text \<open>C13: the check reads no byte outside the descriptor.  If two memories agree on the bytes of the
  descriptor, the verdict is the same, with the native functions on identifiers reading no further than the length
  their header states; entries that point elsewhere, are cut off, or claim a length beyond the end cannot
  make the check look there.\<close>

theorem acl_reads_confined:
  assumes "sid_api_local api" "unat (sd_base sd) + unat (sd_len sd) \<le> 2 ^ 64"
    "agree_on mem mem' (unat (sd_base sd)) (unat (sd_base sd) + unat (sd_len sd))"
    "\<And>a. sd_owner sd = Inr (Some a) \<Longrightarrow>
       unat (sd_base sd) \<le> unat a \<and> unat a + 8 + 4 * unat (mem (a + 1)) \<le> unat (sd_base sd) + unat (sd_len sd)"
  shows "validate_descriptor api mem' (Some sd) (Some current) = validate_descriptor api mem (Some sd) (Some current)"
proof -
  let ?first = "unat (sd_base sd)" let ?beyond = "unat (sd_base sd) + unat (sd_len sd)"
  have owner: "sid_valid api (view_at mem' a) = sid_valid api (view_at mem a)"
      "trusted_principal api (view_at mem' a) current = trusted_principal api (view_at mem a) current"
    if "sd_owner sd = Inr (Some a)" for a
    using sid_agree [OF assms(1,3,2)] assms(4) [OF that] by blast+
  have "private_ace api mem' current ?first ?beyond a = private_ace api mem current ?first ?beyond a" for a
  proof (cases "?first \<le> unat a \<and> unat a + 4 \<le> ?beyond")
    case False
    then show ?thesis by (auto simp: private_ace_def)
  qed (use private_ace_agree [OF assms(1,3,2)] in blast)
  then have "private_descriptor api mem' sd current = private_descriptor api mem sd current"
    using owner by (auto simp: private_descriptor_def)
  then show ?thesis
    using validate_ok [OF assms(2)] validate_error by (metis not_None_eq)
qed

theorem acl_reads_confined_witness:
  "validate_descriptor demo_api (\<lambda>a. if unat a < 40 then demo_memory a else 0xFF) (Some demo_descriptor) (Some demo_user) = None"
proof -
  let ?m = "\<lambda>a. if unat a < 40 then demo_memory a else 0xFF"
  have "unat (sd_base demo_descriptor) + unat (sd_len demo_descriptor) \<le> 2 ^ 64" by (simp add: demo_descriptor_def)
  moreover have "agree_on demo_memory ?m (unat (sd_base demo_descriptor)) (unat (sd_base demo_descriptor) + unat (sd_len demo_descriptor))"
    by (simp add: agree_on_def demo_descriptor_def)
  moreover have "unat (sd_base demo_descriptor) \<le> unat a \<and>
      unat a + 8 + 4 * unat (demo_memory (a + 1)) \<le> unat (sd_base demo_descriptor) + unat (sd_len demo_descriptor)"
    if "sd_owner demo_descriptor = Inr (Some a)" for a
  proof -
    have "a = 28" using that by (simp add: demo_descriptor_def)
    then show ?thesis using demo_bytes_at by (simp add: demo_descriptor_def)
  qed
  ultimately have "validate_descriptor demo_api ?m (Some demo_descriptor) (Some demo_user) = validate_descriptor demo_api demo_memory (Some demo_descriptor) (Some demo_user)"
    by (intro acl_reads_confined [OF demo_api_local])
  moreover have "validate_descriptor demo_api demo_memory (Some demo_descriptor) (Some demo_user) = None"
    using validate_ok demo_private by (simp add: demo_descriptor_def)
  ultimately show ?thesis by simp
qed

end
