(* ===== verification/Go_Json.thy ===== *)
theory Go_Json
  imports Go_Time
begin

text \<open>
  The text level of \<open>encoding/json\<close>: a JSON tree whose strings and numbers keep their
  literal spelling, the compact and the indented printer, and the parser with the
  scanner's syntax checks and its nesting limit.  The main result is that the parser
  reads back whatever the printers write.
\<close>

datatype json = JNull | JBool bool | JNum string | JStr string | JArr "json list"
  | JObj "(string \<times> json) list"

subsection \<open>Printing\<close>

definition quoted :: "string \<Rightarrow> string" where
  "quoted raw = CHR 0x22 # raw @ [CHR 0x22]"

text \<open>
  \<open>nl\<close> is the line break before an element at a nesting level and \<open>sp\<close> the space after
  a colon: both empty for \<open>json.Marshal\<close>, a newline with two spaces a level and one
  space for \<open>json.MarshalIndent(v, "", "  ")\<close>.
\<close>

fun render :: "(nat \<Rightarrow> string) \<Rightarrow> string \<Rightarrow> nat \<Rightarrow> json \<Rightarrow> string"
  and render_elems :: "(nat \<Rightarrow> string) \<Rightarrow> string \<Rightarrow> nat \<Rightarrow> json list \<Rightarrow> string"
  and render_members :: "(nat \<Rightarrow> string) \<Rightarrow> string \<Rightarrow> nat \<Rightarrow> (string \<times> json) list \<Rightarrow> string" where
  "render nl sp l JNull = ''null''"
| "render nl sp l (JBool b) = (if b then ''true'' else ''false'')"
| "render nl sp l (JNum n) = n"
| "render nl sp l (JStr raw) = quoted raw"
| "render nl sp l (JArr vs) = (if vs = [] then ''[]''
     else ''['' @ nl (Suc l) @ render_elems nl sp (Suc l) vs @ nl l @ '']'')"
| "render nl sp l (JObj ms) = (if ms = [] then ''{}''
     else ''{'' @ nl (Suc l) @ render_members nl sp (Suc l) ms @ nl l @ ''}'')"
| "render_elems nl sp l [] = []"
| "render_elems nl sp l (v # vs) = render nl sp l v @
     (if vs = [] then [] else '','' @ nl l @ render_elems nl sp l vs)"
| "render_members nl sp l [] = []"
| "render_members nl sp l ((k, v) # ms) = quoted k @ '':'' @ sp @ render nl sp l v @
     (if ms = [] then [] else '','' @ nl l @ render_members nl sp l ms)"

definition print_compact :: "json \<Rightarrow> string" where
  "print_compact v = render (\<lambda>_. []) [] 0 v"

definition indent_nl :: "nat \<Rightarrow> string" where
  "indent_nl l = CHR 0x0A # replicate (2 * l) (CHR 0x20)"

definition print_indent :: "json \<Rightarrow> string" where
  "print_indent v = render indent_nl '' '' 0 v"

subsection \<open>Scanning\<close>

definition is_ws :: "char \<Rightarrow> bool" where
  "is_ws c = (c = CHR 0x20 \<or> c = CHR 0x09 \<or> c = CHR 0x0A \<or> c = CHR 0x0D)"

definition skip_ws :: "string \<Rightarrow> string" where
  "skip_ws s = dropWhile is_ws s"

definition is_hex :: "char \<Rightarrow> bool" where
  "is_hex c = (is_digit c \<or> (97 \<le> byte c \<and> byte c \<le> 102) \<or> (65 \<le> byte c \<and> byte c \<le> 70))"

definition prepend :: "string \<Rightarrow> (string \<times> string) option \<Rightarrow> (string \<times> string) option" where
  "prepend p r = map_option (\<lambda>(a, b). (p @ a, b)) r"

text \<open>\<open>scan_string\<close> starts after the opening quote and returns the literal body and the rest.\<close>

fun scan_string :: "string \<Rightarrow> (string \<times> string) option" where
  "scan_string [] = None"
| "scan_string (c # r) =
     (if c = CHR 0x22 then Some ([], r)
      else if c = CHR 0x5C then
        (case r of
           [] \<Rightarrow> None
         | e # r' \<Rightarrow>
             if e = CHR ''u'' then
               (case r' of
                  h1 # h2 # h3 # h4 # r'' \<Rightarrow>
                    if is_hex h1 \<and> is_hex h2 \<and> is_hex h3 \<and> is_hex h4
                    then prepend [c, e, h1, h2, h3, h4] (scan_string r'') else None
                | _ \<Rightarrow> None)
             else if e \<in> set [CHR 0x22, CHR 0x5C, CHR ''/'', CHR ''b'', CHR ''f'', CHR ''n'', CHR ''r'', CHR ''t'']
             then prepend [c, e] (scan_string r') else None)
      else if byte c < 32 then None
      else prepend [c] (scan_string r))"

definition digits_of :: "string \<Rightarrow> string" where
  "digits_of s = takeWhile is_digit s"

definition scan_int :: "string \<Rightarrow> (string \<times> string) option" where
  "scan_int s = (case s of
      [] \<Rightarrow> None
    | c # r \<Rightarrow> if c = CHR ''0'' then Some ([c], r)
              else if is_digit c then Some (digits_of s, dropWhile is_digit s) else None)"

definition scan_frac :: "string \<Rightarrow> (string \<times> string) option" where
  "scan_frac s = (case s of
      [] \<Rightarrow> Some ([], s)
    | c # r \<Rightarrow> if c = CHR ''.'' then
                 (if digits_of r = [] then None else Some (c # digits_of r, dropWhile is_digit r))
              else Some ([], s))"

definition scan_exp :: "string \<Rightarrow> (string \<times> string) option" where
  "scan_exp s = (case s of
      [] \<Rightarrow> Some ([], s)
    | c # r \<Rightarrow> if c = CHR ''e'' \<or> c = CHR ''E'' then
                 (let (sg, r') = (case r of d # q \<Rightarrow> if d = CHR ''+'' \<or> d = CHR ''-'' then ([d], q) else ([], r)
                                          | [] \<Rightarrow> ([], r))
                  in if digits_of r' = [] then None else Some (c # sg @ digits_of r', dropWhile is_digit r'))
              else Some ([], s))"

definition scan_number :: "string \<Rightarrow> (string \<times> string) option" where
  "scan_number s =
     (let (sg, s1) = (case s of c # r \<Rightarrow> if c = CHR ''-'' then ([c], r) else ([], s) | [] \<Rightarrow> ([], s))
      in case scan_int s1 of None \<Rightarrow> None | Some (ip, s2) \<Rightarrow>
         case scan_frac s2 of None \<Rightarrow> None | Some (fp, s3) \<Rightarrow>
         case scan_exp s3 of None \<Rightarrow> None | Some (ep, s4) \<Rightarrow> Some (sg @ ip @ fp @ ep, s4))"

subsection \<open>Parsing\<close>

fun parse_val :: "nat \<Rightarrow> string \<Rightarrow> (json \<times> string) option"
  and parse_elems :: "nat \<Rightarrow> string \<Rightarrow> (json list \<times> string) option"
  and parse_members :: "nat \<Rightarrow> string \<Rightarrow> ((string \<times> json) list \<times> string) option" where
  "parse_val 0 s = None"
| "parse_val (Suc n) s =
     (case skip_ws s of
        [] \<Rightarrow> None
      | c # r \<Rightarrow>
          if c = CHR 0x22 then map_option (\<lambda>(raw, q). (JStr raw, q)) (scan_string r)
          else if c = CHR ''['' then
            (case skip_ws r of
               [] \<Rightarrow> None
             | d # q \<Rightarrow> if d = CHR '']'' then Some (JArr [], q)
                       else map_option (\<lambda>(vs, q). (JArr vs, q)) (parse_elems n r))
          else if c = CHR ''{'' then
            (case skip_ws r of
               [] \<Rightarrow> None
             | d # q \<Rightarrow> if d = CHR ''}'' then Some (JObj [], q)
                       else map_option (\<lambda>(ms, q). (JObj ms, q)) (parse_members n r))
          else if c = CHR ''-'' \<or> is_digit c then map_option (\<lambda>(raw, q). (JNum raw, q)) (scan_number (c # r))
          else if has_prefix (c # r) ''null'' then Some (JNull, drop 4 (c # r))
          else if has_prefix (c # r) ''true'' then Some (JBool True, drop 4 (c # r))
          else if has_prefix (c # r) ''false'' then Some (JBool False, drop 5 (c # r))
          else None)"
| "parse_elems 0 s = None"
| "parse_elems (Suc n) s =
     (case parse_val n s of
        None \<Rightarrow> None
      | Some (v, r) \<Rightarrow>
          (case skip_ws r of
             [] \<Rightarrow> None
           | c # q \<Rightarrow> if c = CHR '']'' then Some ([v], q)
                     else if c = CHR '','' then map_option (\<lambda>(vs, q'). (v # vs, q')) (parse_elems n q)
                     else None))"
| "parse_members 0 s = None"
| "parse_members (Suc n) s =
     (case skip_ws s of
        [] \<Rightarrow> None
      | c # r \<Rightarrow> if c \<noteq> CHR 0x22 then None
                else (case scan_string r of None \<Rightarrow> None | Some (k, r1) \<Rightarrow>
          (case skip_ws r1 of
             [] \<Rightarrow> None
           | d # r2 \<Rightarrow> if d \<noteq> CHR '':'' then None
                      else (case parse_val n r2 of None \<Rightarrow> None | Some (v, r3) \<Rightarrow>
               (case skip_ws r3 of
                  [] \<Rightarrow> None
                | e # q \<Rightarrow> if e = CHR ''}'' then Some ([(k, v)], q)
                          else if e = CHR '','' then map_option (\<lambda>(ms, q'). ((k, v) # ms, q')) (parse_members n q)
                          else None)))))"

fun json_depth :: "json \<Rightarrow> nat" where
  "json_depth (JArr vs) = Suc (foldr max (map json_depth vs) 0)"
| "json_depth (JObj ms) = Suc (foldr max (map (\<lambda>m. json_depth (snd m)) ms) 0)"
| "json_depth _ = 0"

definition max_nesting :: nat where
  "max_nesting = 10000"

definition json_parse :: "string \<Rightarrow> json option" where
  "json_parse s =
     (case parse_val (2 * length s + 2) s of
        None \<Rightarrow> None
      | Some (v, r) \<Rightarrow> if skip_ws r = [] \<and> json_depth v \<le> max_nesting then Some v else None)"

subsection \<open>Parsing consumes input\<close>

lemma length_skip_ws: "length (skip_ws s) \<le> length s"
  by (simp add: skip_ws_def length_dropWhile_le)

lemma scan_stringE:
  assumes "scan_string (c # s) = Some (raw, r)"
  obtains (quote) "c = CHR 0x22" "raw = []" "r = s"
    | (hex) h1 h2 h3 h4 s' raw' where "c = CHR 0x5C" "s = CHR ''u'' # h1 # h2 # h3 # h4 # s'"
        "is_hex h1 \<and> is_hex h2 \<and> is_hex h3 \<and> is_hex h4" "scan_string s' = Some (raw', r)"
        "raw = c # CHR ''u'' # h1 # h2 # h3 # h4 # raw'"
    | (escape) e s' raw' where "c = CHR 0x5C" "s = e # s'"
        "e \<in> set [CHR 0x22, CHR 0x5C, CHR ''/'', CHR ''b'', CHR ''f'', CHR ''n'', CHR ''r'', CHR ''t'']"
        "scan_string s' = Some (raw', r)" "raw = c # e # raw'"
    | (plain) raw' where "c \<noteq> CHR 0x22" "c \<noteq> CHR 0x5C" "\<not> byte c < 32"
        "scan_string s = Some (raw', r)" "raw = c # raw'"
proof (cases "c = CHR 0x22 \<or> c \<noteq> CHR 0x5C")
  case True
  with assms show ?thesis by (auto simp: prepend_def split: if_splits intro: quote plain)
next
  case False
  then have c: "c = CHR 0x5C" by simp
  with assms obtain e s' where s: "s = e # s'" by (cases s) auto
  show ?thesis
  proof (cases "e = CHR ''u''")
    case e: False
    with assms c s obtain raw' where "scan_string s' = Some (raw', r)" "raw = c # e # raw'"
      "e \<in> set [CHR 0x22, CHR 0x5C, CHR ''/'', CHR ''b'', CHR ''f'', CHR ''n'', CHR ''r'', CHR ''t'']"
      by (auto simp: prepend_def split: if_splits)
    with c s show ?thesis by (intro escape)
  next
    case True
    with assms c s obtain h1 h2 h3 h4 s'' raw' where "s' = h1 # h2 # h3 # h4 # s''"
      "is_hex h1 \<and> is_hex h2 \<and> is_hex h3 \<and> is_hex h4"
      "scan_string s'' = Some (raw', r)" "raw = c # e # h1 # h2 # h3 # h4 # raw'"
      by (auto simp: prepend_def split: if_splits list.splits)
    with c s True show ?thesis by (intro hex) auto
  qed
qed

lemma scan_string_shrinks: "scan_string s = Some (raw, r) \<Longrightarrow> s = raw @ CHR 0x22 # r"
proof (induction s arbitrary: raw r rule: length_induct)
  case (1 s)
  then obtain c q where s: "s = c # q" by (cases s) auto
  note IH = "1.IH" [rule_format]
  from "1.prems" [unfolded s] show ?case
    by (cases rule: scan_stringE) (auto simp: s dest: IH [rotated])
qed

lemma scan_string_append: "scan_string s = Some (raw, r) \<Longrightarrow> scan_string (s @ t) = Some (raw, r @ t)"
proof (induction s arbitrary: raw r rule: length_induct)
  case (1 s)
  then obtain c q where s: "s = c # q" by (cases s) auto
  note IH = "1.IH" [rule_format]
  from "1.prems" [unfolded s] show ?case
    by (cases rule: scan_stringE) (auto simp: s prepend_def dest: IH [rotated])
qed

lemma digits_split: "s = digits_of s @ dropWhile is_digit s"
  by (simp add: digits_of_def)

lemma scan_int_shrinks: "scan_int s = Some (a, r) \<Longrightarrow> s = a @ r \<and> a \<noteq> []"
  by (auto simp: scan_int_def digits_of_def split: list.splits if_splits)

lemma scan_frac_split: "scan_frac s = Some (a, r) \<Longrightarrow> s = a @ r"
  by (auto simp: scan_frac_def digits_of_def split: list.splits if_splits)

lemma scan_exp_split: "scan_exp s = Some (a, r) \<Longrightarrow> s = a @ r"
  by (auto simp: scan_exp_def digits_of_def Let_def split: list.splits if_splits prod.splits)

lemma scan_number_shrinks: "scan_number s = Some (a, r) \<Longrightarrow> s = a @ r \<and> a \<noteq> []"
  unfolding scan_number_def Let_def
  by (auto split: option.splits prod.splits list.splits if_splits
      dest!: scan_int_shrinks scan_frac_split scan_exp_split)

lemma parse_shrinks:
  shows "parse_val n s = Some (v, r) \<Longrightarrow> length r < length s"
    and "parse_elems n s = Some (vs, r) \<Longrightarrow> length r < length s"
    and "parse_members n s = Some (ms, r) \<Longrightarrow> length r < length s"
proof (induction n s and n s and n s arbitrary: v r and vs r and ms r
    rule: parse_val_parse_elems_parse_members.induct)
  case (2 n s)
  obtain c q where s: "skip_ws s = c # q" "length q < length s"
    using "2.prems" length_skip_ws [of s] by (cases "skip_ws s") auto
  have k: "length (skip_ws q) \<le> length q" by (rule length_skip_ws)
  consider "c = CHR 0x22" | "c = CHR ''[''" | "c = CHR ''{''" | "c \<notin> {CHR 0x22, CHR ''['', CHR ''{''}"
    by blast
  then have "length r \<le> length q"
  proof cases
    case 1
    with "2.prems" s show ?thesis by (auto dest: scan_string_shrinks)
  next
    case 2
    show ?thesis
    proof (cases "skip_ws q")
      case (Cons d x)
      show ?thesis
      proof (cases "d = CHR '']''")
        case False
        with "2.prems" s 2 Cons obtain vs where "parse_elems n q = Some (vs, r)" by auto
        with "2.IH"(1) s 2 Cons False show ?thesis by (simp add: less_imp_le)
      qed (use "2.prems" s 2 Cons k in auto)
    qed (use "2.prems" s 2 in auto)
  next
    case 3
    show ?thesis
    proof (cases "skip_ws q")
      case (Cons d x)
      show ?thesis
      proof (cases "d = CHR ''}''")
        case False
        with "2.prems" s 3 Cons obtain ms where "parse_members n q = Some (ms, r)" by auto
        with "2.IH"(2) s 3 Cons False show ?thesis by (simp add: less_imp_le)
      qed (use "2.prems" s 3 Cons k in auto)
    qed (use "2.prems" s 3 in auto)
  next
    case 4
    have n: "scan_number (c # q) = Some (a, x) \<Longrightarrow> length x \<le> length q" for a x
      by (drule scan_number_shrinks) (auto simp: Cons_eq_append_conv)
    show ?thesis
      using "2.prems" s 4 n by (auto split: if_splits)
  qed
  with s show ?case by simp
next
  case (4 n s)
  then obtain v' r' where v: "parse_val n s = Some (v', r')" "length r' < length s"
    by (auto split: option.splits)
  with 4 length_skip_ws [of r'] show ?case
    by (fastforce split: list.splits if_splits)
next
  case (6 n s)
  obtain c q where s: "skip_ws s = c # q" "length q < length s"
    using "6.prems" length_skip_ws [of s] by (cases "skip_ws s") auto
  with 6 obtain k r1 where k: "c = CHR 0x22" "scan_string q = Some (k, r1)"
    by (auto split: if_splits option.splits)
  then have l1: "length r1 < length q" by (auto dest: scan_string_shrinks)
  from 6 s k obtain r2 where r2: "skip_ws r1 = CHR '':'' # r2"
    by (auto split: if_splits list.splits)
  then have l2: "length r2 < length r1" using length_skip_ws [of r1] by simp
  from 6 s k r2 obtain v r3 where v: "parse_val n r2 = Some (v, r3)"
    by (auto split: option.splits)
  with 6 s k r2 have l3: "length r3 < length r2" by simp
  from 6 s k r2 v show ?case
    using length_skip_ws [of r3] l1 l2 l3
    by (fastforce split: list.splits if_splits)
qed simp_all

subsection \<open>Enough fuel\<close>

text \<open>The fuel of \<open>json_parse\<close> is enough: more fuel never changes a result.\<close>

lemma parse_more_fuel:
  shows "2 * length s + 1 \<le> n \<Longrightarrow> parse_val (Suc n) s = parse_val n s"
    and "2 * length s + 2 \<le> n \<Longrightarrow> parse_elems (Suc n) s = parse_elems n s"
    and "2 * length s + 2 \<le> n \<Longrightarrow> parse_members (Suc n) s = parse_members n s"
proof (induction n arbitrary: s)
  case (Suc n)
  { case 1
    show ?case
    proof (cases "skip_ws s")
      case (Cons c q)
      with 1 length_skip_ws [of s] have "2 * length q + 2 \<le> n" by simp
      then have "parse_elems (Suc n) q = parse_elems n q" "parse_members (Suc n) q = parse_members n q"
        using Suc.IH(2,3) by blast+
      then show ?thesis by (simp only: parse_val.simps(2) Cons list.case)
    qed simp }
  { case 2
    have v: "parse_val (Suc n) s = parse_val n s" using 2 Suc.IH(1) by simp
    show ?case
    proof (cases "parse_val n s")
      case (Some p)
      obtain v r where p: "p = (v, r)" by (cases p)
      then have len: "length r < length s" using Some parse_shrinks(1) by simp
      have e: "parse_elems (Suc n) q = parse_elems n q" if "skip_ws r = c # q" for c q
        using that length_skip_ws [of r] len 2 Suc.IH(2) [of q] by simp
      show ?thesis
        using v Some p e by (simp del: parse_val.simps parse_elems.simps add: parse_elems.simps(2) split: list.split)
    qed (use v in simp) }
  { case 3
    have v: "parse_val (Suc n) q = parse_val n q" if "length q \<le> length s" for q
      using that 3 Suc.IH(1) [of q] by simp
    have m: "parse_members (Suc n) q = parse_members n q" if "length q < length s" for q
      using that 3 Suc.IH(3) [of q] by simp
    show ?case
    proof (cases "skip_ws s")
      case (Cons c q)
      have lq: "length q < length s" using Cons length_skip_ws [of s] by simp
      show ?thesis
      proof (cases "scan_string q")
        case (Some p)
        obtain k r1 where p: "p = (k, r1)" by (cases p)
        have l1: "length r1 < length q" using Some p scan_string_shrinks by fastforce
        show ?thesis
        proof (cases "skip_ws r1")
          case r1: (Cons d r2)
          have l2: "length r2 < length r1" using r1 length_skip_ws [of r1] by simp
          have e: "parse_members (Suc n) x = parse_members n x"
            if "parse_val n r2 = Some (w, r3)" "skip_ws r3 = y # x" for w r3 y x
            using that parse_shrinks(1) [of n r2 w r3] length_skip_ws [of r3] l1 l2 lq by (intro m) simp
          show ?thesis
            using v [of r2] e lq l1 l2 Cons Some p r1
            by (simp del: parse_val.simps parse_members.simps add: parse_members.simps(2) split: list.split option.split)
        qed (use Cons Some p in simp)
      qed (use Cons in simp)
    qed simp }
qed simp_all

lemma parse_val_enough:
  assumes "2 * length s + 2 \<le> n"
  shows "parse_val n s = parse_val (2 * length s + 2) s"
  using assms
proof (induction n rule: dec_induct)
  case (step n)
  then show ?case using parse_more_fuel(1) [of s n] by simp
qed simp

text \<open>
  A tree is well formed when its literals are: this is what the encoders of the next
  theory produce.
\<close>

definition raw_ok :: "string \<Rightarrow> bool" where
  "raw_ok raw = (scan_string (raw @ [CHR 0x22]) = Some (raw, []))"

definition num_ok :: "string \<Rightarrow> bool" where
  "num_ok raw = (scan_number raw = Some (raw, []))"

fun json_ok :: "json \<Rightarrow> bool" where
  "json_ok (JNum raw) = num_ok raw"
| "json_ok (JStr raw) = raw_ok raw"
| "json_ok (JArr vs) = list_all json_ok vs"
| "json_ok (JObj ms) = list_all (\<lambda>m. raw_ok (fst m) \<and> json_ok (snd m)) ms"
| "json_ok _ = True"

definition num_end :: "string \<Rightarrow> bool" where
  "num_end t = (case t of [] \<Rightarrow> True | c # _ \<Rightarrow> \<not> is_digit c \<and> c \<notin> {CHR ''.'', CHR ''e'', CHR ''E''})"

lemma num_end_digits: "num_end t \<Longrightarrow> takeWhile is_digit t = [] \<and> dropWhile is_digit t = t"
  by (cases t) (auto simp: num_end_def)

lemma digits_append: "num_end t \<Longrightarrow> digits_of (s @ t) = digits_of s"
  using num_end_digits [of t] by (induction s) (auto simp: digits_of_def)

lemma drop_digits_append: "num_end t \<Longrightarrow> dropWhile is_digit (s @ t) = dropWhile is_digit s @ t"
  using num_end_digits [of t] by (induction s) auto

lemma scan_int_append: "num_end t \<Longrightarrow> scan_int s = Some (a, r) \<Longrightarrow> scan_int (s @ t) = Some (a, r @ t)"
proof (cases s)
  case (Cons c q)
  assume t: "num_end t" and e: "scan_int s = Some (a, r)"
  show ?thesis
  proof (cases "c = CHR ''0''")
    case False
    with e Cons have d: "is_digit c" "a = digits_of s" "r = dropWhile is_digit s"
      by (auto simp: scan_int_def split: if_splits)
    have "scan_int (s @ t) = Some (digits_of (s @ t), dropWhile is_digit (s @ t))"
      using False d(1) Cons by (simp add: scan_int_def)
    then show ?thesis by (simp only: d digits_append [OF t] drop_digits_append [OF t])
  qed (use e Cons in \<open>auto simp: scan_int_def\<close>)
qed (simp add: scan_int_def)

lemma scan_frac_append: "num_end t \<Longrightarrow> scan_frac s = Some (a, r) \<Longrightarrow> scan_frac (s @ t) = Some (a, r @ t)"
proof (cases s)
  case (Cons c q)
  assume t: "num_end t" and e: "scan_frac s = Some (a, r)"
  show ?thesis
    using e digits_append [OF t, of q] drop_digits_append [OF t, of q]
    by (simp add: scan_frac_def Cons split: if_splits)
qed (auto simp: scan_frac_def num_end_def split: list.split)

lemma scan_exp_append: "num_end t \<Longrightarrow> scan_exp s = Some (a, r) \<Longrightarrow> scan_exp (s @ t) = Some (a, r @ t)"
proof (cases s)
  case Nil
  assume "num_end t" "scan_exp s = Some (a, r)"
  with Nil show ?thesis by (auto simp: scan_exp_def num_end_def split: list.splits)
next
  case (Cons c q)
  assume t: "num_end t" and e: "scan_exp s = Some (a, r)"
  show ?thesis
  proof (cases "c = CHR ''e'' \<or> c = CHR ''E''")
    case False
    with Cons e have "a = []" "r = c # q" by (simp_all add: scan_exp_def)
    with Cons False show ?thesis by (simp add: scan_exp_def)
  next
    case c: True
    have q: "q \<noteq> []" using e Cons c by (auto simp: scan_exp_def digits_of_def)
    then obtain d x where dx: "q = d # x" by (cases q) auto
    show ?thesis
      using e c digits_append [OF t, of x] drop_digits_append [OF t, of x]
        digits_append [OF t, of "d # x"] drop_digits_append [OF t, of "d # x"]
      by (cases "d = CHR ''+'' \<or> d = CHR ''-''") (simp_all add: scan_exp_def Cons dx split: if_splits)
  qed
qed

lemma scan_number_append:
  assumes "num_ok raw" "num_end t"
  shows "scan_number (raw @ t) = Some (raw, t)"
proof -
  define sg where "sg = (case raw of c # r \<Rightarrow> if c = CHR ''-'' then [c] else [] | [] \<Rightarrow> [])"
  define s1 where "s1 = (case raw of c # r \<Rightarrow> if c = CHR ''-'' then r else raw | [] \<Rightarrow> raw)"
  obtain ip s2 fp s3 ep where p: "scan_int s1 = Some (ip, s2)" "scan_frac s2 = Some (fp, s3)"
    "scan_exp s3 = Some (ep, [])" "sg @ ip @ fp @ ep = raw"
    using assms(1) unfolding num_ok_def scan_number_def sg_def s1_def Let_def
    by (cases raw) (auto split: if_splits option.splits)
  from p(1) have "s1 \<noteq> []" by (auto simp: scan_int_def)
  then have "(case raw @ t of c # r \<Rightarrow> if c = CHR ''-'' then ([c], r) else ([], raw @ t) | [] \<Rightarrow> ([], raw @ t)) = (sg, s1 @ t)"
    by (cases raw) (auto simp: sg_def s1_def)
  then show ?thesis
    using scan_int_append [OF assms(2) p(1)] scan_frac_append [OF assms(2) p(2)] scan_exp_append [OF assms(2) p(3)] p(4)
    by (simp add: scan_number_def)
qed

lemma scan_string_raw: "raw_ok raw \<Longrightarrow> scan_string (raw @ CHR 0x22 # t) = Some (raw, t)"
  using scan_string_append [of "raw @ [CHR 0x22]" raw "[]" t] by (simp add: raw_ok_def)

subsection \<open>The parser reads what the printers write\<close>

fun vsize :: "json \<Rightarrow> nat" and esize :: "json list \<Rightarrow> nat" and msize :: "(string \<times> json) list \<Rightarrow> nat" where
  "vsize (JArr vs) = Suc (esize vs)"
| "vsize (JObj ms) = Suc (msize ms)"
| "vsize (JStr raw) = 1"
| "vsize (JNum raw) = 1"
| "vsize (JBool b) = 1"
| "vsize JNull = 1"
| "esize [] = 0"
| "esize (v # vs) = Suc (vsize v + esize vs)"
| "msize [] = 0"
| "msize ((k, v) # ms) = Suc (vsize v + msize ms)"

definition all_ws :: "string \<Rightarrow> bool" where
  "all_ws w = list_all is_ws w"

lemma skip_ws_append [simp]: "all_ws w \<Longrightarrow> skip_ws (w @ s) = skip_ws s"
  by (induction w) (auto simp: all_ws_def skip_ws_def)

lemma skip_ws_Cons [simp]: "\<not> is_ws c \<Longrightarrow> skip_ws (c # s) = c # s"
  by (simp add: skip_ws_def)

definition num_start :: "char \<Rightarrow> bool" where
  "num_start c = (is_digit c \<or> c = CHR ''-'')"

lemma num_ok_head: "num_ok raw \<Longrightarrow> \<exists>c r. raw = c # r \<and> num_start c"
  by (cases raw) (auto simp: num_ok_def scan_number_def scan_int_def is_digit_def num_start_def
      split: if_splits option.splits list.splits)

lemma num_start_bytes:
  "num_start c \<Longrightarrow> \<not> is_ws c \<and> c \<noteq> CHR 0x22 \<and> c \<noteq> CHR ''['' \<and> c \<noteq> CHR '']'' \<and> c \<noteq> CHR ''{'' \<and> c \<noteq> CHR ''}''"
  by (auto simp: num_start_def is_digit_def is_ws_def)

lemma render_head:
  assumes "json_ok v"
  shows "\<exists>c r. render nl sp l v = c # r \<and> \<not> is_ws c \<and> c \<noteq> CHR '']'' \<and> c \<noteq> CHR ''}''"
proof (cases v)
  case (JNum raw)
  with assms obtain c r where "raw = c # r" "num_start c" using num_ok_head [of raw] by auto
  with JNum num_start_bytes show ?thesis by simp
qed (auto simp: is_ws_def quoted_def)

lemma num_endI: "is_ws c \<or> c = CHR '']'' \<or> c = CHR ''}'' \<or> c = CHR '','' \<Longrightarrow> num_end (c # t)"
  unfolding is_ws_def num_end_def by (elim disjE) (simp_all add: is_digit_def)

lemma num_end_ws: "all_ws w \<Longrightarrow> num_end t \<Longrightarrow> num_end (w @ t)"
  by (cases w) (simp_all add: all_ws_def num_endI)

lemma skip_ws_render: "json_ok v \<Longrightarrow> all_ws w \<Longrightarrow> skip_ws (w @ render nl sp l v @ t) = render nl sp l v @ t"
  using render_head [of v nl sp l] by auto

lemma parse_render:
  assumes nl: "\<And>l. all_ws (nl l)" and sp: "all_ws sp"
  shows "json_ok v \<Longrightarrow> all_ws w \<Longrightarrow> num_end rest \<Longrightarrow> vsize v \<le> n \<Longrightarrow>
      parse_val n (w @ render nl sp l v @ rest) = Some (v, rest)"
    and "list_all json_ok vs \<Longrightarrow> vs \<noteq> [] \<Longrightarrow> all_ws w \<Longrightarrow> all_ws w' \<Longrightarrow> esize vs \<le> n \<Longrightarrow>
      parse_elems n (w @ render_elems nl sp l vs @ w' @ CHR '']'' # rest) = Some (vs, rest)"
    and "list_all (\<lambda>m. raw_ok (fst m) \<and> json_ok (snd m)) ms \<Longrightarrow> ms \<noteq> [] \<Longrightarrow> all_ws w \<Longrightarrow> all_ws w' \<Longrightarrow> msize ms \<le> n \<Longrightarrow>
      parse_members n (w @ render_members nl sp l ms @ w' @ CHR ''}'' # rest) = Some (ms, rest)"
proof (induction v and vs and ms arbitrary: w rest n l and w w' rest n l and w w' rest n l
    rule: vsize_esize_msize.induct)
  case (1 vs)
  then obtain k where n: "n = Suc k" "esize vs \<le> k" by (cases n) auto
  show ?case
  proof (cases vs)
    case Nil
    with 1 n show ?thesis by (simp add: is_ws_def is_digit_def)
  next
    case (Cons v us)
    have ok: "list_all json_ok vs" using 1 by simp
    obtain c r where h: "render nl sp (Suc l) v = c # r" "\<not> is_ws c" "c \<noteq> CHR '']''"
      using render_head [of v nl sp "Suc l"] ok Cons by auto
    have "skip_ws (nl (Suc l) @ render_elems nl sp (Suc l) vs @ nl l @ CHR '']'' # rest)
        = render_elems nl sp (Suc l) vs @ nl l @ CHR '']'' # rest"
      using nl h Cons by simp
    moreover have "\<exists>r'. render_elems nl sp (Suc l) vs @ nl l @ CHR '']'' # rest = c # r'"
      using h Cons by simp
    moreover have "parse_elems k (nl (Suc l) @ render_elems nl sp (Suc l) vs @ nl l @ CHR '']'' # rest) = Some (vs, rest)"
      using "1.IH" [OF ok _ nl nl n(2)] Cons by blast
    ultimately show ?thesis
      using n h(3) 1(3) Cons by (auto simp: is_ws_def is_digit_def)
  qed
next
  case (2 ms)
  then obtain k where n: "n = Suc k" "msize ms \<le> k" by (cases n) auto
  show ?case
  proof (cases ms)
    case Nil
    with 2 n show ?thesis by (simp add: is_ws_def is_digit_def)
  next
    case (Cons m us)
    have ok: "list_all (\<lambda>m. raw_ok (fst m) \<and> json_ok (snd m)) ms" using 2 by simp
    have "\<exists>r'. render_members nl sp (Suc l) ms = CHR 0x22 # r'"
      using Cons by (cases m) (simp add: quoted_def)
    then obtain r' where r': "render_members nl sp (Suc l) ms = CHR 0x22 # r'" by blast
    have "parse_members k (nl (Suc l) @ render_members nl sp (Suc l) ms @ nl l @ CHR ''}'' # rest) = Some (ms, rest)"
      using "2.IH" [OF ok _ nl nl n(2)] Cons by blast
    then show ?thesis
      using n nl 2(3) Cons r' by (simp add: is_ws_def is_digit_def)
  qed
next
  case (3 raw)
  then obtain k where n: "n = Suc k" by (cases n) auto
  with 3 show ?case by (simp add: quoted_def is_ws_def scan_string_raw)
next
  case (4 raw)
  then obtain k where n: "n = Suc k" by (cases n) auto
  obtain c r where c: "raw = c # r" "num_start c" using 4 num_ok_head [of raw] by auto
  have "scan_number (c # r @ rest) = Some (raw, rest)"
    using scan_number_append [of raw rest] 4 c by simp
  moreover note num_start_bytes [OF c(2)]
  ultimately show ?case using n 4 c by (simp add: num_start_def disj_commute)
next
  case (5 b)
  then obtain k where n: "n = Suc k" by (cases n) auto
  with 5 show ?case by (auto simp: is_ws_def is_digit_def has_prefix_def)
next
  case 6
  then obtain k where n: "n = Suc k" by (cases n) auto
  with 6 show ?case by (simp add: is_ws_def is_digit_def has_prefix_def)
next
  case 7
  then show ?case by simp
next
  case (8 v vs)
  then obtain k where n: "n = Suc k" "vsize v \<le> k" "esize vs \<le> k" by (cases n) auto
  show ?case
  proof (cases "vs = []")
    case True
    have "num_end (w' @ CHR '']'' # rest)" using 8 by (intro num_end_ws num_endI) simp_all
    with 8 n True show ?thesis by (simp add: is_ws_def)
  next
    case False
    let ?r = "nl l @ render_elems nl sp l vs @ w' @ CHR '']'' # rest"
    have "num_end (CHR '','' # ?r)" by (rule num_endI) simp
    moreover have "parse_elems k ?r = Some (vs, rest)"
      using "8.IH"(2) [of "nl l" w' k l rest] 8 nl n False by simp
    ultimately show ?thesis
      using 8 n False by (simp add: is_ws_def)
  qed
next
  case 9
  then show ?case by simp
next
  case (10 kk v ms)
  then obtain k where n: "n = Suc k" "vsize v \<le> k" "msize ms \<le> k" by (cases n) auto
  show ?case
  proof (cases "ms = []")
    case True
    have "num_end (w' @ CHR ''}'' # rest)" using 10 by (intro num_end_ws num_endI) simp_all
    with 10 n True sp show ?thesis by (simp add: is_ws_def quoted_def scan_string_raw)
  next
    case False
    let ?r = "nl l @ render_members nl sp l ms @ w' @ CHR ''}'' # rest"
    have "num_end (CHR '','' # ?r)" by (rule num_endI) simp
    moreover have "parse_members k ?r = Some (ms, rest)"
      using "10.IH"(2) [of "nl l" w' k l rest] 10 nl n False by simp
    ultimately show ?thesis
      using 10 n sp False by (simp add: is_ws_def quoted_def scan_string_raw)
  qed
qed

lemma json_parse_render:
  assumes "\<And>l. all_ws (nl l)" "all_ws sp" "all_ws t" "json_ok v" "json_depth v \<le> max_nesting"
  shows "json_parse (render nl sp 0 v @ t) = Some v"
proof -
  let ?s = "render nl sp 0 v @ t"
  define n where "n = max (vsize v) (2 * length ?s + 2)"
  have "num_end t" using num_end_ws [OF assms(3), of "[]"] by (simp add: num_end_def)
  then have "parse_val n ([] @ ?s) = Some (v, t)"
    using assms by (intro parse_render(1)) (simp_all add: all_ws_def n_def)
  moreover have "parse_val n ?s = parse_val (2 * length ?s + 2) ?s"
    by (rule parse_val_enough) (simp add: n_def)
  moreover have "skip_ws t = []" using skip_ws_append [OF assms(3), of "[]"] by (simp add: skip_ws_def)
  ultimately show ?thesis using assms(5) by (simp add: json_parse_def)
qed

lemma json_parse_compact:
  "json_ok v \<Longrightarrow> json_depth v \<le> max_nesting \<Longrightarrow> all_ws t \<Longrightarrow> json_parse (print_compact v @ t) = Some v"
  unfolding print_compact_def by (rule json_parse_render) (simp_all add: all_ws_def)

lemma json_parse_indent:
  "json_ok v \<Longrightarrow> json_depth v \<le> max_nesting \<Longrightarrow> all_ws t \<Longrightarrow> json_parse (print_indent v @ t) = Some v"
  unfolding print_indent_def
  by (rule json_parse_render) (simp_all add: all_ws_def indent_nl_def is_ws_def list_all_iff)

end
