(* ===== verification/Go_Codec.thy ===== *)
theory Go_Codec
  imports Go_Json
begin

text \<open>
  The value level of \<open>encoding/json\<close>: string escaping and unquoting over UTF-8, integers,
  booleans, times, string maps, and the decoding of an object into a struct by a table
  of fields.
\<close>

subsection \<open>UTF-8\<close>

definition is_cont :: "char \<Rightarrow> bool" where
  "is_cont c = (0x80 \<le> byte c \<and> byte c \<le> 0xBF)"

text \<open>\<open>utf8_len s\<close> is the length of the valid encoding at the head of \<open>s\<close>, 0 if there is none.\<close>

fun utf8_len :: "string \<Rightarrow> nat" where
  "utf8_len [] = 0"
| "utf8_len (a # r) =
     (if byte a < 0x80 then 1
      else if 0xC2 \<le> byte a \<and> byte a \<le> 0xDF then
        (case r of b # _ \<Rightarrow> if is_cont b then 2 else 0 | _ \<Rightarrow> 0)
      else if 0xE0 \<le> byte a \<and> byte a \<le> 0xEF then
        (case r of b # c # _ \<Rightarrow>
           if is_cont b \<and> is_cont c \<and> (byte a = 0xE0 \<longrightarrow> 0xA0 \<le> byte b) \<and> (byte a = 0xED \<longrightarrow> byte b \<le> 0x9F)
           then 3 else 0 | _ \<Rightarrow> 0)
      else if 0xF0 \<le> byte a \<and> byte a \<le> 0xF4 then
        (case r of b # c # d # _ \<Rightarrow>
           if is_cont b \<and> is_cont c \<and> is_cont d \<and> (byte a = 0xF0 \<longrightarrow> 0x90 \<le> byte b) \<and> (byte a = 0xF4 \<longrightarrow> byte b \<le> 0x8F)
           then 4 else 0 | _ \<Rightarrow> 0)
      else 0)"

lemma utf8_chunk:
  assumes "0x80 \<le> byte c" "utf8_len (c # s) \<noteq> 0"
  shows "utf8_len (c # s) \<le> length (c # s)" "list_all (\<lambda>x. 0x80 \<le> byte x) (take (utf8_len (c # s)) (c # s))"
    "utf8_len (take (utf8_len (c # s)) (c # s) @ t) = utf8_len (c # s)"
  using assms by (auto simp: is_cont_def split: if_splits list.splits)

lemma utf8_len_ascii: "byte c < 0x80 \<Longrightarrow> utf8_len (c # s) = 1"
  by simp

declare utf8_len.simps [simp del]

text \<open>\<open>utf8.AppendRune\<close>, with the replacement character for surrogates and out of range.\<close>

definition utf8_encode :: "nat \<Rightarrow> string" where
  "utf8_encode r0 =
     (let r = (if (0xD800 \<le> r0 \<and> r0 \<le> 0xDFFF) \<or> 0x10FFFF < r0 then 0xFFFD else r0)
      in if r < 0x80 then [char_of r]
         else if r < 0x800 then [char_of (0xC0 + r div 64), char_of (0x80 + r mod 64)]
         else if r < 0x10000 then
           [char_of (0xE0 + r div 4096), char_of (0x80 + r div 64 mod 64), char_of (0x80 + r mod 64)]
         else [char_of (0xF0 + r div 262144), char_of (0x80 + r div 4096 mod 64),
               char_of (0x80 + r div 64 mod 64), char_of (0x80 + r mod 64)])"

fun valid_utf8_fuel :: "nat \<Rightarrow> string \<Rightarrow> bool" where
  "valid_utf8_fuel n [] = True"
| "valid_utf8_fuel 0 (c # s) = False"
| "valid_utf8_fuel (Suc n) (c # s) =
     (utf8_len (c # s) \<noteq> 0 \<and> valid_utf8_fuel n (drop (utf8_len (c # s)) (c # s)))"

definition valid_utf8 :: "string \<Rightarrow> bool" where
  "valid_utf8 s = valid_utf8_fuel (length s) s"

subsection \<open>Escaping\<close>

definition hex_char :: "nat \<Rightarrow> char" where
  "hex_char n = (if n < 10 then char_of (48 + n) else char_of (87 + n))"

definition hex_val :: "char \<Rightarrow> nat" where
  "hex_val c = (if byte c \<le> 57 then byte c - 48 else if byte c \<le> 70 then byte c - 55 else byte c - 87)"

text \<open>
  \<open>appendString\<close> with HTML escaping, as \<open>json.Marshal\<close> does it: an ASCII byte is
  \<open>esc_ascii\<close>; an invalid byte becomes \<open>\fffd\<close>; the line separators U+2028 and U+2029
  are escaped; other runes are copied.
\<close>

definition esc_ascii :: "char \<Rightarrow> string" where
  "esc_ascii c =
     (if c = CHR 0x22 \<or> c = CHR 0x5C then [CHR 0x5C, c]
      else if c = CHR 0x08 then [CHR 0x5C, CHR ''b'']
      else if c = CHR 0x0C then [CHR 0x5C, CHR ''f'']
      else if c = CHR 0x0A then [CHR 0x5C, CHR ''n'']
      else if c = CHR 0x0D then [CHR 0x5C, CHR ''r'']
      else if c = CHR 0x09 then [CHR 0x5C, CHR ''t'']
      else if byte c < 32 \<or> c = CHR ''<'' \<or> c = CHR ''>'' \<or> c = CHR ''&''
      then [CHR 0x5C, CHR ''u'', CHR ''0'', CHR ''0'', hex_char (byte c div 16), hex_char (byte c mod 16)]
      else [c])"

definition esc_multi :: "string \<Rightarrow> string" where
  "esc_multi cs =
     (if cs = [CHR 0xE2, CHR 0x80, CHR 0xA8] then CHR 0x5C # ''u2028''
      else if cs = [CHR 0xE2, CHR 0x80, CHR 0xA9] then CHR 0x5C # ''u2029'' else cs)"

function escape :: "string \<Rightarrow> string" where
  "escape [] = []"
| "escape (c # s) =
     (if byte c < 0x80 then esc_ascii c @ escape s
      else if utf8_len (c # s) = 0 then CHR 0x5C # ''ufffd'' @ escape s
      else esc_multi (take (utf8_len (c # s)) (c # s)) @ escape (drop (utf8_len (c # s)) (c # s)))"
  by pat_completeness auto
termination
  by (relation "measure length") (simp_all add: length_drop)

subsection \<open>Unquoting\<close>

definition getu4 :: "string \<Rightarrow> nat option" where
  "getu4 s = (case s of
      b # u # h1 # h2 # h3 # h4 # _ \<Rightarrow>
        if b = CHR 0x5C \<and> u = CHR ''u'' \<and> is_hex h1 \<and> is_hex h2 \<and> is_hex h3 \<and> is_hex h4
        then Some (((hex_val h1 * 16 + hex_val h2) * 16 + hex_val h3) * 16 + hex_val h4) else None
    | _ \<Rightarrow> None)"

text \<open>\<open>utf16.DecodeRune\<close> on a high and a low surrogate.\<close>

definition surrogate_pair :: "nat \<Rightarrow> nat option \<Rightarrow> nat option" where
  "surrogate_pair r q = (case q of None \<Rightarrow> None | Some r1 \<Rightarrow>
      if 0xD800 \<le> r \<and> r < 0xDC00 \<and> 0xDC00 \<le> r1 \<and> r1 < 0xE000
      then Some ((r - 0xD800) * 1024 + (r1 - 0xDC00) + 0x10000) else None)"

definition unesc_char :: "char \<Rightarrow> char" where
  "unesc_char e = (if e = CHR ''b'' then CHR 0x08 else if e = CHR ''f'' then CHR 0x0C
     else if e = CHR ''n'' then CHR 0x0A else if e = CHR ''r'' then CHR 0x0D
     else if e = CHR ''t'' then CHR 0x09 else e)"

function unquote :: "string \<Rightarrow> string" where
  "unquote [] = []"
| "unquote (c # s) =
     (if c = CHR 0x5C then
        (case s of
           [] \<Rightarrow> []
         | e # s' \<Rightarrow>
             if e = CHR ''u'' then
               (case getu4 (c # s) of
                  None \<Rightarrow> []
                | Some r \<Rightarrow>
                    (case surrogate_pair r (getu4 (drop 4 s')) of
                       Some p \<Rightarrow> utf8_encode p @ unquote (drop 10 s')
                     | None \<Rightarrow> utf8_encode r @ unquote (drop 4 s')))
             else unesc_char e # unquote s')
      else if byte c < 0x80 then c # unquote s
      else if utf8_len (c # s) = 0 then utf8_encode 0xFFFD @ unquote s
      else take (utf8_len (c # s)) (c # s) @ unquote (drop (utf8_len (c # s)) (c # s)))"
  by pat_completeness auto
termination
  by (relation "measure length") (simp_all add: length_drop)

subsection \<open>Unquoting undoes escaping\<close>

lemma hex_char_props:
  assumes "n < 16"
  shows "is_hex (hex_char n)" "hex_val (hex_char n) = n"
proof -
  have "byte (hex_char n) = (if n < 10 then 48 + n else 87 + n)"
    using assms by (simp add: hex_char_def)
  with assms show "is_hex (hex_char n)" "hex_val (hex_char n) = n"
    by (auto simp: is_hex_def hex_val_def is_digit_def)
qed

lemma prepend_prepend [simp]: "prepend a (prepend b x) = prepend (a @ b) x"
  by (cases x) (auto simp: prepend_def)

lemma scan_string_high: "list_all (\<lambda>x. 0x80 \<le> byte x) xs \<Longrightarrow> scan_string (xs @ t) = prepend xs (scan_string t)"
proof (induction xs)
  case Nil
  then show ?case by (cases "scan_string t") (auto simp: prepend_def)
next
  case (Cons c xs)
  then have "c \<noteq> CHR 0x22" "c \<noteq> CHR 0x5C" "\<not> byte c < 32" by auto
  with Cons show ?case by simp
qed

lemma scan_esc_ascii: "scan_string (esc_ascii c @ t) = prepend (esc_ascii c) (scan_string t)"
proof (cases "byte c < 32 \<or> c = CHR ''<'' \<or> c = CHR ''>'' \<or> c = CHR ''&''")
  case False
  then show ?thesis by (simp add: esc_ascii_def)
next
  case True
  then have "byte c div 16 < 16" by auto
  with hex_char_props(1) [of "byte c div 16"] hex_char_props(1) [of "byte c mod 16"] show ?thesis
    by (simp add: esc_ascii_def is_hex_def is_digit_def)
qed

lemma scan_esc_multi:
  "list_all (\<lambda>x. 0x80 \<le> byte x) xs \<Longrightarrow> scan_string (esc_multi xs @ t) = prepend (esc_multi xs) (scan_string t)"
  by (simp add: esc_multi_def is_hex_def is_digit_def scan_string_high)

lemma scan_escape: "scan_string (escape s @ t) = prepend (escape s) (scan_string t)"
proof (induction s rule: escape.induct)
  case 1
  then show ?case by (cases "scan_string t") (auto simp: prepend_def)
next
  case (2 c s)
  consider (a) "byte c < 0x80" | (b) "\<not> byte c < 0x80" "utf8_len (c # s) = 0"
    | (m) "\<not> byte c < 0x80" "utf8_len (c # s) \<noteq> 0" by blast
  then show ?case
  proof cases
    case a
    with 2(1) show ?thesis by (simp add: scan_esc_ascii)
  next
    case b
    with 2(2) show ?thesis by (simp add: is_hex_def is_digit_def)
  next
    case m
    then have "list_all (\<lambda>x. 0x80 \<le> byte x) (take (utf8_len (c # s)) (c # s))"
      by (intro utf8_chunk(2)) simp_all
    note h = scan_esc_multi [OF this]
    have "escape (c # s) = esc_multi (take (utf8_len (c # s)) (c # s)) @ escape (drop (utf8_len (c # s)) (c # s))"
      using m by simp
    then show ?thesis by (simp only: append_assoc h 2(3) [OF m] prepend_prepend)
  qed
qed

lemma raw_ok_escape: "raw_ok (escape s)"
  by (simp add: raw_ok_def scan_escape prepend_def)

lemma unquote_esc_ascii:
  assumes "byte c < 0x80"
  shows "unquote (esc_ascii c @ t) = c # unquote t"
proof (cases "byte c < 32 \<or> c = CHR ''<'' \<or> c = CHR ''>'' \<or> c = CHR ''&''")
  case False
  with assms show ?thesis by (auto simp: esc_ascii_def unesc_char_def)
next
  case True
  show ?thesis
  proof (cases "c = CHR 0x08 \<or> c = CHR 0x0C \<or> c = CHR 0x0A \<or> c = CHR 0x0D \<or> c = CHR 0x09")
    case True
    then show ?thesis by (elim disjE) (simp_all add: esc_ascii_def unesc_char_def)
  next
    case False
    have h: "byte c div 16 < 16" using True by auto
    have e: "esc_ascii c = [CHR 0x5C, CHR ''u'', CHR ''0'', CHR ''0'', hex_char (byte c div 16), hex_char (byte c mod 16)]"
    proof -
      have "byte c < 32 \<Longrightarrow> c \<noteq> CHR 0x22 \<and> c \<noteq> CHR 0x5C" by auto
      moreover have "c = CHR ''<'' \<or> c = CHR ''>'' \<or> c = CHR ''&'' \<Longrightarrow> c \<noteq> CHR 0x22 \<and> c \<noteq> CHR 0x5C"
        by (elim disjE) simp_all
      ultimately have "c \<noteq> CHR 0x22 \<and> c \<noteq> CHR 0x5C" using \<open>byte c < 32 \<or> c = CHR ''<'' \<or> c = CHR ''>'' \<or> c = CHR ''&''\<close>
        by blast
      with False \<open>byte c < 32 \<or> c = CHR ''<'' \<or> c = CHR ''>'' \<or> c = CHR ''&''\<close> show ?thesis
        by (simp only: esc_ascii_def de_Morgan_disj not_False_eq_True if_False if_True simp_thms)
    qed
    have g: "getu4 (esc_ascii c @ t) = Some (byte c)"
      using hex_char_props [OF h] hex_char_props [of "byte c mod 16"]
      by (simp add: e getu4_def is_hex_def is_digit_def hex_val_def)
    have p: "surrogate_pair (byte c) x = None" for x
      using assms by (simp add: surrogate_pair_def split: option.split)
    have u: "utf8_encode (byte c) = [c]"
      using assms by (simp add: utf8_encode_def)
    show ?thesis using g p u by (simp add: e)
  qed
qed

lemma unquote_esc_multi:
  assumes "0x80 \<le> byte d" "utf8_len (d # ds @ t) = Suc (length ds)"
  shows "unquote (esc_multi (d # ds) @ t) = d # ds @ unquote t"
proof (cases "d # ds = [CHR 0xE2, CHR 0x80, CHR 0xA8] \<or> d # ds = [CHR 0xE2, CHR 0x80, CHR 0xA9]")
  case True
  have g: "getu4 (CHR 0x5C # ''u2028'' @ t) = Some 0x2028" "getu4 (CHR 0x5C # ''u2029'' @ t) = Some 0x2029"
    by (simp_all add: getu4_def is_hex_def is_digit_def hex_val_def)
  have u1: "utf8_encode 0x2028 = [CHR 0xE2, CHR 0x80, CHR 0xA8]"
    by (simp add: utf8_encode_def char_of_def bit_Suc_0_iff)
  have u2: "utf8_encode 0x2029 = [CHR 0xE2, CHR 0x80, CHR 0xA9]"
    by (simp add: utf8_encode_def char_of_def bit_Suc_0_iff)
  note u = u1 u2
  have "surrogate_pair 0x2028 x = None" "surrogate_pair 0x2029 x = None" for x
    by (simp_all add: surrogate_pair_def split: option.split)
  then have q: "unquote (CHR 0x5C # ''u2028'' @ t) = [CHR 0xE2, CHR 0x80, CHR 0xA8] @ unquote t"
    "unquote (CHR 0x5C # ''u2029'' @ t) = [CHR 0xE2, CHR 0x80, CHR 0xA9] @ unquote t"
    using g u by (simp_all add: unquote.simps(2) [of "CHR 0x5C"] del: unquote.simps)
  from True show ?thesis
  proof
    assume d: "d # ds = [CHR 0xE2, CHR 0x80, CHR 0xA8]"
    then have "esc_multi (d # ds) = CHR 0x5C # ''u2028''" by (simp add: esc_multi_def)
    then show ?thesis using d q(1) by (simp del: unquote.simps)
  next
    assume d: "d # ds = [CHR 0xE2, CHR 0x80, CHR 0xA9]"
    then have "esc_multi (d # ds) = CHR 0x5C # ''u2029''" by (simp add: esc_multi_def)
    then show ?thesis using d q(2) by (simp del: unquote.simps)
  qed
next
  case False
  from assms(1) have "d \<noteq> CHR 0x5C" by auto
  with assms have "unquote (d # ds @ t) = d # ds @ unquote t" by simp
  moreover from False have "esc_multi (d # ds) = d # ds" by (auto simp add: esc_multi_def)
  ultimately show ?thesis by (simp del: unquote.simps)
qed

lemma unquote_escape_fuel: "valid_utf8_fuel n s \<Longrightarrow> unquote (escape s) = s"
proof (induction s arbitrary: n rule: escape.induct)
  case (2 c s)
  then obtain k where k: "utf8_len (c # s) \<noteq> 0" "valid_utf8_fuel k (drop (utf8_len (c # s)) (c # s))"
    by (cases n) auto
  show ?case
  proof (cases "byte c < 0x80")
    case True
    with 2(1) [OF True, of k] k show ?thesis by (simp add: unquote_esc_ascii utf8_len_ascii)
  next
    case False
    let ?k = "utf8_len (c # s)"
    have ch: "?k \<le> length (c # s)" "utf8_len (take ?k (c # s) @ x) = ?k" for x
      using utf8_chunk [of c s] False k(1) by simp_all
    obtain ds where ds: "take ?k (c # s) = c # ds" "Suc (length ds) = ?k"
      using ch(1) k(1) by (cases ?k) auto
    have "unquote (escape (c # s)) = unquote (esc_multi (take ?k (c # s)) @ escape (drop ?k (c # s)))"
      using False k(1) by simp
    also have "\<dots> = take ?k (c # s) @ unquote (escape (drop ?k (c # s)))"
      using ch(2) False unfolding ds(1) by (subst unquote_esc_multi) (simp_all add: ds(2))
    also have "\<dots> = c # s" by (simp only: 2(3) [OF False k(1) k(2)] append_take_drop_id)
    finally show ?thesis .
  qed
qed simp

lemma unquote_escape: "valid_utf8 s \<Longrightarrow> unquote (escape s) = s"
  unfolding valid_utf8_def by (rule unquote_escape_fuel)

subsection \<open>Scalars\<close>

text \<open>
  A decoder takes the tree and the old value of its target: JSON \<open>null\<close> leaves a
  non-pointer target as it is, and a tree of the wrong kind is an error.
\<close>

fun nat_text :: "nat \<Rightarrow> string" where
  "nat_text n = (if n < 10 then [digit_char (int n)] else nat_text (n div 10) @ [digit_char (int (n mod 10))])"

declare nat_text.simps [simp del]

definition int_text :: "int \<Rightarrow> string" where
  "int_text i = (if i < 0 then CHR ''-'' # nat_text (nat (- i)) else nat_text (nat i))"

definition parse_int64 :: "string \<Rightarrow> int64 option" where
  "parse_int64 raw =
     (let (neg, ds) = (case raw of c # r \<Rightarrow> if c = CHR ''-'' then (True, r) else (False, raw) | [] \<Rightarrow> (False, raw))
      in case digits_val 0 ds of
           None \<Rightarrow> None
         | Some v \<Rightarrow> (let i = (if neg then - v else v)
                     in if - (2 ^ 63) \<le> i \<and> i < 2 ^ 63 then Some (word_of_int i) else None))"

definition enc_string :: "string \<Rightarrow> json" where
  "enc_string s = JStr (escape s)"

definition enc_int64 :: "int64 \<Rightarrow> json" where
  "enc_int64 w = JNum (int_text (sint w))"

fun dec_string :: "json \<Rightarrow> string \<Rightarrow> string option" where
  "dec_string JNull old = Some old"
| "dec_string (JStr raw) old = Some (unquote raw)"
| "dec_string _ old = None"

fun dec_bool :: "json \<Rightarrow> bool \<Rightarrow> bool option" where
  "dec_bool JNull old = Some old"
| "dec_bool (JBool b) old = Some b"
| "dec_bool _ old = None"

fun dec_int64 :: "json \<Rightarrow> int64 \<Rightarrow> int64 option" where
  "dec_int64 JNull old = Some old"
| "dec_int64 (JNum raw) old = parse_int64 raw"
| "dec_int64 _ old = None"

text \<open>\<open>Time.UnmarshalJSON\<close> reads the literal between the quotes, without unquoting it.\<close>

fun dec_time :: "json \<Rightarrow> gotime \<Rightarrow> gotime option" where
  "dec_time JNull old = Some old"
| "dec_time (JStr raw) old = parse_time raw"
| "dec_time _ old = None"

fun dec_time_ptr :: "json \<Rightarrow> gotime option \<Rightarrow> gotime option option" where
  "dec_time_ptr JNull old = Some None"
| "dec_time_ptr (JStr raw) old = map_option Some (parse_time raw)"
| "dec_time_ptr _ old = None"

lemma dec_enc_string: "valid_utf8 s \<Longrightarrow> dec_string (enc_string s) old = Some s"
  by (simp add: enc_string_def unquote_escape)

lemma nat_text_not_Nil: "nat_text n \<noteq> []"
  by (simp add: nat_text.simps [of n])

lemma nat_text_digits: "list_all is_digit (nat_text n)"
  by (induction n rule: nat_text.induct) (simp add: nat_text.simps)

lemma digits_val_nat_text: "digits_val 0 (nat_text n) = Some (int n)"
proof (induction n rule: nat_text.induct)
  case (1 n)
  show ?case
  proof (cases "n < 10")
    case True
    then show ?thesis by (simp add: nat_text.simps [of n])
  next
    case False
    have "int (n div 10) * 10 + int (n mod 10) = int n"
      using div_mult_mod_eq [of n 10] by (metis of_nat_add of_nat_mult of_nat_numeral)
    with 1 False show ?thesis by (simp add: nat_text.simps [of n] digits_val_append)
  qed
qed

lemma digit_not_minus: "is_digit c \<Longrightarrow> c \<noteq> CHR ''-''"
  by (auto simp: is_digit_def)

lemma parse_int_text:
  assumes "- (2 ^ 63) \<le> i" "i < 2 ^ 63"
  shows "parse_int64 (int_text i) = Some (word_of_int i)"
proof (cases "i < 0")
  case True
  with assms show ?thesis by (simp add: parse_int64_def int_text_def digits_val_nat_text)
next
  case False
  obtain c r where c: "nat_text (nat i) = c # r" using nat_text_not_Nil [of "nat i"] by (cases "nat_text (nat i)") auto
  then have "c \<noteq> CHR ''-''" using nat_text_digits [of "nat i"] digit_not_minus by simp
  with False assms c show ?thesis
    using digits_val_nat_text [of "nat i"] by (simp add: parse_int64_def int_text_def)
qed

lemma dec_enc_int64: "dec_int64 (enc_int64 w) old = Some w"
proof -
  have "- (2 ^ 63) \<le> sint w" "sint w < 2 ^ 63"
    using sint_greater_eq [of w] sint_less [of w] by simp_all
  then show ?thesis by (simp add: enc_int64_def parse_int_text)
qed

lemma nat_text_head: "n \<noteq> 0 \<Longrightarrow> hd (nat_text n) \<noteq> CHR ''0''"
proof (induction n rule: nat_text.induct)
  case (1 n)
  show ?case
  proof (cases "n < 10")
    case True
    have "byte (digit_char (int n)) = 48 + n" using True byte_digit_char [of "int n"] by simp
    with 1(2) have "digit_char (int n) \<noteq> CHR ''0''" by auto
    with True show ?thesis by (simp add: nat_text.simps [of n])
  next
    case False
    with 1 nat_text_not_Nil show ?thesis by (simp add: nat_text.simps [of n])
  qed
qed

lemma all_digits_of: "list_all is_digit s \<Longrightarrow> digits_of s = s \<and> dropWhile is_digit s = []"
  by (induction s) (auto simp: digits_of_def)

lemma scan_nat_text: "scan_int (nat_text n) = Some (nat_text n, [])"
proof (cases "n = 0")
  case True
  have "digit_char 0 = CHR ''0''" by (simp add: digit_char_def char_of_def bit_Suc_0_iff)
  with True show ?thesis by (simp add: nat_text.simps [of 0] scan_int_def)
next
  case False
  obtain c r where c: "nat_text n = c # r" using nat_text_not_Nil by (cases "nat_text n") auto
  with nat_text_head [OF False] nat_text_digits [of n] all_digits_of [of "c # r"] show ?thesis
    by (simp add: scan_int_def)
qed

lemma num_ok_int_text: "num_ok (int_text i)"
proof -
  obtain c r where c: "nat_text (nat i) = c # r" using nat_text_not_Nil [of "nat i"] by (cases "nat_text (nat i)") auto
  then have "c \<noteq> CHR ''-''" using nat_text_digits [of "nat i"] digit_not_minus by simp
  then show ?thesis
    using scan_nat_text [of "nat i"] scan_nat_text [of "nat (- i)"] c
    by (simp add: num_ok_def scan_number_def int_text_def scan_frac_def scan_exp_def)
qed

subsection \<open>String maps\<close>

text \<open>
  A Go \<open>map[string]string\<close> is kept as its list of entries in increasing order of keys;
  \<open>map_put\<close> assigns one key.  A nil and an empty map are both the empty list: the fields
  that hold one are all \<open>omitempty\<close>.  \<open>Marshal\<close> writes the keys in sorted order.
\<close>

type_synonym str_map = "(string \<times> string) list"

definition map_ok :: "str_map \<Rightarrow> bool" where
  "map_ok m = (sorted_wrt (<) (map fst m) \<and> list_all (\<lambda>e. valid_utf8 (fst e) \<and> valid_utf8 (snd e)) m)"

fun map_put :: "string \<Rightarrow> string \<Rightarrow> str_map \<Rightarrow> str_map" where
  "map_put k v [] = [(k, v)]"
| "map_put k v (e # m) =
     (if k < fst e then (k, v) # e # m else if k = fst e then (k, v) # m else e # map_put k v m)"

definition enc_map :: "str_map \<Rightarrow> json" where
  "enc_map m = JObj (map (\<lambda>e. (escape (fst e), enc_string (snd e))) (sort_key fst m))"

fun dec_map_entries :: "(string \<times> json) list \<Rightarrow> str_map \<Rightarrow> str_map option" where
  "dec_map_entries [] m = Some m"
| "dec_map_entries ((k, v) # es) m =
     (case dec_string v [] of None \<Rightarrow> None | Some s \<Rightarrow> dec_map_entries es (map_put (unquote k) s m))"

fun dec_map :: "json \<Rightarrow> str_map \<Rightarrow> str_map option" where
  "dec_map JNull old = Some []"
| "dec_map (JObj es) old = dec_map_entries es old"
| "dec_map _ old = None"

lemma map_put_last: "\<forall>x \<in> set (map fst m). x < k \<Longrightarrow> map_put k v m = m @ [(k, v)]"
  by (induction m) (auto dest: less_not_sym)

lemma dec_map_sorted:
  "sorted_wrt (<) (map fst (m @ es)) \<Longrightarrow> list_all (\<lambda>e. valid_utf8 (fst e) \<and> valid_utf8 (snd e)) es \<Longrightarrow>
   dec_map_entries (map (\<lambda>e. (escape (fst e), enc_string (snd e))) es) m = Some (m @ es)"
proof (induction es arbitrary: m)
  case (Cons e es)
  obtain k v where e: "e = (k, v)" by (cases e)
  have "map_put k v m = m @ [e]"
    using Cons.prems(1) by (simp add: e map_put_last sorted_wrt_append)
  with Cons.IH [of "m @ [e]"] Cons.prems show ?case
    by (simp add: e dec_enc_string unquote_escape)
qed simp

lemma sort_key_sorted: "sorted_wrt (<) (map fst m) \<Longrightarrow> sort_key fst m = m"
  by (metis strict_sorted_iff sort_key_id_if_sorted)

lemma dec_enc_map: "map_ok m \<Longrightarrow> dec_map (enc_map m) [] = Some m"
  using dec_map_sorted [of "[]" m] by (simp add: map_ok_def enc_map_def sort_key_sorted)

lemma enc_map_ok: "json_ok (enc_map m)" "json_depth (enc_map m) \<le> 1"
proof -
  show "json_ok (enc_map m)"
    by (simp add: enc_map_def list_all_iff raw_ok_escape enc_string_def)
  have "foldr max (map (\<lambda>e. json_depth (snd e)) (map (\<lambda>e. (escape (fst e), enc_string (snd e))) es)) 0 = 0" for es :: str_map
    by (induction es) (simp_all add: enc_string_def)
  then show "json_depth (enc_map m) \<le> 1" by (simp add: enc_map_def comp_def)
qed

subsection \<open>Structs\<close>

text \<open>
  A field table gives for each JSON name how the value updates the struct.  A key selects
  the field of exactly that name, or else the first whose name agrees under
  \<open>foldName\<close> (ASCII letters, and the two runes that fold to S and K).  Unknown keys are
  skipped, later keys win, \<open>null\<close> leaves the struct as it is.
\<close>

definition upper :: "char \<Rightarrow> char" where
  "upper c = (if 97 \<le> byte c \<and> byte c \<le> 122 then char_of (byte c - 32) else c)"

function fold_name :: "string \<Rightarrow> string" where
  "fold_name [] = []"
| "fold_name (c # s) =
     (if has_prefix (c # s) [CHR 0xC5, CHR 0xBF] then CHR ''S'' # fold_name (drop 1 s)
      else if has_prefix (c # s) [CHR 0xE2, CHR 0x84, CHR 0xAA] then CHR ''K'' # fold_name (drop 2 s)
      else upper c # fold_name s)"
  by pat_completeness auto
termination
  by (relation "measure length") (simp_all add: length_drop)

type_synonym 'a fields = "(string \<times> (json \<Rightarrow> 'a \<Rightarrow> 'a option)) list"

definition find_field :: "'a fields \<Rightarrow> string \<Rightarrow> (json \<Rightarrow> 'a \<Rightarrow> 'a option) option" where
  "find_field fs k =
     (case map_of fs k of
        Some f \<Rightarrow> Some f
      | None \<Rightarrow> map_option snd (find (\<lambda>p. fold_name (fst p) = fold_name k) fs))"

fun dec_members :: "'a fields \<Rightarrow> (string \<times> json) list \<Rightarrow> 'a \<Rightarrow> 'a option" where
  "dec_members fs [] a = Some a"
| "dec_members fs ((k, v) # ms) a =
     (case find_field fs (unquote k) of
        None \<Rightarrow> dec_members fs ms a
      | Some f \<Rightarrow> (case f v a of None \<Rightarrow> None | Some a' \<Rightarrow> dec_members fs ms a'))"

fun dec_struct :: "'a fields \<Rightarrow> json \<Rightarrow> 'a \<Rightarrow> 'a option" where
  "dec_struct fs JNull a = Some a"
| "dec_struct fs (JObj ms) a = dec_members fs ms a"
| "dec_struct fs _ a = None"

definition dec_field :: "(json \<Rightarrow> 'b \<Rightarrow> 'b option) \<Rightarrow> ('a \<Rightarrow> 'b) \<Rightarrow> ('b \<Rightarrow> 'a \<Rightarrow> 'a) \<Rightarrow> json \<Rightarrow> 'a \<Rightarrow> 'a option" where
  "dec_field dec get put j a = map_option (\<lambda>v. put v a) (dec j (get a))"

text \<open>\<open>omit\<close> is a member that \<open>omitempty\<close> may leave out.\<close>

definition omit :: "bool \<Rightarrow> string \<Rightarrow> json \<Rightarrow> (string \<times> json) list" where
  "omit b k v = (if b then [] else [(k, v)])"

lemma dec_members_append:
  "dec_members fs (ms @ ns) a = (case dec_members fs ms a of None \<Rightarrow> None | Some b \<Rightarrow> dec_members fs ns b)"
  by (induction fs ms a rule: dec_members.induct) (auto split: option.split)

lemma dec_members_exact:
  "map_of fs (unquote k) = Some f \<Longrightarrow> f v a = Some a' \<Longrightarrow>
   dec_members fs ((k, v) # ms) a = dec_members fs ms a'"
  by (simp add: find_field_def)

text \<open>Arrays of structs: \<open>null\<close> is the nil slice, as is the empty one here.\<close>

fun dec_elems :: "(json \<Rightarrow> 'a option) \<Rightarrow> json list \<Rightarrow> 'a list option" where
  "dec_elems d [] = Some []"
| "dec_elems d (v # vs) = (case d v of None \<Rightarrow> None | Some x \<Rightarrow> map_option ((#) x) (dec_elems d vs))"

fun dec_slice :: "(json \<Rightarrow> 'a option) \<Rightarrow> json \<Rightarrow> 'a list option" where
  "dec_slice d JNull = Some []"
| "dec_slice d (JArr vs) = dec_elems d vs"
| "dec_slice d _ = None"

lemma dec_elems_map: "list_all (\<lambda>x. d (e x) = Some x) xs \<Longrightarrow> dec_elems d (map e xs) = Some xs"
  by (induction xs) auto

subsection \<open>Times\<close>

text \<open>A marshalled time is plain ASCII, so it is its own literal.\<close>

definition plain_char :: "char \<Rightarrow> bool" where
  "plain_char c = (c \<noteq> CHR 0x22 \<and> c \<noteq> CHR 0x5C \<and> \<not> byte c < 32)"

lemma raw_ok_plain: "list_all plain_char s \<Longrightarrow> raw_ok s"
proof -
  have "list_all plain_char s \<Longrightarrow> scan_string (s @ [CHR 0x22]) = Some (s, [])"
    by (induction s) (auto simp: plain_char_def prepend_def)
  then show "list_all plain_char s \<Longrightarrow> raw_ok s" by (simp add: raw_ok_def)
qed

lemma plain_digit: "is_digit c \<Longrightarrow> plain_char c"
  by (auto simp: plain_char_def is_digit_def)

lemma plain_pad: "list_all plain_char (pad k n)"
  using is_digit_pad plain_digit by (auto simp: list_all_iff)

lemma strip_zeros_sub: "set (strip_zeros s) \<subseteq> set s"
  by (auto simp: strip_zeros_def dest: set_dropWhileD)

lemma raw_ok_time: "marshal_time t = Some s \<Longrightarrow> raw_ok s"
proof (rule raw_ok_plain)
  assume "marshal_time t = Some s"
  then obtain y m k where s: "s = date_text y m k (local_sec t) @ frac_text (tns t mod 1000000000) @ zone_text (tzone t)"
    by (auto simp: marshal_time_def split: if_splits prod.splits)
  have "list_all plain_char (strip_zeros (pad 9 n))" for n
    using plain_pad [of 9 n] strip_zeros_sub by (auto simp: list_all_iff)
  moreover have "plain_char CHR ''-''" "plain_char CHR ''+''" "plain_char CHR '':''" "plain_char CHR ''.''"
    "plain_char CHR ''T''" "plain_char CHR ''Z''"
    by (simp_all add: plain_char_def)
  ultimately show "list_all plain_char s"
    by (simp add: s date_text_def frac_text_def zone_text_def plain_pad)
qed

definition enc_time :: "gotime \<Rightarrow> json option" where
  "enc_time t = map_option JStr (marshal_time t)"

lemma dec_enc_time:
  assumes "enc_time t = Some j"
  shows "dec_time j old = Some t" "dec_time_ptr j oldp = Some (Some t)" "json_ok j" "json_depth j = 0"
  using assms by (auto simp: enc_time_def parse_marshal_time raw_ok_time)

subsection \<open>Members, optional times and arrays\<close>

definition enc_time_ptr :: "string \<Rightarrow> gotime option \<Rightarrow> (string \<times> json) list option" where
  "enc_time_ptr k t =
     (case t of None \<Rightarrow> Some [] | Some x \<Rightarrow> (case enc_time x of None \<Rightarrow> None | Some j \<Rightarrow> Some [(k, j)]))"

fun enc_all :: "('a \<Rightarrow> json option) \<Rightarrow> 'a list \<Rightarrow> json list option" where
  "enc_all f [] = Some []"
| "enc_all f (x # xs) = (case f x of None \<Rightarrow> None | Some j \<Rightarrow> map_option ((#) j) (enc_all f xs))"

lemma unquote_plain: "list_all (\<lambda>c. c \<noteq> CHR 0x5C \<and> byte c < 0x80) s \<Longrightarrow> unquote s = s"
  by (induction s rule: unquote.induct) (simp_all add: utf8_len_ascii)

lemma dec_members_omit:
  "dec_members fs (omit b k v @ ms) a = (if b then dec_members fs ms a else dec_members fs ((k, v) # ms) a)"
  "dec_members fs (omit b k v) a = (if b then Some a else dec_members fs [(k, v)] a)"
  by (simp_all add: omit_def)

lemma list_all_omit [simp]: "list_all P (omit b k v) = (\<not> b \<longrightarrow> P (k, v))"
  by (simp add: omit_def)

lemma json_depth_obj: "json_depth (JObj ms) \<le> Suc k \<longleftrightarrow> list_all (\<lambda>m. json_depth (snd m) \<le> k) ms"
  by (induction ms) auto

lemma raw_ok_key: "list_all plain_char k \<Longrightarrow> raw_ok k"
  by (rule raw_ok_plain)

lemma json_enc_string [simp]: "json_ok (enc_string s)" "json_depth (enc_string s) = 0"
  by (simp_all add: enc_string_def raw_ok_escape)

lemma json_enc_int64 [simp]: "json_ok (enc_int64 w)" "json_depth (enc_int64 w) = 0"
  by (simp_all add: enc_int64_def num_ok_int_text)

lemma enc_time_ptr_ok:
  assumes "enc_time_ptr k t = Some je" "raw_ok k"
  shows "list_all (\<lambda>m. raw_ok (fst m) \<and> json_ok (snd m)) je" "list_all (\<lambda>m. json_depth (snd m) \<le> n) je"
  using assms dec_enc_time(3,4) by (auto simp: enc_time_ptr_def split: option.splits)

lemma dec_enc_all:
  "enc_all enc xs = Some js \<Longrightarrow> \<forall>x \<in> set xs. \<forall>j. enc x = Some j \<longrightarrow> dec j = Some x \<Longrightarrow> dec_elems dec js = Some xs"
  by (induction xs arbitrary: js) (auto split: option.splits)

lemma json_arr:
  "enc_all enc xs = Some js \<Longrightarrow> \<forall>x j. enc x = Some j \<longrightarrow> json_ok j \<and> json_depth j \<le> k \<Longrightarrow>
   json_ok (JArr js) \<and> json_depth (JArr js) \<le> Suc k"
  by (induction xs arbitrary: js) (auto split: option.splits)

end
