(* ===== verification/Ledger.thy ===== *)
theory Ledger
  imports Store_Interface Go_Codec
begin

text \<open>
  The package \<open>token\<close> (\<open>token.go\<close>): the ledger of issued tokens.  A ledger is the path of
  its file.  The process-wide mutex makes each operation one transaction (\<open>Ledger_Mutex\<close>), so operations are
  functions from the world before to the world after.  The nil slice and the empty one are
  the empty list; the code only ever saves the nil one, which is written as \<open>null\<close>.
\<close>

subsection \<open>Metadata\<close>

record metadata =
  md_provider :: string
  md_name :: string
  md_id :: string
  md_issued :: gotime
  md_expires :: "gotime option"
  md_scope :: str_map
  md_master_key :: string
  md_source :: string

definition is_expired :: "metadata \<Rightarrow> world \<Rightarrow> bool \<times> world" where
  "is_expired m w =
     (case md_expires m of
        None \<Rightarrow> (False, w)
      | Some x \<Rightarrow> (case time_now w of (t, w1) \<Rightarrow> (t_after t x, w1)))"

definition expires_within :: "metadata \<Rightarrow> duration \<Rightarrow> world \<Rightarrow> bool \<times> world" where
  "expires_within m d w =
     (case md_expires m of
        None \<Rightarrow> (False, w)
      | Some x \<Rightarrow> (case time_now w of (t, w1) \<Rightarrow> (t_after (t_add t d) x, w1)))"

subsection \<open>The JSON form\<close>

definition enc_metadata :: "metadata \<Rightarrow> json option" where
  "enc_metadata m =
     (case enc_time (md_issued m) of
        None \<Rightarrow> None
      | Some ji \<Rightarrow>
     (case enc_time_ptr ''expires_at'' (md_expires m) of
        None \<Rightarrow> None
      | Some je \<Rightarrow>
          Some (JObj ([(''provider'', enc_string (md_provider m)), (''name'', enc_string (md_name m))] @
            omit (md_id m = []) ''id'' (enc_string (md_id m)) @
            [(''issued_at'', ji)] @ je @
            omit (md_scope m = []) ''scope'' (enc_map (md_scope m)) @
            omit (md_master_key m = []) ''master_key'' (enc_string (md_master_key m)) @
            omit (md_source m = []) ''source'' (enc_string (md_source m))))))"

definition zero_metadata :: metadata where
  "zero_metadata = \<lparr>md_provider = [], md_name = [], md_id = [], md_issued = zero_time, md_expires = None,
     md_scope = [], md_master_key = [], md_source = []\<rparr>"

definition metadata_fields :: "metadata fields" where
  "metadata_fields =
     [(''provider'', dec_field dec_string md_provider (\<lambda>v m. m\<lparr>md_provider := v\<rparr>)),
      (''name'', dec_field dec_string md_name (\<lambda>v m. m\<lparr>md_name := v\<rparr>)),
      (''id'', dec_field dec_string md_id (\<lambda>v m. m\<lparr>md_id := v\<rparr>)),
      (''issued_at'', dec_field dec_time md_issued (\<lambda>v m. m\<lparr>md_issued := v\<rparr>)),
      (''expires_at'', dec_field dec_time_ptr md_expires (\<lambda>v m. m\<lparr>md_expires := v\<rparr>)),
      (''scope'', dec_field dec_map md_scope (\<lambda>v m. m\<lparr>md_scope := v\<rparr>)),
      (''master_key'', dec_field dec_string md_master_key (\<lambda>v m. m\<lparr>md_master_key := v\<rparr>)),
      (''source'', dec_field dec_string md_source (\<lambda>v m. m\<lparr>md_source := v\<rparr>))]"

definition dec_metadata :: "json \<Rightarrow> metadata option" where
  "dec_metadata j = dec_struct metadata_fields j zero_metadata"

definition enc_entries :: "metadata list \<Rightarrow> json option" where
  "enc_entries es = (if es = [] then Some JNull else map_option JArr (enc_all enc_metadata es))"

text \<open>The bytes \<open>saveLocked\<close> writes and \<open>loadLocked\<close> parses.\<close>

definition ledger_text :: "metadata list \<Rightarrow> string option" where
  "ledger_text es = map_option (\<lambda>j. print_indent j @ [CHR 0x0A]) (enc_entries es)"

definition parse_ledger :: "string \<Rightarrow> metadata list option" where
  "parse_ledger data = (case json_parse data of None \<Rightarrow> None | Some j \<Rightarrow> dec_slice dec_metadata j)"

subsection \<open>Transactions\<close>

definition load_locked :: "string \<Rightarrow> metadata list io" where
  "load_locked path w =
     (case read_secure path w of
        (Inl e, w1) \<Rightarrow> if is_not_exist e then (Inr [], w1) else (Inl (WrapErr ''read ledger: '' e), w1)
      | (Inr data, w1) \<Rightarrow>
          (case parse_ledger data of
             None \<Rightarrow> (Inl (WrapErr ''parse ledger: '' (MsgErr ''json'')), w1)
           | Some es \<Rightarrow> (Inr es, w1)))"

definition save_locked :: "string \<Rightarrow> metadata list \<Rightarrow> unit io" where
  "save_locked path es w =
     (case ledger_text es of
        None \<Rightarrow> (Inl (WrapErr ''marshal ledger: '' (MsgErr ''json'')), w)
      | Some data \<Rightarrow> write_secure path data w)"

definition ledger_record :: "string \<Rightarrow> metadata \<Rightarrow> unit io" where
  "ledger_record path m w =
     (case load_locked path w of
        (Inl e, w1) \<Rightarrow> (Inl (WrapErr ''record token: '' e), w1)
      | (Inr es, w1) \<Rightarrow> save_locked path (es @ [m]) w1)"

definition ledger_list :: "string \<Rightarrow> string \<Rightarrow> metadata list io" where
  "ledger_list path provider w =
     (case load_locked path w of
        (Inl e, w1) \<Rightarrow> (Inl e, w1)
      | (Inr es, w1) \<Rightarrow>
          if provider = [] then (Inr es, w1) else (Inr (filter (\<lambda>e. md_provider e = provider) es), w1))"

fun expiring_loop :: "duration \<Rightarrow> metadata list \<Rightarrow> world \<Rightarrow> metadata list \<times> world" where
  "expiring_loop d [] w = ([], w)"
| "expiring_loop d (e # es) w =
     (case expires_within e d w of
        (x, w1) \<Rightarrow> (case expiring_loop d es w1 of (xs, w2) \<Rightarrow> (if x then e # xs else xs, w2)))"

definition ledger_expiring :: "string \<Rightarrow> duration \<Rightarrow> metadata list io" where
  "ledger_expiring path within w =
     (case load_locked path w of
        (Inl e, w1) \<Rightarrow> (Inl e, w1)
      | (Inr es, w1) \<Rightarrow> (case expiring_loop within es w1 of (xs, w2) \<Rightarrow> (Inr xs, w2)))"

definition ledger_remove_where :: "string \<Rightarrow> string \<Rightarrow> (metadata \<Rightarrow> bool) \<Rightarrow> unit io" where
  "ledger_remove_where path provider matches w =
     (case load_locked path w of
        (Inl e, w1) \<Rightarrow> (Inl e, w1)
      | (Inr es, w1) \<Rightarrow> save_locked path (filter (\<lambda>e. \<not> (md_provider e = provider \<and> matches e)) es) w1)"

definition ledger_remove :: "string \<Rightarrow> string \<Rightarrow> string \<Rightarrow> unit io" where
  "ledger_remove path provider name w = ledger_remove_where path provider (\<lambda>e. md_name e = name) w"

definition ledger_remove_by_id :: "string \<Rightarrow> string \<Rightarrow> string \<Rightarrow> unit io" where
  "ledger_remove_by_id path provider i w =
     (if i = [] then (Inl (MsgErr ''token ID cannot be empty''), w)
      else ledger_remove_where path provider (\<lambda>e. md_id e = i) w)"

fun cleanup_loop :: "gotime \<Rightarrow> metadata list \<Rightarrow> world \<Rightarrow> metadata list \<times> world" where
  "cleanup_loop cutoff [] w = ([], w)"
| "cleanup_loop cutoff (e # es) w =
     (case is_expired e w of
        (x, w1) \<Rightarrow>
          (case cleanup_loop cutoff es w1 of
             (kept, w2) \<Rightarrow>
               (if x then kept
                else if \<not> is_zero_time (md_issued e) \<and> t_before (md_issued e) cutoff then kept
                else e # kept, w2)))"

definition ledger_cleanup :: "string \<Rightarrow> duration \<Rightarrow> int io" where
  "ledger_cleanup path olderThan w =
     (case load_locked path w of
        (Inl e, w1) \<Rightarrow> (Inl e, w1)
      | (Inr es, w1) \<Rightarrow>
     (case time_now w1 of
        (t, w2) \<Rightarrow>
     (case cleanup_loop (t_add t (- olderThan)) es w2 of
        (kept, w3) \<Rightarrow>
          (let removed = int (length es) - int (length kept)
           in if removed > 0 then
                (case save_locked path kept w3 of
                   (Inl e, w4) \<Rightarrow> (Inl e, w4)
                 | (Inr _, w4) \<Rightarrow> (Inr removed, w4))
              else (Inr removed, w3)))))"

definition ledger_find :: "string \<Rightarrow> string \<Rightarrow> string \<Rightarrow> (metadata \<Rightarrow> bool) \<Rightarrow> metadata io" where
  "ledger_find path provider identity matches w =
     (case load_locked path w of
        (Inl e, w1) \<Rightarrow> (Inl e, w1)
      | (Inr es, w1) \<Rightarrow>
          (case find (\<lambda>e. md_provider e = provider \<and> matches e) es of
             Some e \<Rightarrow> (Inr e, w1)
           | None \<Rightarrow> (Inl (MsgErr (''token not found: '' @ provider @ ''/'' @ identity)), w1)))"

definition ledger_find_by_id :: "string \<Rightarrow> string \<Rightarrow> string \<Rightarrow> metadata io" where
  "ledger_find_by_id path provider i w =
     (if i = [] then (Inl (MsgErr ''token ID cannot be empty''), w)
      else ledger_find path provider i (\<lambda>e. md_id e = i) w)"

definition ledger_find_by_name :: "string \<Rightarrow> string \<Rightarrow> string \<Rightarrow> metadata io" where
  "ledger_find_by_name path provider name w =
     (if name = [] then (Inl (MsgErr ''token name cannot be empty''), w)
      else ledger_find path provider name (\<lambda>e. md_name e = name) w)"

subsection \<open>Encoding and decoding\<close>

definition good_metadata :: "metadata \<Rightarrow> bool" where
  "good_metadata m = (valid_utf8 (md_provider m) \<and> valid_utf8 (md_name m) \<and> valid_utf8 (md_id m) \<and>
     map_ok (md_scope m) \<and> valid_utf8 (md_master_key m) \<and> valid_utf8 (md_source m))"

lemma metadata_lookup [simp]:
  "map_of metadata_fields ''provider'' = Some (dec_field dec_string md_provider (\<lambda>v m. m\<lparr>md_provider := v\<rparr>))"
  "map_of metadata_fields ''name'' = Some (dec_field dec_string md_name (\<lambda>v m. m\<lparr>md_name := v\<rparr>))"
  "map_of metadata_fields ''id'' = Some (dec_field dec_string md_id (\<lambda>v m. m\<lparr>md_id := v\<rparr>))"
  "map_of metadata_fields ''issued_at'' = Some (dec_field dec_time md_issued (\<lambda>v m. m\<lparr>md_issued := v\<rparr>))"
  "map_of metadata_fields ''expires_at'' = Some (dec_field dec_time_ptr md_expires (\<lambda>v m. m\<lparr>md_expires := v\<rparr>))"
  "map_of metadata_fields ''scope'' = Some (dec_field dec_map md_scope (\<lambda>v m. m\<lparr>md_scope := v\<rparr>))"
  "map_of metadata_fields ''master_key'' = Some (dec_field dec_string md_master_key (\<lambda>v m. m\<lparr>md_master_key := v\<rparr>))"
  "map_of metadata_fields ''source'' = Some (dec_field dec_string md_source (\<lambda>v m. m\<lparr>md_source := v\<rparr>))"
  by (simp_all add: metadata_fields_def)

lemma metadata_keys [simp]:
  "unquote ''provider'' = ''provider''" "unquote ''name'' = ''name''" "unquote ''id'' = ''id''"
  "unquote ''issued_at'' = ''issued_at''" "unquote ''expires_at'' = ''expires_at''" "unquote ''scope'' = ''scope''"
  "unquote ''master_key'' = ''master_key''" "unquote ''source'' = ''source''"
  by (rule unquote_plain, simp)+

lemma dec_enc_metadata:
  assumes "enc_metadata m = Some j" "good_metadata m"
  shows "dec_metadata j = Some m"
proof -
  from assms(1) obtain ji je where ji: "enc_time (md_issued m) = Some ji"
    and je: "enc_time_ptr ''expires_at'' (md_expires m) = Some je"
    by (auto simp: enc_metadata_def split: option.splits)
  have ptr: "dec_members metadata_fields (je @ ms) a = dec_members metadata_fields ms (if md_expires m = None then a else a\<lparr>md_expires := md_expires m\<rparr>)"
    for ms a
    using je by (auto simp: enc_time_ptr_def find_field_def dec_field_def dec_enc_time(2) split: option.splits)
  note g = assms(2) [unfolded good_metadata_def]
  show ?thesis
    using assms(1) g
    by (auto simp: enc_metadata_def ji je dec_metadata_def zero_metadata_def ptr dec_members_omit
        find_field_def dec_field_def dec_enc_string dec_enc_time(1) [OF ji] dec_enc_map)
qed

lemma metadata_raw [simp]: "raw_ok ''provider''" "raw_ok ''name''" "raw_ok ''id''" "raw_ok ''issued_at''"
  "raw_ok ''expires_at''" "raw_ok ''scope''" "raw_ok ''master_key''" "raw_ok ''source''"
  by (rule raw_ok_key, simp add: plain_char_def)+

lemma enc_metadata_ok:
  assumes "enc_metadata m = Some j"
  shows "json_ok j" "json_depth j \<le> Suc 1"
proof -
  from assms obtain ji je where ji: "enc_time (md_issued m) = Some ji"
    and je: "enc_time_ptr ''expires_at'' (md_expires m) = Some je"
    by (auto simp: enc_metadata_def split: option.splits)
  note je' = enc_time_ptr_ok [OF je metadata_raw(5)]
  show "json_ok j"
    using assms je' dec_enc_time(3) [OF ji] by (auto simp: enc_metadata_def ji je enc_map_ok)
  show "json_depth j \<le> Suc 1"
    using assms je'(2) [of 1] dec_enc_time(4) [OF ji] enc_map_ok(2) [of "md_scope m"]
    by (auto simp: enc_metadata_def ji je json_depth_obj simp del: json_depth.simps)
qed

theorem parse_ledger_text:
  assumes "ledger_text es = Some s" "list_all good_metadata es"
  shows "parse_ledger s = Some es"
proof -
  from assms(1) obtain j where j: "enc_entries es = Some j" "s = print_indent j @ [CHR 0x0A]"
    by (auto simp: ledger_text_def)
  have ok: "json_ok j \<and> json_depth j \<le> Suc (Suc 1)"
    using j(1) json_arr [of enc_metadata es _ "Suc 1"] enc_metadata_ok by (auto simp: enc_entries_def split: if_splits)
  then have "json_parse s = Some j"
    unfolding j(2) by (intro json_parse_indent) (auto simp: max_nesting_def all_ws_def is_ws_def)
  moreover have "dec_slice dec_metadata j = Some es"
    using j(1) dec_enc_all [of enc_metadata es _ dec_metadata] dec_enc_metadata assms(2)
    by (auto simp: enc_entries_def list_all_iff split: if_splits)
  ultimately show ?thesis by (simp add: parse_ledger_def)
qed

subsection \<open>The ledger as a list kept in a file\<close>

definition ledger_state :: "string \<Rightarrow> ino \<Rightarrow> world \<Rightarrow> metadata list option" where
  "ledger_state path r w = (case path_view path r w path of None \<Rightarrow> Some [] | Some s \<Rightarrow> parse_ledger s)"

definition good_entries :: "metadata list \<Rightarrow> bool" where
  "good_entries es = list_all good_metadata es"

interpretation ledger_file: typed_store "path_ok path r" "\<lambda>p. p = path" "path_view path r" read_secure write_secure
    "\<lambda>es. if good_entries es then ledger_text es else None" parse_ledger "\<lambda>es. es"
  for path r
  by unfold_locales (auto simp: good_entries_def parse_ledger_text split: if_splits)

lemma load_law:
  assumes "path_ok path r b w" "load_locked path w = (res, w')"
  shows "path_ok path r b w' \<and> same_env w w' \<and> disk w' = disk w \<and> ledger_state path r w' = ledger_state path r w \<and>
    (case res of Inr es \<Rightarrow> ledger_state path r w = Some es | Inl e \<Rightarrow> b \<or> ledger_state path r w = None)"
proof -
  obtain x w1 where rd: "read_secure path w = (x, w1)" by fastforce
  note law = by_path.read_law [OF assms(1) refl rd]
  have "w' = w1" using assms(2) rd by (auto simp: load_locked_def split: sum.splits option.splits if_splits)
  then show ?thesis
    using assms(2) rd law by (auto simp: load_locked_def ledger_state_def split: sum.splits option.splits if_splits)
qed

lemma save_law:
  assumes "path_ok path r b w" "save_locked path es w = (res, w')"
  shows "path_ok path r b w' \<and> same_env w w' \<and>
    (case res of Inr _ \<Rightarrow> ledger_text es \<noteq> None \<and> (good_entries es \<longrightarrow> ledger_state path r w' = Some es)
     | Inl e \<Rightarrow> (b \<or> ledger_text es = None) \<and> ledger_state path r w' = ledger_state path r w)"
proof (cases "ledger_text es")
  case None
  then show ?thesis using assms by (auto simp: save_locked_def)
next
  case (Some s)
  then have "write_secure path s w = (res, w')" using assms(2) by (simp add: save_locked_def)
  from by_path.write_law [OF assms(1) refl this] Some show ?thesis
    by (auto simp: ledger_state_def good_entries_def parse_ledger_text split: sum.splits)
qed

lemmas ledger_laws = load_law save_law

text \<open>
  Every change is one transaction: an operation that loads, computes and saves either
  reports success with the new list stored or an error with the old one.
\<close>

definition transacts :: "string \<Rightarrow> ino \<Rightarrow> bool \<Rightarrow> (metadata list \<Rightarrow> metadata list) \<Rightarrow> world \<Rightarrow> goerr + 'a \<Rightarrow> world \<Rightarrow> bool" where
  "transacts path r b f w res w' = (path_ok path r b w' \<and> same_env w w' \<and>
     (case res of
        Inl e \<Rightarrow> ledger_state path r w' = ledger_state path r w \<and>
                 (b \<or> ledger_state path r w = None \<or> (\<exists>es. ledger_state path r w = Some es \<and> ledger_text (f es) = None))
      | Inr _ \<Rightarrow> \<exists>es. ledger_state path r w = Some es \<and>
                 (good_entries (f es) \<longrightarrow> ledger_state path r w' = Some (f es))))"

lemma load_save:
  assumes "path_ok path r b w" "load_locked path w = (l, w1)"
    and "case l of Inl e \<Rightarrow> (\<exists>e'. res = Inl e') \<and> w' = w1 | Inr es \<Rightarrow> save_locked path (f es) w1 = (res, w')"
  shows "transacts path r b f w res w'"
proof (cases l)
  case (Inl e)
  then show ?thesis using load_law [OF assms(1,2)] assms(3) by (auto simp: transacts_def)
next
  case (Inr es)
  note l = load_law [OF assms(1,2)]
  have ok: "path_ok path r b w1" using l by blast
  have "save_locked path (f es) w1 = (res, w')" using assms(3) Inr by simp
  note sv = save_law [OF ok this]
  have "same_env w w'" using l sv same_env_trans by blast
  then show ?thesis using sv l Inr by (cases res) (simp_all add: transacts_def)
qed

lemma record_transacts:
  assumes "path_ok path r b w" "ledger_record path m w = (res, w')"
  shows "transacts path r b (\<lambda>es. es @ [m]) w res w'"
proof -
  obtain l w1 where l: "load_locked path w = (l, w1)" by fastforce
  then show ?thesis
    using assms by (intro load_save [OF assms(1) l]) (auto simp: ledger_record_def split: sum.splits)
qed

lemma remove_where_transacts:
  assumes "path_ok path r b w" "ledger_remove_where path p q w = (res, w')"
  shows "transacts path r b (filter (\<lambda>e. \<not> (md_provider e = p \<and> q e))) w res w'"
proof -
  obtain l w1 where l: "load_locked path w = (l, w1)" by fastforce
  then show ?thesis
    using assms by (intro load_save [OF assms(1) l]) (auto simp: ledger_remove_where_def split: sum.splits)
qed

text \<open>With a clock that stands still, the loops are filters.\<close>

definition expired_at :: "gotime \<Rightarrow> metadata \<Rightarrow> bool" where
  "expired_at t m = (case md_expires m of None \<Rightarrow> False | Some x \<Rightarrow> t_after t x)"

lemma is_expired_still: "ticks w = [] \<Longrightarrow> is_expired m w = (expired_at (now w) m, w)"
  by (auto simp: is_expired_def expired_at_def time_now_still split: option.split)

lemma expires_within_still:
  "ticks w = [] \<Longrightarrow> expires_within m d w = (expired_at (t_add (now w) d) m, w)"
  by (auto simp: expires_within_def expired_at_def time_now_still split: option.split)

lemma expiring_loop_still:
  "ticks w = [] \<Longrightarrow> expiring_loop d es w = (filter (expired_at (t_add (now w) d)) es, w)"
  by (induction es) (simp_all add: expires_within_still)

definition stale :: "gotime \<Rightarrow> gotime \<Rightarrow> metadata \<Rightarrow> bool" where
  "stale t cutoff m = (expired_at t m \<or> \<not> is_zero_time (md_issued m) \<and> t_before (md_issued m) cutoff)"

lemma cleanup_loop_still:
  "ticks w = [] \<Longrightarrow> cleanup_loop c es w = (filter (\<lambda>m. \<not> stale (now w) c m) es, w)"
  by (induction es) (auto simp: is_expired_still stale_def)

lemma cleanup_loop_sub:
  "cleanup_loop c es w = (kept, w') \<Longrightarrow> length kept \<le> length es \<and> disk w' = disk w \<and> sched w' = sched w"
proof (induction es arbitrary: w kept w')
  case (Cons e es)
  obtain x w1 where x: "is_expired e w = (x, w1)" by fastforce
  obtain k w2 where k: "cleanup_loop c es w1 = (k, w2)" by fastforce
  have "disk w1 = disk w \<and> sched w1 = sched w"
    using x by (auto simp: is_expired_def time_now_def split: option.splits list.splits)
  with Cons.IH [OF k] Cons.prems x k show ?case by (auto split: if_splits)
qed simp

subsection \<open>The interface to a ledger\<close>

locale token_ledger =
  fixes ok :: "bool \<Rightarrow> world \<Rightarrow> bool"
    and state :: "world \<Rightarrow> metadata list option"
    and rec :: "metadata \<Rightarrow> unit io"
    and drop_id :: "string \<Rightarrow> string \<Rightarrow> unit io"
  assumes record_law: "ok b w \<Longrightarrow> rec m w = (res, w') \<Longrightarrow> ok b w' \<and> same_env w w' \<and>
      (case res of Inl _ \<Rightarrow> state w' = state w
       | Inr _ \<Rightarrow> \<exists>es. state w = Some es \<and> (good_entries (es @ [m]) \<longrightarrow> state w' = Some (es @ [m])))"
    and drop_law: "ok b w \<Longrightarrow> drop_id p i w = (res, w') \<Longrightarrow> ok b w' \<and> same_env w w' \<and>
      (case res of Inl _ \<Rightarrow> state w' = state w
       | Inr _ \<Rightarrow> i \<noteq> [] \<and> (\<exists>es. state w = Some es \<and> (good_entries es \<longrightarrow>
            state w' = Some (filter (\<lambda>e. \<not> (md_provider e = p \<and> md_id e = i)) es))))"
begin

text \<open>A replacement recorded before the old entry is dropped stays, and only the old one goes.\<close>

lemma replace:
  assumes "ok b w" "rec m w = (Inr u, w1)" "drop_id p i w1' = (Inr v, w2)" "state w1' = state w1" "ok b w1'"
    and "state w = Some es" "good_entries (es @ [m])"
  shows "state w2 = Some (filter (\<lambda>e. \<not> (md_provider e = p \<and> md_id e = i)) (es @ [m]))"
proof -
  have "state w1' = Some (es @ [m])" using record_law [OF assms(1,2)] assms(4,6,7) by auto
  then show ?thesis using drop_law [OF assms(5,3)] assms(7) by auto
qed

end

lemma good_filter: "good_entries es \<Longrightarrow> good_entries (filter P es)"
  by (auto simp: good_entries_def list_all_iff)

interpretation file_ledger: token_ledger "path_ok path r" "ledger_state path r" "ledger_record path" "ledger_remove_by_id path"
  for path r
proof (unfold_locales, goal_cases)
  case (1 b w m res w')
  then show ?case using record_transacts [OF 1] by (cases res) (auto simp: transacts_def)
next
  case (2 b w p i res w')
  show ?case
  proof (cases "i = []")
    case True
    then show ?thesis using 2 by (auto simp: ledger_remove_by_id_def)
  next
    case False
    then have "ledger_remove_where path p (\<lambda>e. md_id e = i) w = (res, w')" using 2(2) by (simp add: ledger_remove_by_id_def)
    from remove_where_transacts [OF 2(1) this] False show ?thesis
      by (cases res) (auto simp: transacts_def good_filter)
  qed
qed

subsection \<open>What each operation returns\<close>

definition storable :: "metadata list \<Rightarrow> bool" where
  "storable es = (good_entries es \<and> list_all (\<lambda>m. enc_metadata m \<noteq> None) es)"

lemma storable_text: "storable es \<Longrightarrow> \<exists>s. ledger_text es = Some s"
proof -
  have "list_all (\<lambda>m. enc_metadata m \<noteq> None) xs \<Longrightarrow> \<exists>js. enc_all enc_metadata xs = Some js" for xs
    by (induction xs) auto
  then show "storable es \<Longrightarrow> \<exists>s. ledger_text es = Some s"
    by (auto simp: storable_def ledger_text_def enc_entries_def)
qed

lemma storable_filter: "storable es \<Longrightarrow> storable (filter P es)"
  by (auto simp: storable_def good_entries_def list_all_iff)

lemma load_quiet:
  assumes "path_ok path r False w" "ledger_state path r w = Some es" "load_locked path w = (res, w')"
  shows "res = Inr es" "path_ok path r False w'" "same_env w w'" "ledger_state path r w' = Some es"
    "disk w' = disk w"
  using load_law [OF assms(1,3)] assms(2) by (cases res; simp)+

lemma save_quiet:
  assumes "path_ok path r False w" "storable es" "save_locked path es w = (res, w')"
  shows "res = Inr ()" "path_ok path r False w'" "ledger_state path r w' = Some es"
  using save_law [OF assms(1,3)] storable_text [OF assms(2)] assms(2)
  by (cases res; auto simp: storable_def)+

subsection \<open>An example ledger\<close>

definition demo_meta :: metadata where
  "demo_meta = zero_metadata\<lparr>md_provider := ''p'', md_name := ''n'', md_id := ''a'', md_expires := Some \<lparr>tns = -5, tzone = 0\<rparr>\<rparr>"

definition demo_ledger_world :: world where
  "demo_ledger_world = snd (save_locked ''/h/t.json'' [demo_meta, zero_metadata] (demo_world []))"

lemma demo_ledger: "ledger_state ''/h/t.json'' 5 (demo_world evs) = Some []"
  by (simp add: ledger_state_def demo_path_view)

lemma ascii_valid [simp]: "valid_utf8 []" "byte c < 0x80 \<Longrightarrow> valid_utf8 [c]"
  by (simp_all add: valid_utf8_def utf8_len_ascii)

lemma demo_times: "marshal_time zero_time \<noteq> None" "marshal_time \<lparr>tns = -5, tzone = 0\<rparr> \<noteq> None"
  by (simp_all add: marshal_time_def zero_time_def local_day_def civil_of_days_def year_of_def epoch_day_def
      days_before_def split_beta)

lemma demo_storable: "storable [demo_meta, zero_metadata]"
proof -
  have "good_metadata demo_meta" "good_metadata zero_metadata"
    by (simp_all add: good_metadata_def demo_meta_def zero_metadata_def map_ok_def)
  moreover have "enc_metadata demo_meta \<noteq> None" "enc_metadata zero_metadata \<noteq> None"
    using demo_times
    by (auto simp: demo_meta_def zero_metadata_def enc_metadata_def enc_time_ptr_def enc_time_def)
  ultimately show ?thesis by (simp add: storable_def good_entries_def)
qed

lemma demo_ledger_ok:
  "path_ok ''/h/t.json'' 5 False demo_ledger_world"
  "ledger_state ''/h/t.json'' 5 demo_ledger_world = Some [demo_meta, zero_metadata]"
  "ticks demo_ledger_world = []" "now demo_ledger_world = \<lparr>tns = 0, tzone = 0\<rparr>"
proof -
  obtain res where r: "save_locked ''/h/t.json'' [demo_meta, zero_metadata] (demo_world []) = (res, demo_ledger_world)"
    unfolding demo_ledger_world_def by (metis prod.collapse)
  have ok: "path_ok ''/h/t.json'' 5 False (demo_world [])" by (rule demo_path_ok) simp
  from save_quiet [OF ok demo_storable r]
  show "path_ok ''/h/t.json'' 5 False demo_ledger_world"
    "ledger_state ''/h/t.json'' 5 demo_ledger_world = Some [demo_meta, zero_metadata]" by simp_all
  have "same_env (demo_world []) demo_ledger_world" using save_law [OF ok r] by blast
  then show "ticks demo_ledger_world = []" "now demo_ledger_world = \<lparr>tns = 0, tzone = 0\<rparr>"
    by (simp_all add: same_env_def demo_world_def now_def time_now_def)
qed

subsection \<open>Properties\<close>

text \<open>C16: \<open>Record\<close> is all or nothing.  Whichever system call fails, an error leaves the ledger
  as it was and success means the entry was appended to what was there.\<close>

theorem ledger_record_atomic:
  assumes "path_ok path r b w" and "ledger_record path m w = (res, w')"
  shows "path_ok path r b w' \<and>
    (case res of
       Inl e \<Rightarrow> ledger_state path r w' = ledger_state path r w
     | Inr _ \<Rightarrow> \<exists>es. ledger_state path r w = Some es \<and>
                 (good_entries (es @ [m]) \<longrightarrow> ledger_state path r w' = Some (es @ [m])))"
  using file_ledger.record_law [OF assms] by blast

theorem ledger_record_atomic_witness:
  "\<exists>res w'. ledger_record ''/h/t.json'' zero_metadata (demo_world [Quiet, Fault EIO 0]) = (res, w') \<and>
     path_ok ''/h/t.json'' 5 True w' \<and> (\<forall>e. res = Inl e \<longrightarrow> ledger_state ''/h/t.json'' 5 w' = Some [])"
proof -
  obtain res w' where r: "ledger_record ''/h/t.json'' zero_metadata (demo_world [Quiet, Fault EIO 0]) = (res, w')"
    by fastforce
  have "path_ok ''/h/t.json'' 5 True (demo_world [Quiet, Fault EIO 0])" by (rule demo_path_ok) simp
  from ledger_record_atomic [OF this r] r show ?thesis by (auto simp: demo_ledger)
qed

text \<open>\<open>RemoveByID\<close> deletes exactly the entries of that provider with that provider-native
  identifier, keeps the others in order, and never matches an empty identifier.\<close>

theorem ledger_remove_by_id_exact:
  assumes "path_ok path r False w" "ledger_state path r w = Some es" "storable es"
    and "ledger_remove_by_id path p i w = (res, w')"
  shows "if i = [] then (\<exists>e. res = Inl e) \<and> w' = w
    else res = Inr () \<and> ledger_state path r w' = Some (filter (\<lambda>e. \<not> (md_provider e = p \<and> md_id e = i)) es)"
proof (cases "i = []")
  case True
  then show ?thesis using assms(4) by (auto simp: ledger_remove_by_id_def)
next
  case False
  obtain l w1 where l: "load_locked path w = (l, w1)" by fastforce
  note lq = load_quiet [OF assms(1,2) l]
  have "save_locked path (filter (\<lambda>e. \<not> (md_provider e = p \<and> md_id e = i)) es) w1 = (res, w')"
    using assms(4) False l lq(1) by (simp add: ledger_remove_by_id_def ledger_remove_where_def)
  from save_quiet [OF lq(2) storable_filter [OF assms(3)] this] False show ?thesis by simp
qed

theorem ledger_remove_by_id_exact_witness:
  "\<exists>w'. ledger_remove_by_id ''/h/t.json'' ''p'' ''a'' demo_ledger_world = (Inr (), w') \<and>
     ledger_state ''/h/t.json'' 5 w' = Some [zero_metadata]"
proof -
  obtain res w' where r: "ledger_remove_by_id ''/h/t.json'' ''p'' ''a'' demo_ledger_world = (res, w')" by fastforce
  from ledger_remove_by_id_exact [OF demo_ledger_ok(1,2) demo_storable r] r show ?thesis
    by (simp add: demo_meta_def zero_metadata_def)
qed

text \<open>C23: \<open>Cleanup\<close> keeps exactly the entries that are neither expired nor issued before the
  cutoff, in order, reports how many it dropped, and writes nothing when there is nothing to drop.\<close>

theorem ledger_cleanup_exact:
  assumes "path_ok path r False w" "ledger_state path r w = Some es" "storable es" "ticks w = []"
    and "ledger_cleanup path olderThan w = (res, w')"
  shows "ledger_state path r w' = Some (filter (\<lambda>m. \<not> stale (now w) (t_add (now w) (- olderThan)) m) es) \<and>
    res = Inr (int (length (filter (stale (now w) (t_add (now w) (- olderThan))) es))) \<and>
    (list_ex (stale (now w) (t_add (now w) (- olderThan))) es \<or> disk w' = disk w)"
proof -
  let ?st = "stale (now w) (t_add (now w) (- olderThan))"
  obtain l w1 where l: "load_locked path w = (l, w1)" by fastforce
  note lq = load_quiet [OF assms(1,2) l]
  have still: "ticks w1 = []" and n1: "now w1 = now w" and tn: "time_now w1 = (now w, w1)"
    using lq(3) assms(4) by (auto simp: same_env_def now_def time_now_def)
  have len: "int (length es) - int (length (filter (\<lambda>m. \<not> ?st m) es)) = int (length (filter ?st es))"
    using sum_length_filter_compl [of ?st es] by simp
  have loop: "cleanup_loop (t_add (now w) (- olderThan)) es w1 = (filter (\<lambda>m. \<not> ?st m) es, w1)"
    using cleanup_loop_still [OF still] n1 by simp
  have res: "ledger_cleanup path olderThan w =
      (if length (filter ?st es) > 0
       then (case save_locked path (filter (\<lambda>m. \<not> ?st m) es) w1 of
               (Inl e, w4) \<Rightarrow> (Inl e, w4) | (Inr _, w4) \<Rightarrow> (Inr (int (length (filter ?st es))), w4))
       else (Inr (int (length (filter ?st es))), w1))"
    by (simp only: ledger_cleanup_def l lq(1) tn loop prod.case sum.case Let_def len of_nat_0_less_iff)
  show ?thesis
  proof (cases "filter ?st es = []")
    case True
    then have "filter (\<lambda>m. \<not> ?st m) es = es" by (simp add: filter_empty_conv filter_id_conv)
    then show ?thesis using res assms(5) True lq(4,5) by simp
  next
    case False
    obtain s w4 where s: "save_locked path (filter (\<lambda>m. \<not> ?st m) es) w1 = (s, w4)" by fastforce
    note sq = save_quiet [OF lq(2) storable_filter [OF assms(3)] s]
    have "list_ex ?st es" using False by (auto simp: filter_empty_conv list_ex_iff)
    then show ?thesis using res assms(5) False s sq by simp
  qed
qed

theorem ledger_cleanup_exact_witness:
  "\<exists>w'. ledger_cleanup ''/h/t.json'' 0 demo_ledger_world = (Inr 1, w') \<and>
     ledger_state ''/h/t.json'' 5 w' = Some [zero_metadata]"
proof -
  obtain res w' where r: "ledger_cleanup ''/h/t.json'' 0 demo_ledger_world = (res, w')" by fastforce
  from ledger_cleanup_exact [OF demo_ledger_ok(1,2) demo_storable demo_ledger_ok(3) r] r show ?thesis
    by (simp add: demo_ledger_ok(4) stale_def expired_at_def t_after_def t_before_def t_add_def is_zero_time_def
        demo_meta_def zero_metadata_def zero_time_def)
qed

text \<open>What \<open>saveLocked\<close> wrote, \<open>loadLocked\<close> returns: every field of every entry survives the
  JSON file, for texts in valid UTF-8 and times RFC 3339 can express.\<close>

theorem ledger_save_load:
  assumes "path_ok path r False w" "storable es"
    and "save_locked path es w = (res, w1)" "load_locked path w1 = (res', w2)"
  shows "res = Inr () \<and> res' = Inr es \<and> disk w2 = disk w1"
  using save_quiet [OF assms(1-3)] load_quiet [OF _ _ assms(4)] by blast

theorem ledger_save_load_witness:
  "\<exists>w1 w2. save_locked ''/h/t.json'' [demo_meta, zero_metadata] (demo_world []) = (Inr (), w1) \<and>
     load_locked ''/h/t.json'' w1 = (Inr [demo_meta, zero_metadata], w2)"
proof -
  obtain res w1 where s: "save_locked ''/h/t.json'' [demo_meta, zero_metadata] (demo_world []) = (res, w1)" by fastforce
  obtain res' w2 where l: "load_locked ''/h/t.json'' w1 = (res', w2)" by fastforce
  have "path_ok ''/h/t.json'' 5 False (demo_world [])" by (rule demo_path_ok) simp
  from ledger_save_load [OF this demo_storable s l] s l show ?thesis by auto
qed

text \<open>\<open>FindByID\<close> returns the first entry with that provider and identifier and never one that
  agrees in name only; without such an entry, or for the empty identifier, it reports an error.\<close>

theorem ledger_find_by_id_first:
  assumes "path_ok path r False w" "ledger_state path r w = Some es"
    and "ledger_find_by_id path p i w = (res, w')"
  shows "disk w' = disk w \<and>
    (case res of
       Inr e \<Rightarrow> i \<noteq> [] \<and> (\<exists>us vs. es = us @ e # vs \<and> md_provider e = p \<and> md_id e = i \<and>
                 \<not> list_ex (\<lambda>u. md_provider u = p \<and> md_id u = i) us)
     | Inl x \<Rightarrow> i = [] \<or> \<not> list_ex (\<lambda>u. md_provider u = p \<and> md_id u = i) es)"
proof (cases "i = []")
  case True
  then show ?thesis using assms(3) by (auto simp: ledger_find_by_id_def)
next
  case False
  obtain l w1 where l: "load_locked path w = (l, w1)" by fastforce
  note lq = load_quiet [OF assms(1,2) l]
  let ?P = "\<lambda>u. md_provider u = p \<and> md_id u = i"
  have "(case find ?P es of Some e \<Rightarrow> (Inr e, w1)
      | None \<Rightarrow> (Inl (MsgErr (''token not found: '' @ p @ ''/'' @ i)), w1)) = (res, w')"
    using assms(3) False l lq(1) by (simp add: ledger_find_by_id_def ledger_find_def)
  moreover have "find ?P es = None \<longleftrightarrow> \<not> list_ex ?P es" by (auto simp: find_None_iff list_ex_iff)
  moreover have "\<exists>us vs. es = us @ e # vs \<and> ?P e \<and> \<not> list_ex ?P us" if "find ?P es = Some e" for e
  proof -
    from that obtain n where n: "n < length es" "?P (es ! n)" "e = es ! n" "\<forall>j<n. \<not> ?P (es ! j)"
      by (auto simp: find_Some_iff)
    then have "es = take n es @ e # drop (Suc n) es" by (simp add: id_take_nth_drop)
    moreover have "\<not> list_ex ?P (take n es)" using n(1,4) by (auto simp: list_ex_length)
    ultimately show ?thesis using n(2,3) by blast
  qed
  ultimately show ?thesis
  proof (cases "find ?P es")
    case (Some a)
    assume first: "\<And>e. find ?P es = Some e \<Longrightarrow> \<exists>us vs. es = us @ e # vs \<and> ?P e \<and> \<not> list_ex ?P us"
    assume "(case find ?P es of Some e \<Rightarrow> (Inr e, w1)
      | None \<Rightarrow> (Inl (MsgErr (''token not found: '' @ p @ ''/'' @ i)), w1)) = (res, w')"
    then have "res = Inr a" "w' = w1" using Some by simp_all
    with first [OF Some] False lq(5) show ?thesis by (simp only: sum.case) blast
  qed (use False lq(5) in auto)
qed

theorem ledger_find_by_id_first_witness:
  "\<exists>w'. ledger_find_by_id ''/h/t.json'' ''p'' ''a'' demo_ledger_world = (Inr demo_meta, w')"
proof -
  obtain res w' where r: "ledger_find_by_id ''/h/t.json'' ''p'' ''a'' demo_ledger_world = (res, w')" by fastforce
  from ledger_find_by_id_first [OF demo_ledger_ok(1,2) r]
  have "res = Inr demo_meta"
    by (cases res) (auto simp: demo_meta_def zero_metadata_def append_eq_Cons_conv Cons_eq_append_conv)
  then show ?thesis using r by blast
qed

end
