(* ===== verification/Ledger_Mutex.thy ===== *)
theory Ledger_Mutex
  imports Ledger
begin

text \<open>
  Goroutines that use ledgers at the same time.  Every operation of \<open>token.go\<close> takes the mutex of the
  package before it loads the file and releases it when it returns; here the operations run in steps, so
  that those of different goroutines interleave, and the mutex is what keeps them apart.
\<close>

subsection \<open>Operations and their critical sections\<close>

datatype ledger_op = Record metadata | Listing string | Expiring duration | Remove string string | RemoveByID string string
  | Cleanup duration | FindByID string string | FindByName string string

datatype ledger_answer = Changed "goerr + unit" | Listed "goerr + metadata list" | Counted "goerr + int" | Found "goerr + metadata"

fun run_op :: "string \<Rightarrow> ledger_op \<Rightarrow> world \<Rightarrow> ledger_answer \<times> world" where
  "run_op path (Record m) w = apfst Changed (ledger_record path m w)"
| "run_op path (Listing p) w = apfst Listed (ledger_list path p w)"
| "run_op path (Expiring d) w = apfst Listed (ledger_expiring path d w)"
| "run_op path (Remove p n) w = apfst Changed (ledger_remove path p n w)"
| "run_op path (RemoveByID p i) w = apfst Changed (ledger_remove_by_id path p i w)"
| "run_op path (Cleanup d) w = apfst Counted (ledger_cleanup path d w)"
| "run_op path (FindByID p i) w = apfst Found (ledger_find_by_id path p i w)"
| "run_op path (FindByName p n) w = apfst Found (ledger_find_by_name path p n w)"

text \<open>The checks before the lock.\<close>

fun early :: "ledger_op \<Rightarrow> ledger_answer option" where
  "early (RemoveByID p i) = (if i = [] then Some (Changed (Inl (MsgErr ''token ID cannot be empty''))) else None)"
| "early (FindByID p i) = (if i = [] then Some (Found (Inl (MsgErr ''token ID cannot be empty''))) else None)"
| "early (FindByName p n) = (if n = [] then Some (Found (Inl (MsgErr ''token name cannot be empty''))) else None)"
| "early _ = None"

text \<open>What an operation returns when its load fails, and what it does with the loaded entries.\<close>

fun load_failed :: "ledger_op \<Rightarrow> goerr \<Rightarrow> ledger_answer" where
  "load_failed (Record m) e = Changed (Inl (WrapErr ''record token: '' e))"
| "load_failed (Listing p) e = Listed (Inl e)"
| "load_failed (Expiring d) e = Listed (Inl e)"
| "load_failed (Remove p n) e = Changed (Inl e)"
| "load_failed (RemoveByID p i) e = Changed (Inl e)"
| "load_failed (Cleanup d) e = Counted (Inl e)"
| "load_failed (FindByID p i) e = Found (Inl e)"
| "load_failed (FindByName p n) e = Found (Inl e)"

fun with_entries :: "string \<Rightarrow> ledger_op \<Rightarrow> metadata list \<Rightarrow> world \<Rightarrow> ledger_answer \<times> world" where
  "with_entries path (Record m) es w = apfst Changed (save_locked path (es @ [m]) w)"
| "with_entries path (Listing p) es w =
     (Listed (Inr (if p = [] then es else filter (\<lambda>e. md_provider e = p) es)), w)"
| "with_entries path (Expiring d) es w = (case expiring_loop d es w of (xs, w1) \<Rightarrow> (Listed (Inr xs), w1))"
| "with_entries path (Remove p n) es w =
     apfst Changed (save_locked path (filter (\<lambda>e. \<not> (md_provider e = p \<and> md_name e = n)) es) w)"
| "with_entries path (RemoveByID p i) es w =
     apfst Changed (save_locked path (filter (\<lambda>e. \<not> (md_provider e = p \<and> md_id e = i)) es) w)"
| "with_entries path (Cleanup d) es w =
     (case time_now w of (t, w1) \<Rightarrow> (case cleanup_loop (t_add t (- d)) es w1 of (kept, w2) \<Rightarrow>
        if int (length es) - int (length kept) > 0 then
          (case save_locked path kept w2 of
             (Inl e, w3) \<Rightarrow> (Counted (Inl e), w3)
           | (Inr _, w3) \<Rightarrow> (Counted (Inr (int (length es) - int (length kept))), w3))
        else (Counted (Inr (int (length es) - int (length kept))), w2)))"
| "with_entries path (FindByID p i) es w =
     (Found (case find (\<lambda>e. md_provider e = p \<and> md_id e = i) es of
        Some e \<Rightarrow> Inr e | None \<Rightarrow> Inl (MsgErr (''token not found: '' @ p @ ''/'' @ i))), w)"
| "with_entries path (FindByName p n) es w =
     (Found (case find (\<lambda>e. md_provider e = p \<and> md_name e = n) es of
        Some e \<Rightarrow> Inr e | None \<Rightarrow> Inl (MsgErr (''token not found: '' @ p @ ''/'' @ n))), w)"

text \<open>These parts make up the operation.\<close>

lemma early_run: "early op = Some a \<Longrightarrow> run_op path op w = (a, w)"
  by (cases op) (auto simp: ledger_remove_by_id_def ledger_find_by_id_def ledger_find_by_name_def split: if_splits)

lemma run_parts:
  assumes "early op = None"
  shows "run_op path op w = (case load_locked path w of
      (Inl e, w1) \<Rightarrow> (load_failed op e, w1) | (Inr es, w1) \<Rightarrow> with_entries path op es w1)"
  using assms
  by (cases op)
    (auto simp: ledger_record_def ledger_list_def ledger_expiring_def ledger_remove_def ledger_remove_by_id_def ledger_remove_where_def
      ledger_cleanup_def ledger_find_by_id_def ledger_find_by_name_def ledger_find_def Let_def split: prod.splits sum.splits option.splits if_splits)

subsection \<open>Goroutines\<close>

datatype phase = Ready | Locked | Holding "metadata list" | Leaving ledger_answer | Returned ledger_answer

record shared =
  sh_owner :: "nat option"
  sh_phase :: "nat \<Rightarrow> phase"
  sh_world :: world

definition start :: "world \<Rightarrow> shared" where
  "start w = \<lparr>sh_owner = None, sh_phase = (\<lambda>_. Ready), sh_world = w\<rparr>"

inductive ledger_step :: "(nat \<Rightarrow> string) \<Rightarrow> (nat \<Rightarrow> ledger_op) \<Rightarrow> shared \<Rightarrow> shared \<Rightarrow> bool" for paths ops where
  refuse: "sh_phase s i = Ready \<Longrightarrow> early (ops i) = Some a \<Longrightarrow>
    ledger_step paths ops s (s\<lparr>sh_phase := (sh_phase s)(i := Returned a)\<rparr>)"
| acquire: "sh_phase s i = Ready \<Longrightarrow> early (ops i) = None \<Longrightarrow> sh_owner s = None \<Longrightarrow>
    ledger_step paths ops s (s\<lparr>sh_owner := Some i, sh_phase := (sh_phase s)(i := Locked)\<rparr>)"
| load_fails: "sh_phase s i = Locked \<Longrightarrow> load_locked (paths i) (sh_world s) = (Inl e, w1) \<Longrightarrow>
    ledger_step paths ops s (s\<lparr>sh_phase := (sh_phase s)(i := Leaving (load_failed (ops i) e)), sh_world := w1\<rparr>)"
| loads: "sh_phase s i = Locked \<Longrightarrow> load_locked (paths i) (sh_world s) = (Inr es, w1) \<Longrightarrow>
    ledger_step paths ops s (s\<lparr>sh_phase := (sh_phase s)(i := Holding es), sh_world := w1\<rparr>)"
| finishes: "sh_phase s i = Holding es \<Longrightarrow> with_entries (paths i) (ops i) es (sh_world s) = (a, w1) \<Longrightarrow>
    ledger_step paths ops s (s\<lparr>sh_phase := (sh_phase s)(i := Leaving a), sh_world := w1\<rparr>)"
| releases: "sh_phase s i = Leaving a \<Longrightarrow>
    ledger_step paths ops s (s\<lparr>sh_owner := None, sh_phase := (sh_phase s)(i := Returned a)\<rparr>)"

inductive reaches :: "(nat \<Rightarrow> string) \<Rightarrow> (nat \<Rightarrow> ledger_op) \<Rightarrow> shared \<Rightarrow> shared \<Rightarrow> bool" for paths ops s0 where
  here: "reaches paths ops s0 s0"
| onward: "reaches paths ops s0 s \<Longrightarrow> ledger_step paths ops s s1 \<Longrightarrow> reaches paths ops s0 s1"

subsection \<open>One after the other\<close>

definition serial :: "(nat \<Rightarrow> string) \<Rightarrow> (nat \<Rightarrow> ledger_op) \<Rightarrow> nat list \<Rightarrow> world \<Rightarrow> world" where
  "serial paths ops order w = fold (\<lambda>i w. snd (run_op (paths i) (ops i) w)) order w"

text \<open>The answer of a goroutine when those before it in the order have run.\<close>

definition serial_answer :: "(nat \<Rightarrow> string) \<Rightarrow> (nat \<Rightarrow> ledger_op) \<Rightarrow> nat list \<Rightarrow> world \<Rightarrow> nat \<Rightarrow> ledger_answer" where
  "serial_answer paths ops order w i = fst (run_op (paths i) (ops i) (serial paths ops (takeWhile (\<lambda>j. j \<noteq> i) order) w))"

definition served :: "phase \<Rightarrow> ledger_answer option" where
  "served p = (case p of Leaving a \<Rightarrow> Some a | Returned a \<Rightarrow> Some a | _ \<Rightarrow> None)"

definition inside :: "phase \<Rightarrow> bool" where
  "inside p = (case p of Ready \<Rightarrow> False | Returned _ \<Rightarrow> False | _ \<Rightarrow> True)"

text \<open>The world while a goroutine is inside, from the one it found.\<close>

definition midway :: "string \<Rightarrow> phase \<Rightarrow> world \<Rightarrow> world \<Rightarrow> bool" where
  "midway path p w0 w = (case p of Holding es \<Rightarrow> load_locked path w0 = (Inr es, w)
     | Leaving _ \<Rightarrow> w = w0 | Locked \<Rightarrow> w = w0 | _ \<Rightarrow> False)"

definition ledger_inv :: "(nat \<Rightarrow> string) \<Rightarrow> (nat \<Rightarrow> ledger_op) \<Rightarrow> world \<Rightarrow> nat list \<Rightarrow> shared \<Rightarrow> bool" where
  "ledger_inv paths ops w0 order s \<longleftrightarrow>
     distinct order \<and>
     (\<forall>i. inside (sh_phase s i) \<longleftrightarrow> sh_owner s = Some i) \<and>
     (\<forall>i. i \<in> set order \<longleftrightarrow> served (sh_phase s i) \<noteq> None) \<and>
     (\<forall>i a. served (sh_phase s i) = Some a \<longrightarrow> a = serial_answer paths ops order w0 i) \<and>
     (\<forall>i. sh_phase s i = Locked \<or> (\<exists>es. sh_phase s i = Holding es) \<longrightarrow> early (ops i) = None) \<and>
     (case sh_owner s of
        None \<Rightarrow> sh_world s = serial paths ops order w0
      | Some i \<Rightarrow> midway (paths i) (sh_phase s i) (serial paths ops order w0) (sh_world s))"

lemma phase_simps [simp]:
  "served Ready = None" "served Locked = None" "served (Holding es) = None" "served (Leaving a) = Some a" "served (Returned a) = Some a"
  "\<not> inside Ready" "inside Locked" "inside (Holding es)" "inside (Leaving a)" "\<not> inside (Returned a)"
  by (simp_all add: served_def inside_def)

lemma served_outside: "\<not> inside p \<Longrightarrow> (served p \<noteq> None) = (p \<noteq> Ready)"
  by (cases p) simp_all

lemma midway_simps [simp]:
  "midway path Locked w0 w \<longleftrightarrow> w = w0" "midway path (Leaving a) w0 w \<longleftrightarrow> w = w0"
  "midway path (Holding es) w0 w \<longleftrightarrow> load_locked path w0 = (Inr es, w)"
  "\<not> midway path Ready w0 w" "\<not> midway path (Returned a) w0 w"
  by (auto simp: midway_def)

lemma serial_snoc: "serial paths ops (order @ [i]) w = snd (run_op (paths i) (ops i) (serial paths ops order w))"
  by (simp add: serial_def)

lemma serial_answer_old: "j \<in> set order \<Longrightarrow> serial_answer paths ops (order @ [i]) w j = serial_answer paths ops order w j"
  by (simp add: serial_answer_def)

lemma serial_answer_new: "i \<notin> set order \<Longrightarrow> serial_answer paths ops (order @ [i]) w i = fst (run_op (paths i) (ops i) (serial paths ops order w))"
proof -
  assume "i \<notin> set order"
  then have "takeWhile (\<lambda>j. j \<noteq> i) (order @ [i]) = order" by (subst takeWhile_append2) auto
  then show ?thesis by (simp add: serial_answer_def)
qed

text \<open>A goroutine that gets its answer comes last in the order.\<close>

lemma inv_answered:
  assumes "ledger_inv paths ops w0 order s" "served (sh_phase s i) = None"
    "run_op (paths i) (ops i) (serial paths ops order w0) = (a, w1)" "p \<in> {Leaving a, Returned a}"
    "sh_phase s' = (sh_phase s)(i := p)" "inside p \<longleftrightarrow> sh_owner s = Some i" "sh_owner s' = sh_owner s"
    "sh_owner s = Some i \<longrightarrow> sh_world s' = w1" "sh_owner s \<noteq> Some i \<longrightarrow> sh_world s' = sh_world s \<and> w1 = serial paths ops order w0"
  shows "ledger_inv paths ops w0 (order @ [i]) s'"
proof -
  note inv = assms(1) [unfolded ledger_inv_def]
  have i: "i \<notin> set order" using inv assms(2) by blast
  have p: "served p = Some a" "p \<noteq> Locked" "\<And>es. p \<noteq> Holding es" using assms(4) by auto
  have w: "serial paths ops (order @ [i]) w0 = w1" using assms(3) by (simp add: serial_snoc)
  have ans: "serial_answer paths ops (order @ [i]) w0 i = a" using assms(3) serial_answer_new [OF i] by simp
  have old: "b = serial_answer paths ops (order @ [i]) w0 j" if "served (sh_phase s j) = Some b" for j b
    using inv that serial_answer_old [of j order paths ops i w0] by auto
  have "distinct (order @ [i])" using inv i by simp
  moreover have "\<forall>j. inside (sh_phase s' j) \<longleftrightarrow> sh_owner s' = Some j" using inv assms(5,6,7) by simp
  moreover have "\<forall>j. j \<in> set (order @ [i]) \<longleftrightarrow> served (sh_phase s' j) \<noteq> None" using inv assms(5) p(1) by auto
  moreover have "\<forall>j b. served (sh_phase s' j) = Some b \<longrightarrow> b = serial_answer paths ops (order @ [i]) w0 j"
    using old ans assms(5) p(1) by auto
  moreover have "\<forall>j. sh_phase s' j = Locked \<or> (\<exists>es. sh_phase s' j = Holding es) \<longrightarrow> early (ops j) = None"
    using inv assms(5) p by auto
  moreover have "case sh_owner s' of None \<Rightarrow> sh_world s' = serial paths ops (order @ [i]) w0
      | Some j \<Rightarrow> midway (paths j) (sh_phase s' j) (serial paths ops (order @ [i]) w0) (sh_world s')"
  proof (cases "sh_owner s = Some i")
    case True
    moreover have "p = Leaving a" using True assms(4,6) by auto
    ultimately show ?thesis using assms(5,7,8) w by simp
  next
    case False
    then show ?thesis using inv assms(5,7,9) w by (auto split: option.splits)
  qed
  ultimately show ?thesis unfolding ledger_inv_def by blast
qed

lemma inv_step:
  assumes "ledger_inv paths ops w0 order s" "ledger_step paths ops s s'"
  shows "\<exists>more. ledger_inv paths ops w0 (order @ more) s'"
proof -
  note inv = assms(1) [unfolded ledger_inv_def]
  have own: "sh_owner s = Some i" if "inside (sh_phase s i)" for i using inv that by blast
  from assms(2) show ?thesis
  proof cases
    case (refuse i a)
    have "sh_owner s \<noteq> Some i" using inv refuse(2) phase_simps(6) by metis
    then have "ledger_inv paths ops w0 (order @ [i]) s'"
      using refuse early_run [OF refuse(3), of "paths i" "serial paths ops order w0"]
      by (intro inv_answered [OF assms(1), of i a _ "Returned a"]) simp_all
    then show ?thesis by blast
  next
    case (acquire i)
    then have "ledger_inv paths ops w0 (order @ []) s'"
      using inv by (auto simp: ledger_inv_def)
    then show ?thesis by blast
  next
    case (load_fails i e w1)
    then have o: "sh_owner s = Some i" "sh_world s = serial paths ops order w0" "early (ops i) = None"
      using inv own [of i] by auto
    then have "ledger_inv paths ops w0 (order @ [i]) s'"
      using load_fails run_parts [OF o(3), of "paths i" "serial paths ops order w0"]
      by (intro inv_answered [OF assms(1), of i "load_failed (ops i) e" w1 "Leaving (load_failed (ops i) e)"]) simp_all
    then show ?thesis by blast
  next
    case (loads i es w1)
    then have o: "sh_owner s = Some i" "sh_world s = serial paths ops order w0" using inv own [of i] by auto
    then have "ledger_inv paths ops w0 (order @ []) s'"
      using inv loads by (auto simp: ledger_inv_def)
    then show ?thesis by blast
  next
    case (finishes i es a w1)
    then have o: "sh_owner s = Some i" "load_locked (paths i) (serial paths ops order w0) = (Inr es, sh_world s)" "early (ops i) = None"
      using inv own [of i] by auto
    then have "ledger_inv paths ops w0 (order @ [i]) s'"
      using finishes run_parts [OF o(3), of "paths i" "serial paths ops order w0"]
      by (intro inv_answered [OF assms(1), of i a w1 "Leaving a"]) simp_all
    then show ?thesis by blast
  next
    case (releases i a)
    then have o: "sh_owner s = Some i" "sh_world s = serial paths ops order w0" using inv own [of i] by auto
    then have "ledger_inv paths ops w0 (order @ []) s'"
      using inv releases by (auto simp: ledger_inv_def)
    then show ?thesis by blast
  qed
qed

lemma inv_start: "ledger_inv paths ops w [] (start w)"
  by (simp add: ledger_inv_def start_def serial_def)

lemma inv_reaches:
  "reaches paths ops s s' \<Longrightarrow> ledger_inv paths ops w order s \<Longrightarrow> \<exists>more. ledger_inv paths ops w (order @ more) s'"
proof (induction rule: reaches.induct)
  case here
  then show ?case by (metis append_Nil2)
next
  case (onward s1 s2)
  then show ?case using inv_step by (metis append_assoc)
qed

text \<open>What the code promises: the operations might have run one after the other.\<close>

definition as_serial :: "(nat \<Rightarrow> string) \<Rightarrow> (nat \<Rightarrow> ledger_op) \<Rightarrow> world \<Rightarrow> nat list \<Rightarrow> shared \<Rightarrow> bool" where
  "as_serial paths ops w0 order s \<longleftrightarrow>
     distinct order \<and> (\<forall>i. i \<in> set order \<longleftrightarrow> served (sh_phase s i) \<noteq> None) \<and>
     (\<forall>i a. served (sh_phase s i) = Some a \<longrightarrow> a = serial_answer paths ops order w0 i) \<and>
     (sh_owner s = None \<longrightarrow> sh_world s = serial paths ops order w0)"

lemma inv_as_serial: "ledger_inv paths ops w0 order s \<Longrightarrow> as_serial paths ops w0 order s"
  by (auto simp: ledger_inv_def as_serial_def)

lemma reached_inv: "reaches paths ops (start w0) s \<Longrightarrow> \<exists>order. ledger_inv paths ops w0 order s"
  using inv_reaches [OF _ inv_start] by blast

subsection \<open>Progress\<close>

fun work :: "phase \<Rightarrow> nat" where
  "work Ready = 0"
| "work Locked = 1"
| "work (Holding _) = 2"
| "work (Leaving _) = 3"
| "work (Returned _) = 4"

definition started :: "shared \<Rightarrow> nat set" where
  "started s = {i. sh_phase s i \<noteq> Ready}"

lemma work_bound: "work p \<le> 4"
  by (cases p) simp_all

lemma worked:
  "sh_phase s' = (sh_phase s)(i := p) \<Longrightarrow> work (sh_phase s i) < work p \<Longrightarrow>
    \<exists>i p. sh_phase s' = (sh_phase s)(i := p) \<and> work (sh_phase s i) < work p"
  by blast

lemma step_works:
  assumes "ledger_step paths ops s s'"
  shows "\<exists>i p. sh_phase s' = (sh_phase s)(i := p) \<and> work (sh_phase s i) < work p"
  using assms
proof cases
  case (refuse i a)
  then show ?thesis by (intro worked [of _ _ i "Returned a"]) simp_all
next
  case (acquire i)
  then show ?thesis by (intro worked [of _ _ i Locked]) simp_all
next
  case (load_fails i e w1)
  then show ?thesis by (intro worked [of _ _ i "Leaving (load_failed (ops i) e)"]) simp_all
next
  case (loads i es w1)
  then show ?thesis by (intro worked [of _ _ i "Holding es"]) simp_all
next
  case (finishes i es a w1)
  then show ?thesis by (intro worked [of _ _ i "Leaving a"]) simp_all
next
  case (releases i a)
  then show ?thesis by (intro worked [of _ _ i "Returned a"]) simp_all
qed

lemma steps_worked:
  "(ledger_step paths ops ^^ n) (start w) s \<Longrightarrow> finite (started s) \<and> n \<le> (\<Sum>i \<in> started s. work (sh_phase s i))"
proof (induction n arbitrary: s)
  case 0
  then have "s = start w" by simp
  then have "started s = {}" by (simp add: started_def start_def)
  then show ?case by simp
next
  case (Suc n)
  then obtain s1 where s1: "(ledger_step paths ops ^^ n) (start w) s1" "ledger_step paths ops s1 s" by auto
  from step_works [OF this(2)] obtain i p where p: "sh_phase s = (sh_phase s1)(i := p)" "work (sh_phase s1 i) < work p" by blast
  have fin: "finite (started s1)" and le: "n \<le> (\<Sum>j \<in> started s1. work (sh_phase s1 j))" using Suc.IH [OF s1(1)] by auto
  have i: "started s = insert i (started s1)" using p by (auto simp: started_def)
  have "(\<Sum>j \<in> started s1 - {i}. work (sh_phase s j)) = (\<Sum>j \<in> started s1 - {i}. work (sh_phase s1 j))"
    by (rule sum.cong) (auto simp: p(1))
  then have "(\<Sum>j \<in> started s. work (sh_phase s j)) = work p + (\<Sum>j \<in> started s1 - {i}. work (sh_phase s1 j))"
    using fin p(1) by (simp add: i sum.insert_remove)
  moreover have "(\<Sum>j \<in> started s1. work (sh_phase s1 j)) \<le> work (sh_phase s1 i) + (\<Sum>j \<in> started s1 - {i}. work (sh_phase s1 j))"
    using fin by (cases "i \<in> started s1") (simp_all add: sum.remove)
  ultimately show ?case using le p(2) fin i by simp
qed

lemma steps_reach: "(ledger_step paths ops ^^ n) s s' \<Longrightarrow> reaches paths ops s s'"
  by (induction n arbitrary: s') (auto intro: reaches.intros)

lemma moved:
  "ledger_step paths ops s s' \<Longrightarrow> sh_phase s' i \<noteq> sh_phase s i \<Longrightarrow> \<exists>s'. ledger_step paths ops s s' \<and> sh_phase s' i \<noteq> sh_phase s i"
  by blast

lemma can_move:
  assumes "\<And>a. sh_phase s i \<noteq> Returned a"
    "sh_phase s i = Ready \<Longrightarrow> early (ops i) = None \<Longrightarrow> sh_owner s = None"
  shows "\<exists>s'. ledger_step paths ops s s' \<and> sh_phase s' i \<noteq> sh_phase s i"
proof (cases "sh_phase s i")
  case Ready
  show ?thesis
  proof (cases "early (ops i)")
    case None
    then have "sh_owner s = None" using Ready assms(2) by simp
    with Ready None show ?thesis by (intro moved [OF ledger_step.acquire [of s i]]) simp_all
  next
    case (Some a)
    with Ready show ?thesis by (intro moved [OF ledger_step.refuse [of s i _ a]]) simp_all
  qed
next
  case Locked
  obtain l w1 where l: "load_locked (paths i) (sh_world s) = (l, w1)" by fastforce
  show ?thesis
  proof (cases l)
    case (Inl e)
    with Locked l show ?thesis by (intro moved [OF ledger_step.load_fails [of s i _ e w1]]) simp_all
  next
    case (Inr es)
    with Locked l show ?thesis by (intro moved [OF ledger_step.loads [of s i _ es w1]]) simp_all
  qed
next
  case (Holding es)
  obtain a w1 where a: "with_entries (paths i) (ops i) es (sh_world s) = (a, w1)" by fastforce
  with Holding show ?thesis by (intro moved [OF ledger_step.finishes [of s i es _ _ a w1]]) simp_all
next
  case (Leaving a)
  then show ?thesis by (intro moved [OF ledger_step.releases [of s i a]]) simp_all
qed (use assms(1) in blast)

subsection \<open>Records of several goroutines\<close>

lemma serial_records:
  assumes "path_ok path r False w0" "ledger_state path r w0 = Some es" "storable es" "\<And>i. storable [ms i]"
  shows "path_ok path r False (serial (\<lambda>_. path) (\<lambda>i. Record (ms i)) order w0) \<and>
    ledger_state path r (serial (\<lambda>_. path) (\<lambda>i. Record (ms i)) order w0) = Some (es @ map ms order)"
proof (induction order rule: rev_induct)
  case Nil
  then show ?case using assms by (simp add: serial_def)
next
  case (snoc i order)
  let ?w = "serial (\<lambda>_. path) (\<lambda>i. Record (ms i)) order w0"
  obtain l w1 where l: "load_locked path ?w = (l, w1)" by fastforce
  note lq = load_quiet [OF conjunct1 [OF snoc] conjunct2 [OF snoc] l]
  obtain res w2 where sv: "save_locked path (es @ map ms order @ [ms i]) w1 = (res, w2)" by fastforce
  have "storable (es @ map ms order @ [ms i])"
    using assms(3,4) by (auto simp: storable_def good_entries_def list_all_iff)
  note sq = save_quiet [OF lq(2) this sv]
  have "ledger_record path (ms i) ?w = (res, w2)" using l lq(1) sv by (simp add: ledger_record_def)
  then have "serial (\<lambda>_. path) (\<lambda>i. Record (ms i)) (order @ [i]) w0 = w2" by (simp add: serial_snoc)
  then show ?case using sq by simp
qed

text \<open>A goroutine that runs while nobody else moves.\<close>

lemma solo_run:
  assumes "sh_phase s i = Ready" "early (ops i) = None" "sh_owner s = None" "run_op (paths i) (ops i) (sh_world s) = (a, w1)"
  shows "reaches paths ops s (s\<lparr>sh_world := w1, sh_owner := None, sh_phase := (sh_phase s)(i := Returned a)\<rparr>)"
proof -
  let ?at = "\<lambda>p w1. s\<lparr>sh_owner := Some i, sh_phase := (sh_phase s)(i := p), sh_world := w1\<rparr>"
  have s1: "reaches paths ops s (?at Locked (sh_world s))"
    using onward [OF here acquire [of s i ops paths]] assms by simp
  obtain l w2 where l: "load_locked (paths i) (sh_world s) = (l, w2)" by fastforce
  have "reaches paths ops s (?at (Leaving a) w1)"
  proof (cases l)
    case (Inl e)
    then have "a = load_failed (ops i) e" "w1 = w2" using assms(4) l run_parts [OF assms(2)] by auto
    then show ?thesis using onward [OF s1 load_fails [of _ i paths e w2]] l Inl by simp
  next
    case (Inr es)
    then have a: "with_entries (paths i) (ops i) es w2 = (a, w1)" using assms(4) l run_parts [OF assms(2)] by auto
    have "reaches paths ops s (?at (Holding es) w2)" using onward [OF s1 loads [of _ i paths es w2]] l Inr by simp
    then show ?thesis using onward [OF _ finishes [of "?at (Holding es) w2" i es paths ops a w1]] a by simp
  qed
  then show ?thesis using onward [OF _ releases [of "?at (Leaving a) w1" i a]] by simp
qed

lemma reaches_trans: "reaches paths ops s1 s2 \<Longrightarrow> reaches paths ops s0 s1 \<Longrightarrow> reaches paths ops s0 s2"
  by (induction rule: reaches.induct) (auto intro: onward)

subsection \<open>Two goroutines\<close>

lemma two_distinct:
  assumes "distinct xs" "set xs = {a, b}" "a \<noteq> b"
  shows "xs = [a, b] \<or> xs = [b, a]"
proof -
  have "length xs = 2" using assms distinct_card [of xs] by simp
  then obtain x y where "xs = [x, y]" by (auto simp: length_Suc_conv numeral_2_eq_2)
  then show ?thesis using assms by (auto simp: doubleton_eq_iff)
qed

definition two_ops :: "nat \<Rightarrow> ledger_op" where
  "two_ops i = Record (if i = 0 then demo_meta else zero_metadata)"

definition two_paths :: "nat \<Rightarrow> string" where
  "two_paths i = ''/h/t.json''"

lemma two_run:
  "\<exists>s b c. reaches two_paths two_ops (start (demo_world [])) s \<and> sh_owner s = None \<and>
     sh_phase s = (\<lambda>_. Ready)(0 := Returned b, 1 := Returned c)"
proof -
  let ?s0 = "start (demo_world [])"
  obtain b w1 where b: "run_op (two_paths 0) (two_ops 0) (sh_world ?s0) = (b, w1)" by fastforce
  have s1: "reaches two_paths two_ops ?s0 (?s0\<lparr>sh_world := w1, sh_owner := None, sh_phase := (sh_phase ?s0)(0 := Returned b)\<rparr>)"
    using b by (intro solo_run) (simp_all add: start_def two_ops_def)
  let ?s1 = "?s0\<lparr>sh_world := w1, sh_owner := None, sh_phase := (sh_phase ?s0)(0 := Returned b)\<rparr>"
  obtain c w2 where c: "run_op (two_paths 1) (two_ops 1) (sh_world ?s1) = (c, w2)" by fastforce
  have "reaches two_paths two_ops ?s1 (?s1\<lparr>sh_world := w2, sh_owner := None, sh_phase := (sh_phase ?s1)(1 := Returned c)\<rparr>)"
    using c by (intro solo_run) (simp_all add: start_def two_ops_def)
  from reaches_trans [OF this s1] show ?thesis by (intro exI conjI) (assumption, simp_all add: start_def)
qed

subsection \<open>Properties\<close>

text \<open>C6: operations of several goroutines, on one ledger file or on several, behave as if they had run
  one after the other, and an operation that starts later comes later: the answers and the world at any
  point are those of one order of the operations served so far, which only grows at its end.\<close>

theorem ledger_serializable:
  assumes "reaches paths ops (start w0) s" "reaches paths ops s s'"
  shows "\<exists>order more. as_serial paths ops w0 order s \<and> as_serial paths ops w0 (order @ more) s'"
proof -
  obtain order where o: "ledger_inv paths ops w0 order s" using reached_inv [OF assms(1)] by blast
  with inv_reaches [OF assms(2)] show ?thesis using inv_as_serial by blast
qed

theorem ledger_serializable_witness:
  "\<exists>s order. as_serial two_paths two_ops (demo_world []) order s \<and> set order = {0, 1} \<and>
     sh_world s = serial two_paths two_ops order (demo_world [])"
proof -
  obtain s b c where s: "reaches two_paths two_ops (start (demo_world [])) s" "sh_owner s = None"
    "sh_phase s = (\<lambda>_. Ready)(0 := Returned b, 1 := Returned c)" using two_run by blast
  from ledger_serializable [OF s(1) here] obtain order where o: "as_serial two_paths two_ops (demo_world []) order s" by blast
  then have "set order = {i. served (sh_phase s i) \<noteq> None}" unfolding as_serial_def by blast
  also have "\<dots> = {0, 1}" using s(3) by auto
  finally have "set order = {0, 1}" .
  moreover have "sh_world s = serial two_paths two_ops order (demo_world [])" using o s(2) unfolding as_serial_def by blast
  ultimately show ?thesis using o by blast
qed

text \<open>C17: no recorded token is lost.  Whatever the order in which the goroutines run, the ledger holds the
  old entries and behind them, once each, exactly those whose \<open>Record\<close> went through.\<close>

theorem ledger_records_kept:
  assumes "path_ok path r False w0" "ledger_state path r w0 = Some es" "storable es" "\<And>i. storable [ms i]"
    and "reaches (\<lambda>_. path) (\<lambda>i. Record (ms i)) (start w0) s" "sh_owner s = None"
  shows "\<exists>order. distinct order \<and> set order = {i. sh_phase s i \<noteq> Ready} \<and>
    ledger_state path r (sh_world s) = Some (es @ map ms order)"
proof -
  obtain order where o: "ledger_inv (\<lambda>_. path) (\<lambda>i. Record (ms i)) w0 order s" using reached_inv [OF assms(5)] by blast
  then have "\<not> inside (sh_phase s i)" for i using assms(6) by (auto simp: ledger_inv_def)
  then have "served (sh_phase s i) \<noteq> None \<longleftrightarrow> sh_phase s i \<noteq> Ready" for i using served_outside by blast
  then have "distinct order" "set order = {i. sh_phase s i \<noteq> Ready}"
    "sh_world s = serial (\<lambda>_. path) (\<lambda>i. Record (ms i)) order w0"
    using o assms(6) by (auto simp: ledger_inv_def)
  with serial_records [OF assms(1-4), where order = order] show ?thesis by auto
qed

theorem ledger_records_kept_witness:
  "\<exists>s es. reaches two_paths two_ops (start (demo_world [])) s \<and> ledger_state ''/h/t.json'' 5 (sh_world s) = Some es \<and>
     es \<in> {[demo_meta, zero_metadata], [zero_metadata, demo_meta]}"
proof -
  obtain s b c where s: "reaches two_paths two_ops (start (demo_world [])) s" "sh_owner s = None"
    "sh_phase s = (\<lambda>_. Ready)(0 := Returned b, 1 := Returned c)" using two_run by blast
  let ?ms = "\<lambda>i::nat. if i = 0 then demo_meta else zero_metadata"
  have fs: "two_paths = (\<lambda>_. ''/h/t.json'')" "two_ops = (\<lambda>i. Record (?ms i))" by (auto simp: two_paths_def two_ops_def)
  have one: "storable [?ms i]" for i
    using demo_storable by (simp add: storable_def good_entries_def)
  have "path_ok ''/h/t.json'' 5 False (demo_world [])" by (rule demo_path_ok) simp
  from ledger_records_kept [OF this demo_ledger _ one s(1) [unfolded fs] s(2)]
  obtain order where o: "distinct order" "set order = {i. sh_phase s i \<noteq> Ready}"
    "ledger_state ''/h/t.json'' 5 (sh_world s) = Some (map ?ms order)"
    by (auto simp: storable_def good_entries_def)
  then have "set order = {0, 1}" using s(3) by (auto split: if_splits)
  with o(1) have "map ?ms order \<in> {[demo_meta, zero_metadata], [zero_metadata, demo_meta]}" using two_distinct by fastforce
  with s(1) o(3) show ?thesis by (intro exI conjI)
qed

text \<open>The mutex never blocks for good.  Goroutines that have started take at most four steps each,
  and one that has not returned can move itself or waits for the one that holds the mutex, which can.\<close>

theorem ledger_never_stuck:
  assumes "(ledger_step paths ops ^^ n) (start w0) s"
  shows "finite (started s) \<and> n \<le> 4 * card (started s) \<and>
    ((\<exists>a. sh_phase s i = Returned a) \<or>
      (\<exists>j s'. ledger_step paths ops s s' \<and> sh_phase s' j \<noteq> sh_phase s j \<and> (j = i \<or> sh_owner s = Some j)))"
proof (intro conjI)
  note worked = steps_worked [OF assms]
  show "finite (started s)" using worked by simp
  have "(\<Sum>j \<in> started s. work (sh_phase s j)) \<le> card (started s) * 4"
    using sum_bounded_above [of "started s" "\<lambda>j. work (sh_phase s j)" 4] work_bound by simp
  then show "n \<le> 4 * card (started s)" using worked by simp
next
  obtain order where o: "ledger_inv paths ops w0 order s" using reached_inv [OF steps_reach [OF assms]] by blast
  show "(\<exists>a. sh_phase s i = Returned a) \<or>
      (\<exists>j s'. ledger_step paths ops s s' \<and> sh_phase s' j \<noteq> sh_phase s j \<and> (j = i \<or> sh_owner s = Some j))"
  proof (cases "sh_owner s")
    case None
    then show ?thesis using can_move [of s i] by blast
  next
    case (Some j)
    then have "inside (sh_phase s j)" using o by (auto simp: ledger_inv_def)
    then have "\<exists>s'. ledger_step paths ops s s' \<and> sh_phase s' j \<noteq> sh_phase s j" by (intro can_move) auto
    then show ?thesis using Some by blast
  qed
qed

theorem ledger_never_stuck_witness:
  "\<exists>s. (ledger_step two_paths two_ops ^^ 1) (start (demo_world [])) s \<and> sh_owner s = Some 0 \<and>
     (\<exists>s'. ledger_step two_paths two_ops s s' \<and> sh_phase s' 0 \<noteq> Locked)"
proof -
  let ?s = "(start (demo_world []))\<lparr>sh_owner := Some 0, sh_phase := (sh_phase (start (demo_world [])))(0 := Locked)\<rparr>"
  have run: "(ledger_step two_paths two_ops ^^ 1) (start (demo_world [])) ?s"
    unfolding relpowp_1 by (rule ledger_step.acquire) (simp_all add: start_def two_ops_def)
  from ledger_never_stuck [OF this, of 0] obtain s' where "ledger_step two_paths two_ops ?s s'" "sh_phase s' 0 \<noteq> Locked"
    by (auto simp: start_def)
  then show ?thesis using run by (intro exI [of _ ?s]) auto
qed

end
