(* ===== verification/Go_Quote.thy ===== *)
theory Go_Quote
  imports Go_Codec
begin

text \<open>
  \<open>strconv.Quote\<close>, the verb \<open>%q\<close> of the error texts.  Runes beyond ASCII are taken as printable, so they are
  copied; the tables of \<open>unicode\<close> that say otherwise for a few of them are not modelled.
\<close>

definition quote_ascii :: "char \<Rightarrow> string" where
  "quote_ascii c =
     (if c = CHR 0x22 \<or> c = CHR 0x5C then [CHR 0x5C, c]
      else if 0x20 \<le> byte c \<and> byte c < 0x7F then [c]
      else if c = CHR 0x07 then [CHR 0x5C, CHR ''a''] else if c = CHR 0x08 then [CHR 0x5C, CHR ''b'']
      else if c = CHR 0x0C then [CHR 0x5C, CHR ''f''] else if c = CHR 0x0A then [CHR 0x5C, CHR ''n'']
      else if c = CHR 0x0D then [CHR 0x5C, CHR ''r''] else if c = CHR 0x09 then [CHR 0x5C, CHR ''t'']
      else if c = CHR 0x0B then [CHR 0x5C, CHR ''v'']
      else [CHR 0x5C, CHR ''x'', hex_char (byte c div 16), hex_char (byte c mod 16)])"

function quote_body :: "string \<Rightarrow> string" where
  "quote_body [] = []"
| "quote_body (c # s) =
     (if byte c < 0x80 \<or> utf8_len (c # s) = 0 then quote_ascii c @ quote_body s
      else take (utf8_len (c # s)) (c # s) @ quote_body (drop (utf8_len (c # s)) (c # s)))"
  by pat_completeness auto
termination
  by (relation "measure length") (simp_all add: length_drop)

definition go_quote :: "string \<Rightarrow> string" where
  "go_quote s = CHR 0x22 # quote_body s @ [CHR 0x22]"

end
