(* ===== verification/Session.thy ===== *)
theory Session
  imports Store_Interface Go_Quote
begin

text \<open>
  The package \<open>session\<close> (\<open>session.go\<close>): a cached key per provider with an expiry, one JSON
  file each under the manager's directory.
\<close>

subsection \<open>Sessions and their expiry\<close>

definition default_ttl :: duration where
  "default_ttl = 4 * 3600 * second"

record session =
  ss_expires :: "gotime option"
  ss_key :: string
  ss_created :: gotime
  ss_ttl :: int64
  ss_provider :: string

definition max_int64 :: int where
  "max_int64 = 2 ^ 63 - 1"

definition session_expired :: "session \<Rightarrow> world \<Rightarrow> bool \<times> world" where
  "session_expired s w =
     (case ss_expires s of
        Some x \<Rightarrow> (case time_now w of (t, w1) \<Rightarrow> (\<not> t_before t x, w1))
      | None \<Rightarrow>
          if sint (ss_ttl s) < 0 \<or> sint (ss_ttl s) > trunc_div max_int64 (sint second) then (True, w)
          else (case time_now w of (t, w1) \<Rightarrow> (\<not> t_before t (t_add (ss_created s) (ss_ttl s * second)), w1)))"

subsection \<open>The manager\<close>

record session_manager =
  sm_dir :: string
  sm_ttl :: duration

definition new_session_manager :: "string \<Rightarrow> duration \<Rightarrow> session_manager" where
  "new_session_manager dir ttl = \<lparr>sm_dir = dir, sm_ttl = (if ttl = 0 then default_ttl else ttl)\<rparr>"

definition forbidden_chars :: string where
  "forbidden_chars = ''/'' @ [CHR 0x5C] @ '':*?'' @ [CHR 0x22] @ ''<>|''"

definition valid_provider :: "string \<Rightarrow> bool" where
  "valid_provider p = (\<not> (p = ''.'' \<or> p = ''..'' \<or> contains_any p forbidden_chars \<or>
     trim_space p \<noteq> p \<or> contains_control p))"

definition validate_provider :: "string \<Rightarrow> goerr option" where
  "validate_provider p =
     (if valid_provider p then None
      else Some (WrapErr (''provider '' @ go_quote p @ '': '') (Sentinel ErrInvalidProvider)))"

definition session_path :: "session_manager \<Rightarrow> string \<Rightarrow> string" where
  "session_path m p =
     (if p = [] then join_path [sm_dir m, ''session.json'']
      else join_path [sm_dir m, ''session-'' @ p @ ''.json''])"

definition enc_session :: "session \<Rightarrow> json option" where
  "enc_session s =
     (case enc_time_ptr ''expires_at'' (ss_expires s) of
        None \<Rightarrow> None
      | Some je \<Rightarrow>
     (case enc_time (ss_created s) of
        None \<Rightarrow> None
      | Some jc \<Rightarrow>
          Some (JObj (je @ [(''key'', enc_string (ss_key s)), (''created_at'', jc),
            (''ttl_seconds'', enc_int64 (ss_ttl s))] @
            omit (ss_provider s = []) ''provider'' (enc_string (ss_provider s))))))"

definition zero_session :: session where
  "zero_session = \<lparr>ss_expires = None, ss_key = [], ss_created = zero_time, ss_ttl = 0, ss_provider = []\<rparr>"

definition session_fields :: "session fields" where
  "session_fields =
     [(''expires_at'', dec_field dec_time_ptr ss_expires (\<lambda>v s. s\<lparr>ss_expires := v\<rparr>)),
      (''key'', dec_field dec_string ss_key (\<lambda>v s. s\<lparr>ss_key := v\<rparr>)),
      (''created_at'', dec_field dec_time ss_created (\<lambda>v s. s\<lparr>ss_created := v\<rparr>)),
      (''ttl_seconds'', dec_field dec_int64 ss_ttl (\<lambda>v s. s\<lparr>ss_ttl := v\<rparr>)),
      (''provider'', dec_field dec_string ss_provider (\<lambda>v s. s\<lparr>ss_provider := v\<rparr>))]"

definition parse_session :: "string \<Rightarrow> session option" where
  "parse_session data = (case json_parse data of None \<Rightarrow> None | Some j \<Rightarrow> dec_struct session_fields j zero_session)"

definition session_load :: "session_manager \<Rightarrow> string \<Rightarrow> session io" where
  "session_load m p w =
     (case validate_provider p of
        Some e \<Rightarrow> (Inl e, w)
      | None \<Rightarrow>
     (case read_secure_at (sm_dir m) (path_base (session_path m p)) w of
        (Inl e, w1) \<Rightarrow> (Inl (WrapErr ''load session: '' e), w1)
      | (Inr data, w1) \<Rightarrow>
          (case parse_session data of
             None \<Rightarrow> (Inl (WrapErr ''parse session: '' (MsgErr ''json'')), w1)
           | Some s \<Rightarrow> (Inr s, w1))))"

definition new_session :: "session_manager \<Rightarrow> string \<Rightarrow> string \<Rightarrow> gotime \<Rightarrow> session" where
  "new_session m p key t =
     \<lparr>ss_expires = Some (t_add t (sm_ttl m)), ss_key = key, ss_created = t,
      ss_ttl = div64 (sm_ttl m) second, ss_provider = p\<rparr>"

definition session_save :: "session_manager \<Rightarrow> string \<Rightarrow> string \<Rightarrow> unit io" where
  "session_save m p key w =
     (case validate_provider p of
        Some e \<Rightarrow> (Inl e, w)
      | None \<Rightarrow>
     (case time_now w of
        (t, w1) \<Rightarrow>
     (case enc_session (new_session m p key (t_utc t)) of
        None \<Rightarrow> (Inl (WrapErr ''marshal session: '' (MsgErr ''json'')), w1)
      | Some j \<Rightarrow> write_secure_at (sm_dir m) (path_base (session_path m p)) (print_compact j) w1)))"

definition session_clear :: "session_manager \<Rightarrow> string \<Rightarrow> unit io" where
  "session_clear m p w =
     (case validate_provider p of
        Some e \<Rightarrow> (Inl e, w)
      | None \<Rightarrow>
     (case remove_secure_at (sm_dir m) (path_base (session_path m p)) w of
        (Inl e, w1) \<Rightarrow> if is_not_exist e then (Inr (), w1) else (Inl (WrapErr ''clear session: '' e), w1)
      | (Inr _, w1) \<Rightarrow> (Inr (), w1)))"

fun first_env :: "world \<Rightarrow> string list \<Rightarrow> string option" where
  "first_env w [] = None"
| "first_env w (n # ns) = (if getenv w n \<noteq> [] then Some (getenv w n) else first_env w ns)"

definition session_resolve :: "session_manager \<Rightarrow> string \<Rightarrow> string \<Rightarrow> string list \<Rightarrow> string io" where
  "session_resolve m p explicit envs w =
     (case validate_provider p of
        Some e \<Rightarrow> (Inl e, w)
      | None \<Rightarrow>
          if explicit \<noteq> [] then (Inr explicit, w)
          else case first_env w envs of
            Some v \<Rightarrow> (Inr v, w)
          | None \<Rightarrow>
              (case session_load m p w of
                 (Inl e, w1) \<Rightarrow> if is_not_exist e then (Inr [], w1) else (Inl e, w1)
               | (Inr s, w1) \<Rightarrow>
                   (case session_expired s w1 of
                      (x, w2) \<Rightarrow> if x then (Inr [], w2) else (Inr (ss_key s), w2))))"

subsection \<open>Names\<close>

definition session_file :: "string \<Rightarrow> string" where
  "session_file p = (if p = [] then ''session.json'' else ''session-'' @ p @ ''.json'')"

lemma valid_provider_no_slash: "valid_provider p \<Longrightarrow> CHR ''/'' \<notin> set p"
  by (auto simp: valid_provider_def contains_any_def forbidden_chars_def list_ex_iff)

lemma session_file_name: "valid_provider p \<Longrightarrow> fname (session_file p)"
  using valid_provider_no_slash [of p]
  by (auto simp: fname_def plain_name_def session_file_def has_prefix_def temp_prefix_def)

lemma session_path_base [simp]: "valid_provider p \<Longrightarrow> path_base (session_path m p) = session_file p"
  using session_file_name [of p] by (auto simp: session_path_def session_file_def fname_def)

lemma session_file_inj: "session_file p = session_file q \<Longrightarrow> p = q"
  by (auto simp: session_file_def split: if_splits)

definition session_layout :: layout where
  "session_layout = \<lparr>lay_file = (\<lambda>n. \<exists>p. valid_provider p \<and> n = session_file p),
     lay_dir = (\<lambda>_. False), lay_sub = (\<lambda>_. False), lay_strict = False\<rparr>"

lemma session_layout_valid: "valid_layout session_layout"
  using session_file_name by (auto simp: valid_layout_def session_layout_def)

lemma session_managed: "valid_provider p \<Longrightarrow> managed session_layout (session_file p)"
  by (auto simp: managed_def session_layout_def)

lemma validate_cases:
  "valid_provider p \<Longrightarrow> validate_provider p = None"
  "\<not> valid_provider p \<Longrightarrow> validate_provider p = Some (WrapErr (''provider '' @ go_quote p @ '': '') (Sentinel ErrInvalidProvider))"
  by (simp_all add: validate_provider_def)

subsection \<open>The JSON form\<close>

definition good_session :: "session \<Rightarrow> bool" where
  "good_session s = (valid_utf8 (ss_key s) \<and> valid_utf8 (ss_provider s))"

definition session_text :: "session \<Rightarrow> string option" where
  "session_text s = (if good_session s then map_option print_compact (enc_session s) else None)"

lemma session_lookup [simp]:
  "map_of session_fields ''expires_at'' = Some (dec_field dec_time_ptr ss_expires (\<lambda>v s. s\<lparr>ss_expires := v\<rparr>))"
  "map_of session_fields ''key'' = Some (dec_field dec_string ss_key (\<lambda>v s. s\<lparr>ss_key := v\<rparr>))"
  "map_of session_fields ''created_at'' = Some (dec_field dec_time ss_created (\<lambda>v s. s\<lparr>ss_created := v\<rparr>))"
  "map_of session_fields ''ttl_seconds'' = Some (dec_field dec_int64 ss_ttl (\<lambda>v s. s\<lparr>ss_ttl := v\<rparr>))"
  "map_of session_fields ''provider'' = Some (dec_field dec_string ss_provider (\<lambda>v s. s\<lparr>ss_provider := v\<rparr>))"
  by (simp_all add: session_fields_def)

lemma session_keys [simp]:
  "unquote ''expires_at'' = ''expires_at''" "unquote ''key'' = ''key''" "unquote ''created_at'' = ''created_at''"
  "unquote ''ttl_seconds'' = ''ttl_seconds''" "unquote ''provider'' = ''provider''"
  by (rule unquote_plain, simp)+

lemma session_raw [simp]: "raw_ok ''expires_at''" "raw_ok ''key''" "raw_ok ''created_at''" "raw_ok ''ttl_seconds''" "raw_ok ''provider''"
  by (rule raw_ok_key, simp add: plain_char_def)+

lemma parse_session_text:
  assumes "session_text s = Some t"
  shows "parse_session t = Some s"
proof -
  from assms obtain j je jc where g: "good_session s" and t: "t = print_compact j" and j: "enc_session s = Some j"
    and je: "enc_time_ptr ''expires_at'' (ss_expires s) = Some je" and jc: "enc_time (ss_created s) = Some jc"
    by (auto simp: session_text_def enc_session_def split: option.splits if_splits)
  have ptr: "dec_members session_fields (je @ ms) a = dec_members session_fields ms (if ss_expires s = None then a else a\<lparr>ss_expires := ss_expires s\<rparr>)"
    for ms a
    using je by (auto simp: enc_time_ptr_def find_field_def dec_field_def dec_enc_time(2) split: option.splits)
  have dec: "dec_struct session_fields j zero_session = Some s"
    using j g unfolding good_session_def
    by (auto simp: enc_session_def je jc zero_session_def ptr dec_members_omit
        find_field_def dec_field_def dec_enc_string dec_enc_int64 dec_enc_time(1) [OF jc])
  note je' = enc_time_ptr_ok [OF je session_raw(1)]
  have "json_ok j" using j je' dec_enc_time(3) [OF jc] by (auto simp: enc_session_def je jc)
  moreover have "json_depth j \<le> Suc 0"
    using j je'(2) [of 0] dec_enc_time(4) [OF jc] by (auto simp: enc_session_def je jc json_depth_obj simp del: json_depth.simps)
  ultimately have "json_parse t = Some j"
    using json_parse_compact [of j "[]"] by (simp add: t max_nesting_def all_ws_def)
  then show ?thesis using dec by (simp add: parse_session_def)
qed

interpretation session_store: typed_store "store_ok session_layout dir r" "managed session_layout"
    "store_view session_layout r" "read_secure_at dir" "write_secure_at dir" session_text parse_session "\<lambda>s. s"
  for dir r
  by unfold_locales (rule parse_session_text)

subsection \<open>Operations on the cache seen as a map\<close>

lemma session_ready:
  assumes "store_ok session_layout dir r b w"
  shows "store_ok session_layout dir r b (snd (time_now w))" "store_view session_layout r (snd (time_now w)) = store_view session_layout r w"
  using assms by (simp_all add: store_ok_def calm_world_def time_now_frame store_view_def)

lemma session_save_law:
  assumes "store_ok session_layout (sm_dir m) r b w" "valid_provider p" "session_save m p key w = (res, w')"
  shows "store_ok session_layout (sm_dir m) r b w' \<and>
    (case res of
       Inl e \<Rightarrow> (b \<or> enc_session (new_session m p key (t_utc (now w))) = None) \<and>
              store_view session_layout r w' = store_view session_layout r w
     | Inr _ \<Rightarrow> \<exists>j. enc_session (new_session m p key (t_utc (now w))) = Some j \<and>
              store_view session_layout r w' = (store_view session_layout r w)(session_file p \<mapsto> print_compact j))"
proof -
  have t: "time_now w = (now w, snd (time_now w))" by (simp add: now_def)
  note ok = session_ready [OF assms(1)]
  show ?thesis
  proof (cases "enc_session (new_session m p key (t_utc (now w)))")
    case None
    then have "(res, w') = (Inl (WrapErr ''marshal session: '' (MsgErr ''json'')), snd (time_now w))"
      using assms(3) assms(2) by (subst (asm) session_save_def) (subst (asm) t, simp add: validate_cases)
    then show ?thesis using ok None by simp
  next
    case (Some j)
    then have "write_secure_at (sm_dir m) (session_file p) (print_compact j) (snd (time_now w)) = (res, w')"
      using assms(3) assms(2) by (subst (asm) session_save_def) (subst (asm) t, simp add: validate_cases)
    from rooted.write_law [OF ok(1) session_managed [OF assms(2)] this] show ?thesis
      using ok(2) Some by (auto split: sum.splits)
  qed
qed

lemma session_save_env:
  assumes "store_ok session_layout (sm_dir m) r b w" "valid_provider p" "session_save m p key w = (res, w')" "ticks w = []"
  shows "same_env w w'"
proof -
  have t: "time_now w = (now w, w)" by (rule time_now_still [OF assms(4)])
  show ?thesis
  proof (cases "enc_session (new_session m p key (t_utc (now w)))")
    case None
    then show ?thesis using assms(2,3) t by (simp add: session_save_def validate_cases)
  next
    case (Some j)
    then have "write_secure_at (sm_dir m) (session_file p) (print_compact j) w = (res, w')"
      using assms(2,3) t by (simp add: session_save_def validate_cases)
    from rooted.write_frame [OF assms(1) session_managed [OF assms(2)] this] show ?thesis by simp
  qed
qed

lemma session_load_law:
  assumes "store_ok session_layout (sm_dir m) r b w" "valid_provider p" "session_load m p w = (res, w')"
  shows "store_ok session_layout (sm_dir m) r b w' \<and> same_env w w' \<and> disk w' = disk w \<and>
    (case res of
       Inr s \<Rightarrow> \<exists>t. store_view session_layout r w (session_file p) = Some t \<and> parse_session t = Some s
     | Inl e \<Rightarrow> if is_not_exist e then store_view session_layout r w (session_file p) = None
              else b \<or> (\<exists>t. store_view session_layout r w (session_file p) = Some t \<and> parse_session t = None))"
proof -
  obtain x w1 where rd: "read_secure_at (sm_dir m) (session_file p) w = (x, w1)" by fastforce
  note law = rooted.read_law [OF assms(1) session_managed [OF assms(2)] rd]
  have "session_load m p w = (case x of Inl e \<Rightarrow> (Inl (WrapErr ''load session: '' e), w1)
      | Inr data \<Rightarrow> (case parse_session data of
             None \<Rightarrow> (Inl (WrapErr ''parse session: '' (MsgErr ''json'')), w1) | Some s \<Rightarrow> (Inr s, w1)))"
    using assms(2) rd by (simp add: session_load_def validate_cases split: sum.splits)
  then show ?thesis using assms(3) law by (auto split: sum.splits option.splits if_splits)
qed

lemma session_expired_still:
  "ticks w = [] \<Longrightarrow> session_expired s w =
     (case ss_expires s of Some x \<Rightarrow> tns x \<le> clock w
      | None \<Rightarrow> sint (ss_ttl s) < 0 \<or> sint (ss_ttl s) > trunc_div max_int64 (sint second) \<or>
          tns (t_add (ss_created s) (ss_ttl s * second)) \<le> clock w, w)"
  by (auto simp: session_expired_def time_now_still t_before_def not_less split: option.split)

lemma sint_second: "sint second = 1000000000"
  by (simp add: second_def)

lemma max_seconds: "trunc_div max_int64 (sint second) = 9223372036"
  by (simp add: trunc_div_def max_int64_def sint_second)

lemma first_env_find: "first_env w ns = map_option (getenv w) (find (\<lambda>n. getenv w n \<noteq> []) ns)"
  by (induction ns) auto

subsection \<open>An example cache\<close>

definition demo_manager :: session_manager where
  "demo_manager = new_session_manager ''/h'' second"

lemma demo_dir_ttl: "sm_dir demo_manager = ''/h''" "sm_ttl demo_manager = second"
  by (simp_all add: demo_manager_def new_session_manager_def second_def)

lemma demo_provider: "valid_provider ''gh''" "\<not> valid_provider ''../x''"
proof -
  have "trim_space ''gh'' = ''gh''"
    by (simp add: trim_space_def trim_left_no_space leading_space_def space_runes_def has_prefix_def)
  then show "valid_provider ''gh''"
    by (simp add: valid_provider_def contains_any_def forbidden_chars_def)
qed (simp add: valid_provider_def contains_any_def forbidden_chars_def)

lemma demo_session_ok: "list_all (calm b) evs \<Longrightarrow> store_ok session_layout (sm_dir demo_manager) 5 b (demo_world evs)"
  using demo_ok [OF session_layout_valid] by (simp add: demo_dir_ttl)

lemma demo_session_text: "session_text (new_session demo_manager ''gh'' ''k'' (t_utc (now (demo_world evs)))) \<noteq> None"
proof -
  have "marshal_time \<lparr>tns = 0, tzone = 0\<rparr> \<noteq> None" "marshal_time \<lparr>tns = 1000000000, tzone = 0\<rparr> \<noteq> None"
    by (simp_all add: marshal_time_def local_day_def civil_of_days_def year_of_def epoch_day_def
        days_before_def split_beta)
  moreover have "t_utc (now (demo_world evs)) = \<lparr>tns = 0, tzone = 0\<rparr>"
    by (simp add: t_utc_def now_def time_now_def demo_world_def)
  moreover have "valid_utf8 ''gh''" "valid_utf8 ''k''"
    by (simp_all add: valid_utf8_def utf8_len_ascii)
  ultimately show ?thesis
    by (auto simp: session_text_def good_session_def new_session_def enc_session_def enc_time_ptr_def enc_time_def
        demo_dir_ttl t_add_def sint_second)
qed

subsection \<open>Properties\<close>

text \<open>The provider decides the file.  An accepted provider names one plain file of the
  manager's directory, never a staging file, and no two providers share one; any other provider
  is refused with \<open>ErrInvalidProvider\<close> by every operation before a system call is made.\<close>

theorem session_providers_separate:
  "(valid_provider p \<and> valid_provider q \<longrightarrow>
      fname (path_base (session_path m p)) \<and>
      (path_base (session_path m p) = path_base (session_path m q) \<longleftrightarrow> p = q)) \<and>
   (\<not> valid_provider p \<longrightarrow>
      (\<exists>e. is_sentinel ErrInvalidProvider e \<and> session_load m p w = (Inl e, w) \<and> session_save m p key w = (Inl e, w) \<and>
         session_clear m p w = (Inl e, w) \<and> session_resolve m p x envs w = (Inl e, w)))"
  using session_file_name session_file_inj
  by (auto simp: validate_cases session_load_def session_save_def session_clear_def session_resolve_def)

theorem session_providers_separate_witness:
  "fname (path_base (session_path demo_manager ''gh'')) \<and>
   (\<exists>e. is_sentinel ErrInvalidProvider e \<and> session_load demo_manager ''../x'' (demo_world []) = (Inl e, demo_world []))"
  using session_providers_separate [of "''gh''" "''gh''" demo_manager "demo_world []" "[]" "[]" "[]"]
    session_providers_separate [of "''../x''" "''gh''" demo_manager "demo_world []" "[]" "[]" "[]"] demo_provider
  by blast

text \<open>\<open>Save\<close> and \<open>Clear\<close> are all or nothing.  Whichever system call fails, an error leaves
  every cached session as it was, and success changes the provider's entry alone: to the new
  session, or to absent.\<close>

theorem session_changes_atomic:
  assumes "store_ok session_layout (sm_dir m) r b w" "valid_provider p"
    and "session_save m p key w = (res, w1)" "session_clear m p w = (res', w2)"
  shows "(case res of
       Inl e \<Rightarrow> store_view session_layout r w1 = store_view session_layout r w
     | Inr _ \<Rightarrow> \<exists>j. enc_session (new_session m p key (t_utc (now w))) = Some j \<and>
         store_view session_layout r w1 = (store_view session_layout r w)(session_file p \<mapsto> print_compact j)) \<and>
    (case res' of
       Inl e \<Rightarrow> b \<and> store_view session_layout r w2 = store_view session_layout r w
     | Inr _ \<Rightarrow> store_view session_layout r w2 = (store_view session_layout r w)(session_file p := None))"
proof -
  obtain x v where rm: "remove_secure_at (sm_dir m) (session_file p) w = (x, v)" by fastforce
  have "session_clear m p w = (case x of
       Inl e \<Rightarrow> if is_not_exist e then (Inr (), v) else (Inl (WrapErr ''clear session: '' e), v) | Inr _ \<Rightarrow> (Inr (), v))"
    using assms(2) rm by (simp add: session_clear_def validate_cases split: sum.splits)
  with assms(4) rooted.remove_forgiving [OF assms(1) session_managed [OF assms(2)] rm] have "case res' of
       Inl e \<Rightarrow> b \<and> store_view session_layout r w2 = store_view session_layout r w
     | Inr _ \<Rightarrow> store_view session_layout r w2 = (store_view session_layout r w)(session_file p := None)"
    by (auto split: sum.splits if_splits)
  then show ?thesis using session_save_law [OF assms(1-3)] by (auto split: sum.splits)
qed

theorem session_changes_atomic_witness:
  "\<exists>res' w2. session_clear demo_manager ''gh'' (demo_world [Fault EIO 0]) = (res', w2) \<and>
     store_view session_layout 5 w2 (session_file ''gh'') = None"
proof -
  obtain res w1 where s: "session_save demo_manager ''gh'' ''k'' (demo_world [Fault EIO 0]) = (res, w1)" by fastforce
  obtain res' w2 where c: "session_clear demo_manager ''gh'' (demo_world [Fault EIO 0]) = (res', w2)" by fastforce
  have "store_ok session_layout (sm_dir demo_manager) 5 True (demo_world [Fault EIO 0])"
    by (rule demo_session_ok) simp
  from session_changes_atomic [OF this demo_provider(1) s c] c show ?thesis
    by (cases res') (simp_all add: demo_view)
qed

text \<open>C15: the life of a cached key.  After an undisturbed \<open>Save\<close> at some time, \<open>Load\<close> returns
  exactly the session saved, and \<open>Resolve\<close> without other sources returns the key as long as
  less than the time to live has passed, and nothing from that moment on; a negative time to
  live is over at once.\<close>

theorem session_lifetime:
  assumes "store_ok session_layout (sm_dir m) r False w" "valid_provider p"
    and "session_text (new_session m p key (t_utc (now w))) \<noteq> None"
    and "session_save m p key w = (res, w1)"
    and "store_ok session_layout (sm_dir m) r False w2" "disk w2 = disk w1" "ticks w2 = []"
    and "first_env w2 envs = None" "session_load m p w2 = (l, w3)" "session_resolve m p [] envs w2 = (k, w4)"
  shows "res = Inr () \<and> l = Inr (new_session m p key (t_utc (now w))) \<and>
    k = Inr (if clock w2 < clock w + sint (sm_ttl m) then key else [])"
proof -
  let ?s = "new_session m p key (t_utc (now w))"
  obtain j where j: "enc_session ?s = Some j" and t: "session_text ?s = Some (print_compact j)"
    using assms(3) by (auto simp: session_text_def split: if_splits)
  note sv = session_save_law [OF assms(1,2,4)]
  then have res: "res = Inr ()" and v1: "store_view session_layout r w1 (session_file p) = Some (print_compact j)"
    using j by (auto split: sum.splits)
  have v2: "store_view session_layout r w2 (session_file p) = Some (print_compact j)"
    using v1 assms(6) by (simp add: store_view_def)
  note ld = session_load_law [OF assms(5,2,9)]
  have l: "l = Inr ?s"
    using ld v2 parse_session_text [OF t] by (cases l) (auto split: if_splits)
  have w3: "ticks w3 = []" "clock w3 = clock w2" using ld assms(7) by (auto simp: same_env_def)
  have "session_resolve m p [] envs w2 = (case session_expired ?s w3 of (x, v) \<Rightarrow> if x then (Inr [], v) else (Inr (ss_key ?s), v))"
    using assms(2,8,9) l by (simp add: session_resolve_def validate_cases)
  then have "k = Inr (if clock w2 < clock w + sint (sm_ttl m) then key else [])"
    using assms(10) w3 by (auto simp: session_expired_still new_session_def t_add_def t_utc_def split: if_splits)
  then show ?thesis using res l by simp
qed

theorem session_lifetime_witness:
  "\<exists>w1 w4. session_save demo_manager ''gh'' ''k'' (demo_world []) = (Inr (), w1) \<and>
     session_resolve demo_manager ''gh'' [] [] w1 = (Inr ''k'', w4)"
proof -
  obtain res w1 where s: "session_save demo_manager ''gh'' ''k'' (demo_world []) = (res, w1)" by fastforce
  obtain l w3 where l: "session_load demo_manager ''gh'' w1 = (l, w3)" by fastforce
  obtain k w4 where k: "session_resolve demo_manager ''gh'' [] [] w1 = (k, w4)" by fastforce
  have ok: "store_ok session_layout (sm_dir demo_manager) 5 False (demo_world [])" by (rule demo_session_ok) simp
  have ok1: "store_ok session_layout (sm_dir demo_manager) 5 False w1"
    using session_save_law [OF ok demo_provider(1) s] by blast
  have env: "ticks w1 = []" "clock w1 = 0"
    using session_save_env [OF ok demo_provider(1) s] by (simp_all add: demo_world_def same_env_def)
  have "clock (demo_world []) + sint (sm_ttl demo_manager) = 1000000000"
    by (simp add: demo_dir_ttl sint_second)
  from session_lifetime [OF ok demo_provider(1) demo_session_text s ok1 refl env(1) _ l k] s k this env(2)
  show ?thesis by simp
qed

text \<open>Expiry arithmetic never wraps around.  For a session without a precise expiry, every
  value of \<open>ttl_seconds\<close>, negative and enormous ones included, gives the verdict of exact
  arithmetic: expired once \<open>ttl_seconds\<close> seconds have passed since the creation, where a number
  of seconds that no duration can hold counts as expired.\<close>

theorem session_expiry_bounds:
  assumes "ss_expires s = None" "ticks w = []"
  shows "session_expired s w =
    (if 0 \<le> sint (ss_ttl s) \<and> sint (ss_ttl s) * 1000000000 \<le> max_int64
     then tns (ss_created s) + sint (ss_ttl s) * 1000000000 \<le> clock w else True, w)"
proof (cases "0 \<le> sint (ss_ttl s) \<and> sint (ss_ttl s) \<le> 9223372036")
  case True
  then have "sint (ss_ttl s * second) = sint (ss_ttl s) * 1000000000"
    using signed_take_bit_int_eq_self [of 63 "sint (ss_ttl s) * 1000000000"] by (simp add: sint_word_ariths sint_second)
  then show ?thesis
    using True assms(1) max_seconds
    by (auto simp: session_expired_still [OF assms(2)] t_add_def max_int64_def)
next
  case False
  then show ?thesis using assms(1) max_seconds by (auto simp: session_expired_still [OF assms(2)] max_int64_def)
qed

theorem session_expiry_bounds_witness:
  "session_expired (zero_session\<lparr>ss_ttl := 9223372037\<rparr>) (demo_world []) = (True, demo_world [])"
proof -
  have "ticks (demo_world []) = []" by (simp add: demo_world_def)
  with session_expiry_bounds [of "zero_session\<lparr>ss_ttl := 9223372037\<rparr>" "demo_world []"] show ?thesis
    by (simp add: zero_session_def max_int64_def)
qed

text \<open>\<open>Resolve\<close> honours its priority: an explicit key wins and touches nothing, then the first
  environment variable with a value, and only then the cache, whose absence is the empty key
  and not an error.\<close>

theorem session_resolve_priority:
  assumes "store_ok session_layout (sm_dir m) r b w" "valid_provider p" "session_resolve m p x envs w = (res, w')"
  shows "if x \<noteq> [] then res = Inr x \<and> w' = w
    else case find (\<lambda>n. getenv w n \<noteq> []) envs of
      Some n \<Rightarrow> res = Inr (getenv w n) \<and> w' = w
    | None \<Rightarrow> disk w' = disk w \<and>
        (store_view session_layout r w (session_file p) = None \<longrightarrow> res = Inr [] \<or> b \<and> (\<exists>e. res = Inl e \<and> \<not> is_not_exist e))"
proof (cases "x \<noteq> [] \<or> first_env w envs \<noteq> None")
  case True
  then show ?thesis using assms(2,3) by (auto simp: session_resolve_def validate_cases first_env_find split: option.splits)
next
  case False
  obtain l w1 where l: "session_load m p w = (l, w1)" by fastforce
  note ld = session_load_law [OF assms(1,2) l]
  have r: "session_resolve m p x envs w = (case l of
      Inl e \<Rightarrow> if is_not_exist e then (Inr [], w1) else (Inl e, w1)
    | Inr s \<Rightarrow> (case session_expired s w1 of (z, w2) \<Rightarrow> if z then (Inr [], w2) else (Inr (ss_key s), w2)))"
    using False assms(2) l by (simp add: session_resolve_def validate_cases split: sum.splits)
  have "disk (snd (session_expired s w1)) = disk w1" for s
    by (simp add: session_expired_def split_beta time_now_frame split: option.split)
  then have "disk w' = disk w" using r assms(3) ld by (auto split: sum.splits if_splits prod.splits simp: prod_eq_iff)
  moreover have "res = Inr [] \<or> b \<and> (\<exists>e. res = Inl e \<and> \<not> is_not_exist e)"
    if "store_view session_layout r w (session_file p) = None"
    using that r assms(3) ld by (auto split: sum.splits if_splits)
  ultimately show ?thesis using False by (simp add: first_env_find split: option.splits)
qed

theorem session_resolve_priority_witness:
  "\<exists>w'. session_resolve demo_manager ''gh'' [] [''T''] ((demo_world [])\<lparr>environ := (\<lambda>n. ''tok'')\<rparr>) = (Inr ''tok'', w')"
proof -
  let ?w = "(demo_world [])\<lparr>environ := (\<lambda>n. ''tok'')\<rparr>"
  obtain res w' where r: "session_resolve demo_manager ''gh'' [] [''T''] ?w = (res, w')" by fastforce
  have "store_ok session_layout (sm_dir demo_manager) 5 False ?w"
    using demo_session_ok [of False "[]"] by (simp add: store_ok_def calm_world_def)
  from session_resolve_priority [OF this demo_provider(1) r] r show ?thesis by (simp add: getenv_def)
qed

end
