(* ===== verification/Profile.thy ===== *)
theory Profile
  imports Store_Interface Go_Codec
begin

text \<open>
  The package \<open>profile\<close> (\<open>profile.go\<close>): named profiles with their credentials, kept as
  files of the subdirectories \<open>profiles\<close> and \<open>credentials\<close> of a configuration directory, and
  the name of the active profile in the file \<open>active-profile\<close>.  A manager is its
  configuration directory.
\<close>

subsection \<open>Names\<close>

definition default_name :: string where
  "default_name = ''default''"

definition is_alphanumeric :: "char \<Rightarrow> bool" where
  "is_alphanumeric c =
     ((byte CHR ''a'' \<le> byte c \<and> byte c \<le> byte CHR ''z'') \<or> (byte CHR ''A'' \<le> byte c \<and> byte c \<le> byte CHR ''Z'') \<or>
      (byte CHR ''0'' \<le> byte c \<and> byte c \<le> byte CHR ''9''))"

definition reserved_chars :: string where
  "reserved_chars = ''/'' @ [CHR 0x5C] @ '':*?'' @ [CHR 0x22] @ ''<>|''"

definition validate_name :: "string \<Rightarrow> goerr option" where
  "validate_name name =
     (if name = [] then Some (MsgErr ''profile name cannot be empty'')
      else if length name > 64 then Some (MsgErr ''profile name too long (max 64 characters)'')
      else if name = ''.'' \<or> name = ''..'' then Some (MsgErr (''invalid profile name: '' @ name))
      else if contains_any name reserved_chars then Some (MsgErr ''profile name contains invalid characters'')
      else if trim_space name \<noteq> name \<or> contains_control name
      then Some (MsgErr ''profile name contains surrounding whitespace or control characters'')
      else if \<not> is_alphanumeric (name ! 0) then Some (MsgErr ''profile name must start with a letter or number'')
      else None)"

subsection \<open>Profiles and their JSON form\<close>

record profile =
  pf_name :: string
  pf_fields :: str_map
  pf_created :: gotime
  pf_last_used :: gotime

definition enc_profile :: "profile \<Rightarrow> json option" where
  "enc_profile p =
     (case enc_time (pf_created p) of
        None \<Rightarrow> None
      | Some jc \<Rightarrow>
     (case enc_time (pf_last_used p) of
        None \<Rightarrow> None
      | Some jl \<Rightarrow>
          Some (JObj ([(''name'', enc_string (pf_name p))] @
            omit (pf_fields p = []) ''fields'' (enc_map (pf_fields p)) @
            [(''created_at'', jc), (''last_used'', jl)]))))"

definition zero_profile :: profile where
  "zero_profile = \<lparr>pf_name = [], pf_fields = [], pf_created = zero_time, pf_last_used = zero_time\<rparr>"

definition profile_fields :: "profile fields" where
  "profile_fields =
     [(''name'', dec_field dec_string pf_name (\<lambda>v p. p\<lparr>pf_name := v\<rparr>)),
      (''fields'', dec_field dec_map pf_fields (\<lambda>v p. p\<lparr>pf_fields := v\<rparr>)),
      (''created_at'', dec_field dec_time pf_created (\<lambda>v p. p\<lparr>pf_created := v\<rparr>)),
      (''last_used'', dec_field dec_time pf_last_used (\<lambda>v p. p\<lparr>pf_last_used := v\<rparr>))]"

definition parse_profile :: "string \<Rightarrow> profile option" where
  "parse_profile data = (case json_parse data of None \<Rightarrow> None | Some j \<Rightarrow> dec_struct profile_fields j zero_profile)"

subsection \<open>The manager\<close>

definition new_profile_manager :: "string \<Rightarrow> world \<Rightarrow> goerr + string" where
  "new_profile_manager app w = (case xdg_config_dir app w of Inl e \<Rightarrow> Inl e | Inr dir \<Rightarrow> Inr dir)"

definition profile_load :: "string \<Rightarrow> string \<Rightarrow> profile io" where
  "profile_load dir name w =
     (case validate_name name of
        Some e \<Rightarrow> (Inl e, w)
      | None \<Rightarrow>
     (case read_secure_at dir (join_path [''profiles'', name @ ''.json'']) w of
        (Inl e, w1) \<Rightarrow> (Inl (WrapErr (''load profile '' @ name @ '': '') e), w1)
      | (Inr data, w1) \<Rightarrow>
          (case parse_profile data of
             None \<Rightarrow> (Inl (WrapErr (''invalid profile '' @ name @ '': '') (MsgErr ''json'')), w1)
           | Some p \<Rightarrow> (Inr (p\<lparr>pf_name := name\<rparr>), w1))))"

fun list_loop :: "string \<Rightarrow> string list \<Rightarrow> world \<Rightarrow> profile list \<times> world" where
  "list_loop dir [] w = ([], w)"
| "list_loop dir (e # es) w =
     (if \<not> has_suffix e ''.json'' then list_loop dir es w
      else case profile_load dir (trim_suffix e ''.json'') w of
        (Inl _, w1) \<Rightarrow> list_loop dir es w1
      | (Inr p, w1) \<Rightarrow> (case list_loop dir es w1 of (ps, w2) \<Rightarrow> (p # ps, w2)))"

definition profile_list :: "string \<Rightarrow> profile list io" where
  "profile_list dir w =
     (case read_dir_secure_at dir ''profiles'' w of
        (Inl e, w1) \<Rightarrow> if is_not_exist e then (Inr [], w1) else (Inl (WrapErr ''list profiles: '' e), w1)
      | (Inr es, w1) \<Rightarrow> (case list_loop dir es w1 of (ps, w2) \<Rightarrow> (Inr (sort_key pf_name ps), w2)))"

definition profile_save :: "string \<Rightarrow> string \<Rightarrow> profile \<Rightarrow> unit io" where
  "profile_save dir name p w =
     (case validate_name name of
        Some e \<Rightarrow> (Inl e, w)
      | None \<Rightarrow>
     (case enc_profile (p\<lparr>pf_name := name\<rparr>) of
        None \<Rightarrow> (Inl (WrapErr ''marshal profile: '' (MsgErr ''json'')), w)
      | Some j \<Rightarrow> write_secure_at dir (join_path [''profiles'', name @ ''.json'']) (print_indent j @ [CHR 0x0A]) w))"

definition profile_active :: "string \<Rightarrow> string io" where
  "profile_active dir w =
     (case read_secure_at dir ''active-profile'' w of
        (Inl e, w1) \<Rightarrow>
          if is_not_exist e then (Inr default_name, w1) else (Inl (WrapErr ''read active profile: '' e), w1)
      | (Inr data, w1) \<Rightarrow>
          (let name = trim_suffix (trim_suffix data [CHR 0x0A]) [CHR 0x0D]
           in if name = [] then (Inr default_name, w1)
              else case validate_name name of
                Some e \<Rightarrow> (Inl (WrapErr ''invalid active profile: '' e), w1)
              | None \<Rightarrow> (Inr name, w1)))"

definition profile_set_active :: "string \<Rightarrow> string \<Rightarrow> unit io" where
  "profile_set_active dir name w =
     (case (if name \<noteq> [] then validate_name name else None) of
        Some e \<Rightarrow> (Inl e, w)
      | None \<Rightarrow> write_secure_at dir ''active-profile'' (name @ [CHR 0x0A]) w)"

text \<open>A removal that forgives an absent file, as \<open>Delete\<close> does twice.\<close>

definition remove_if_exists :: "string \<Rightarrow> string \<Rightarrow> string \<Rightarrow> unit io" where
  "remove_if_exists dir path prefix w =
     (case remove_secure_at dir path w of
        (Inl e, w1) \<Rightarrow> if is_not_exist e then (Inr (), w1) else (Inl (WrapErr prefix e), w1)
      | (Inr _, w1) \<Rightarrow> (Inr (), w1))"

definition remove_profile_files :: "string \<Rightarrow> string \<Rightarrow> unit io" where
  "remove_profile_files dir name w =
     (case remove_if_exists dir (join_path [''profiles'', name @ ''.json'']) ''remove profile: '' w of
        (Inl e, w1) \<Rightarrow> (Inl e, w1)
      | (Inr _, w1) \<Rightarrow> remove_if_exists dir (join_path [''credentials'', name]) ''remove credentials: '' w1)"

definition profile_delete :: "string \<Rightarrow> string \<Rightarrow> unit io" where
  "profile_delete dir name w =
     (case validate_name name of
        Some e \<Rightarrow> (Inl e, w)
      | None \<Rightarrow>
     (case profile_active dir w of
        (Inl e, w1) \<Rightarrow> (Inl (WrapErr ''read active profile before deletion: '' e), w1)
      | (Inr active, w1) \<Rightarrow>
     (case remove_profile_files dir name w1 of
        (Inl e, w2) \<Rightarrow> (Inl e, w2)
      | (Inr _, w2) \<Rightarrow>
          if active = name then
            (case profile_set_active dir [] w2 of
               (Inl e, w3) \<Rightarrow> (Inl (WrapErr ''clear active profile: '' e), w3)
             | (Inr _, w3) \<Rightarrow> (Inr (), w3))
          else (Inr (), w2))))"

definition profile_exists :: "string \<Rightarrow> string \<Rightarrow> world \<Rightarrow> bool \<times> world" where
  "profile_exists dir name w =
     (if validate_name name \<noteq> None then (False, w)
      else exists_secure_at dir (join_path [''profiles'', name @ ''.json'']) w)"

definition save_credential :: "string \<Rightarrow> string \<Rightarrow> string \<Rightarrow> unit io" where
  "save_credential dir name data w =
     (case validate_name name of
        Some e \<Rightarrow> (Inl e, w)
      | None \<Rightarrow> write_secure_at dir (join_path [''credentials'', name]) data w)"

definition load_credential :: "string \<Rightarrow> string \<Rightarrow> string io" where
  "load_credential dir name w =
     (case validate_name name of
        Some e \<Rightarrow> (Inl e, w)
      | None \<Rightarrow> read_secure_at dir (join_path [''credentials'', name]) w)"

definition update_last_used :: "string \<Rightarrow> string \<Rightarrow> unit io" where
  "update_last_used dir name w =
     (case profile_load dir name w of
        (Inl e, w1) \<Rightarrow> (Inl e, w1)
      | (Inr p, w1) \<Rightarrow>
          (case time_now w1 of (t, w2) \<Rightarrow> profile_save dir name (p\<lparr>pf_last_used := t_utc t\<rparr>) w2))"

subsection \<open>Valid names\<close>

definition valid_name :: "string \<Rightarrow> bool" where
  "valid_name n = (validate_name n = None)"

lemma valid_nameD:
  assumes "valid_name n"
  shows "plain_name n" "length n \<le> 64" "\<not> has_prefix n temp_prefix" "is_alphanumeric (hd n)"
    "trim_space n = n" "\<not> contains_control n"
proof -
  have v: "n \<noteq> []" "\<not> length n > 64" "n \<noteq> ''.''" "n \<noteq> ''..''" "\<not> contains_any n reserved_chars"
      "trim_space n = n" "\<not> contains_control n" "is_alphanumeric (n ! 0)"
    using assms by (auto simp: valid_name_def validate_name_def split: if_splits)
  have "CHR ''/'' \<notin> set n" using v(5) by (auto simp: contains_any_def reserved_chars_def list_ex_iff)
  then show "plain_name n" using v by (simp add: plain_name_def)
  show "length n \<le> 64" "trim_space n = n" "\<not> contains_control n" using v by simp_all
  show h: "is_alphanumeric (hd n)" using v by (simp add: hd_conv_nth)
  have "\<not> is_alphanumeric CHR ''.''" by (simp add: is_alphanumeric_def)
  then show "\<not> has_prefix n temp_prefix"
    using h by (cases n) (auto simp: has_prefix_def temp_prefix_def)
qed

lemma valid_name_fname: "valid_name n \<Longrightarrow> fname n" "valid_name n \<Longrightarrow> fname (n @ ''.json'')"
proof -
  assume v: "valid_name n"
  note D = valid_nameD [OF v]
  show "fname n" using D by (simp add: fname_def)
  obtain c s where n: "n = c # s" using D(1) by (cases n) (auto simp: plain_name_def)
  then have "c \<noteq> CHR ''.''" using D(4) by (auto simp: is_alphanumeric_def)
  then show "fname (n @ ''.json'')" using D(1) n by (auto simp: fname_def plain_name_def has_prefix_def temp_prefix_def)
qed

definition profile_layout :: layout where
  "profile_layout = \<lparr>lay_file = (\<lambda>n. n = ''active-profile''), lay_dir = (\<lambda>n. n = ''profiles'' \<or> n = ''credentials''),
     lay_sub = (\<lambda>p. \<exists>n. valid_name n \<and> (p = n \<or> p = n @ ''.json'')), lay_strict = False\<rparr>"

lemma fixed_names: "plain_name ''profiles''" "plain_name ''credentials''" "fname ''profiles''" "fname ''credentials''"
  "fname ''active-profile''"
  by (simp_all add: fname_def plain_name_def has_prefix_def temp_prefix_def)

lemma profile_layout_valid: "valid_layout profile_layout"
  using valid_name_fname fixed_names by (auto simp: valid_layout_def profile_layout_def)

definition prof_file :: "string \<Rightarrow> string" where
  "prof_file n = ''profiles/'' @ n @ ''.json''"

definition cred_file :: "string \<Rightarrow> string" where
  "cred_file n = ''credentials/'' @ n"

lemma managed_sub:
  assumes "lay_dir profile_layout s" "lay_sub profile_layout p" "n = s @ ''/'' @ p"
  shows "managed profile_layout n"
  using assms by (auto simp: managed_def)

lemma profile_managed:
  "valid_name n \<Longrightarrow> managed profile_layout (prof_file n)" "valid_name n \<Longrightarrow> managed profile_layout (cred_file n)"
  "managed profile_layout ''active-profile''"
proof -
  assume v: "valid_name n"
  show "managed profile_layout (prof_file n)"
    by (rule managed_sub [of "''profiles''" "n @ ''.json''"]) (use v in \<open>auto simp: profile_layout_def prof_file_def\<close>)
  show "managed profile_layout (cred_file n)"
    by (rule managed_sub [of "''credentials''" n]) (use v in \<open>auto simp: profile_layout_def cred_file_def\<close>)
next
  show "managed profile_layout ''active-profile''" by (simp add: managed_def profile_layout_def)
qed

lemma profile_paths:
  "valid_name n \<Longrightarrow> join_path [''profiles'', n @ ''.json''] = prof_file n"
  "valid_name n \<Longrightarrow> join_path [''credentials'', n] = cred_file n"
  using two_join [OF fixed_names(1), of "n @ ''.json''"] two_join [OF fixed_names(2), of n] valid_name_fname [of n]
  by (simp_all add: fname_def prof_file_def cred_file_def)

lemma profile_files_distinct:
  "prof_file n = prof_file m \<longleftrightarrow> n = m" "cred_file n = cred_file m \<longleftrightarrow> n = m"
  "prof_file n \<noteq> cred_file m" "prof_file n \<noteq> ''active-profile''" "cred_file n \<noteq> ''active-profile''"
  by (simp_all add: prof_file_def cred_file_def)

lemma validate_name_valid [simp]: "valid_name n \<Longrightarrow> validate_name n = None"
  by (simp add: valid_name_def)

subsection \<open>The JSON round trip\<close>

definition good_profile :: "profile \<Rightarrow> bool" where
  "good_profile p = (valid_utf8 (pf_name p) \<and> map_ok (pf_fields p))"

definition profile_text :: "profile \<Rightarrow> string option" where
  "profile_text p = (if good_profile p then map_option (\<lambda>j. print_indent j @ [CHR 0x0A]) (enc_profile p) else None)"

lemma profile_lookup [simp]:
  "map_of profile_fields ''name'' = Some (dec_field dec_string pf_name (\<lambda>v p. p\<lparr>pf_name := v\<rparr>))"
  "map_of profile_fields ''fields'' = Some (dec_field dec_map pf_fields (\<lambda>v p. p\<lparr>pf_fields := v\<rparr>))"
  "map_of profile_fields ''created_at'' = Some (dec_field dec_time pf_created (\<lambda>v p. p\<lparr>pf_created := v\<rparr>))"
  "map_of profile_fields ''last_used'' = Some (dec_field dec_time pf_last_used (\<lambda>v p. p\<lparr>pf_last_used := v\<rparr>))"
  by (simp_all add: profile_fields_def)

lemma profile_keys [simp]:
  "unquote ''name'' = ''name''" "unquote ''fields'' = ''fields''" "unquote ''created_at'' = ''created_at''"
  "unquote ''last_used'' = ''last_used''"
  by (rule unquote_plain, simp)+

lemma profile_raw [simp]: "raw_ok ''name''" "raw_ok ''fields''" "raw_ok ''created_at''" "raw_ok ''last_used''"
  by (rule raw_ok_key, simp add: plain_char_def)+

lemma parse_profile_text:
  assumes "profile_text p = Some t"
  shows "parse_profile t = Some p"
proof -
  from assms obtain j jc jl where g: "good_profile p" and t: "t = print_indent j @ [CHR 0x0A]" and j: "enc_profile p = Some j"
    and jc: "enc_time (pf_created p) = Some jc" and jl: "enc_time (pf_last_used p) = Some jl"
    by (auto simp: profile_text_def enc_profile_def split: option.splits if_splits)
  have dec: "dec_struct profile_fields j zero_profile = Some p"
    using j g unfolding good_profile_def
    by (auto simp: enc_profile_def jc jl zero_profile_def dec_members_omit find_field_def dec_field_def
        dec_enc_string dec_enc_map dec_enc_time(1) [OF jc] dec_enc_time(1) [OF jl])
  have "json_ok j" using j dec_enc_time(3) [OF jc] dec_enc_time(3) [OF jl] by (auto simp: enc_profile_def jc jl enc_map_ok)
  moreover have "json_depth j \<le> Suc 1"
    using j dec_enc_time(4) [OF jc] dec_enc_time(4) [OF jl] enc_map_ok(2) [of "pf_fields p"]
    by (auto simp: enc_profile_def jc jl json_depth_obj simp del: json_depth.simps)
  ultimately have "json_parse t = Some j"
    unfolding t by (intro json_parse_indent) (auto simp: max_nesting_def all_ws_def is_ws_def)
  then show ?thesis using dec by (simp add: parse_profile_def)
qed

interpretation profile_store: typed_store "store_ok profile_layout dir r" "managed profile_layout"
    "store_view profile_layout r" "read_secure_at dir" "write_secure_at dir" profile_text parse_profile "\<lambda>p. p"
  for dir r
  by unfold_locales (rule parse_profile_text)

subsection \<open>The state a manager keeps\<close>

abbreviation p_ok :: "string \<Rightarrow> ino \<Rightarrow> bool \<Rightarrow> world \<Rightarrow> bool" where
  "p_ok dir r b w \<equiv> store_ok profile_layout dir r b w"

abbreviation p_view :: "ino \<Rightarrow> world \<Rightarrow> string \<Rightarrow> string option" where
  "p_view r w \<equiv> store_view profile_layout r w"

definition profiles_of :: "ino \<Rightarrow> world \<Rightarrow> string \<Rightarrow> profile option" where
  "profiles_of r w n =
     (if valid_name n then
        (case p_view r w (prof_file n) of
           None \<Rightarrow> None | Some t \<Rightarrow> map_option (\<lambda>p. p\<lparr>pf_name := n\<rparr>) (parse_profile t))
      else None)"

definition credentials_of :: "ino \<Rightarrow> world \<Rightarrow> string \<Rightarrow> string option" where
  "credentials_of r w n = (if valid_name n then p_view r w (cred_file n) else None)"

text \<open>The active name the file stands for; \<open>None\<close> when it holds no acceptable name.\<close>

definition active_name :: "string \<Rightarrow> string option" where
  "active_name data =
     (let name = trim_suffix (trim_suffix data [CHR 0x0A]) [CHR 0x0D]
      in if name = [] then Some default_name else if valid_name name then Some name else None)"

definition active_of :: "ino \<Rightarrow> world \<Rightarrow> string option" where
  "active_of r w = (case p_view r w ''active-profile'' of None \<Rightarrow> Some default_name | Some data \<Rightarrow> active_name data)"

lemma profile_load_law:
  assumes "p_ok dir r b w" "valid_name n" "profile_load dir n w = (res, w')"
  shows "p_ok dir r b w' \<and> same_env w w' \<and> disk w' = disk w \<and>
    (case res of Inr p \<Rightarrow> profiles_of r w n = Some p
     | Inl e \<Rightarrow> if is_not_exist e then p_view r w (prof_file n) = None else b \<or> profiles_of r w n = None)"
proof -
  obtain x w1 where rd: "read_secure_at dir (prof_file n) w = (x, w1)" by fastforce
  note law = rooted.read_law [OF assms(1) profile_managed(1) [OF assms(2)] rd]
  have "profile_load dir n w = (case x of Inl e \<Rightarrow> (Inl (WrapErr (''load profile '' @ n @ '': '') e), w1)
      | Inr data \<Rightarrow> (case parse_profile data of
             None \<Rightarrow> (Inl (WrapErr (''invalid profile '' @ n @ '': '') (MsgErr ''json'')), w1)
           | Some p \<Rightarrow> (Inr (p\<lparr>pf_name := n\<rparr>), w1)))"
    using assms(2) rd by (simp add: profile_load_def profile_paths split: sum.splits)
  then show ?thesis using assms(2,3) law
    by (auto simp: profiles_of_def split: sum.splits option.splits if_splits)
qed

lemma profile_save_law:
  assumes "p_ok dir r b w" "valid_name n" "profile_save dir n p w = (res, w')"
  shows "p_ok dir r b w' \<and> same_env w w' \<and>
    (case res of
       Inl e \<Rightarrow> (b \<or> enc_profile (p\<lparr>pf_name := n\<rparr>) = None) \<and> p_view r w' = p_view r w
     | Inr _ \<Rightarrow> \<exists>j. enc_profile (p\<lparr>pf_name := n\<rparr>) = Some j \<and>
                  p_view r w' = (p_view r w)(prof_file n \<mapsto> print_indent j @ [CHR 0x0A]))"
proof (cases "enc_profile (p\<lparr>pf_name := n\<rparr>)")
  case None
  then show ?thesis using assms by (auto simp: profile_save_def)
next
  case (Some j)
  then have "write_secure_at dir (prof_file n) (print_indent j @ [CHR 0x0A]) w = (res, w')"
    using assms(2,3) by (simp add: profile_save_def profile_paths)
  from rooted.write_law [OF assms(1) profile_managed(1) [OF assms(2)] this] Some show ?thesis
    by (auto split: sum.splits)
qed

lemma active_law:
  assumes "p_ok dir r b w" "profile_active dir w = (res, w')"
  shows "p_ok dir r b w' \<and> same_env w w' \<and> disk w' = disk w \<and>
    (case res of Inr n \<Rightarrow> active_of r w = Some n | Inl e \<Rightarrow> b \<or> active_of r w = None)"
proof -
  obtain x w1 where rd: "read_secure_at dir ''active-profile'' w = (x, w1)" by fastforce
  note law = rooted.read_law [OF assms(1) profile_managed(3) rd]
  show ?thesis using assms(2) law
    by (auto simp: profile_active_def rd active_of_def active_name_def Let_def valid_name_def
        split: sum.splits option.splits if_splits)
qed

lemma default_valid: "valid_name default_name"
proof -
  have "trim_space default_name = default_name"
    by (simp add: default_name_def trim_space_def trim_left_no_space leading_space_def space_runes_def has_prefix_def)
  then show ?thesis
    by (simp add: valid_name_def validate_name_def) (simp add: default_name_def contains_any_def reserved_chars_def is_alphanumeric_def)
qed

lemma active_valid: "active_of r w = Some n \<Longrightarrow> valid_name n"
  using default_valid by (auto simp: active_of_def active_name_def Let_def split: option.splits if_splits)

lemma valid_name_no_control: "valid_name n \<Longrightarrow> byte c < 32 \<Longrightarrow> c \<notin> set n"
proof
  assume "valid_name n" "byte c < 32" "c \<in> set n"
  moreover have "c \<in> set n \<Longrightarrow> byte c < 32 \<Longrightarrow> contains_control n" for n
    by (induction n rule: contains_control.induct) auto
  ultimately show False using valid_nameD(6) by blast
qed

lemma trim_no_suffix: "c \<notin> set n \<Longrightarrow> trim_suffix n [c] = n"
  unfolding trim_suffix_def by (auto dest!: has_suffixE)

lemma active_name_written: "n = [] \<or> valid_name n \<Longrightarrow> active_name (n @ [CHR 0x0A]) = Some (if n = [] then default_name else n)"
  using valid_name_no_control [of n "CHR 0x0D"] by (auto simp: active_name_def trim_no_suffix)

lemma set_active_law:
  assumes "p_ok dir r b w" "n = [] \<or> valid_name n" "profile_set_active dir n w = (res, w')"
  shows "p_ok dir r b w' \<and> same_env w w' \<and>
    (case res of Inl e \<Rightarrow> b \<and> p_view r w' = p_view r w
     | Inr _ \<Rightarrow> p_view r w' = (p_view r w)(''active-profile'' \<mapsto> n @ [CHR 0x0A]))"
proof -
  have "write_secure_at dir ''active-profile'' (n @ [CHR 0x0A]) w = (res, w')"
    using assms(2,3) by (cases "n = []") (simp_all add: profile_set_active_def)
  from rooted.write_law [OF assms(1) profile_managed(3) this] show ?thesis by simp
qed

lemma remove_if_exists_law:
  assumes "p_ok dir r b w" "managed profile_layout n" "remove_if_exists dir n pre w = (res, w')"
  shows "p_ok dir r b w' \<and> same_env w w' \<and>
    (case res of Inl e \<Rightarrow> b \<and> p_view r w' = p_view r w | Inr _ \<Rightarrow> p_view r w' = (p_view r w)(n := None))"
proof -
  obtain x w1 where rm: "remove_secure_at dir n w = (x, w1)" by fastforce
  note law = rooted.remove_forgiving [OF assms(1,2) rm] rooted.remove_frame [OF assms(1,2) rm]
  show ?thesis using assms(3) law by (auto simp: remove_if_exists_def rm split: sum.splits if_splits)
qed

text \<open>The maps under a change of one file.\<close>

lemma profiles_of_changed:
  assumes "p_view r w' = (p_view r w)(f := x)"
  shows "f = prof_file n \<Longrightarrow> valid_name n \<Longrightarrow> profiles_of r w' = (profiles_of r w)(n :=
      (case x of None \<Rightarrow> None | Some t \<Rightarrow> map_option (\<lambda>p. p\<lparr>pf_name := n\<rparr>) (parse_profile t)))"
    and "\<forall>n. f \<noteq> prof_file n \<Longrightarrow> profiles_of r w' = profiles_of r w"
    and "f = cred_file n \<Longrightarrow> valid_name n \<Longrightarrow> credentials_of r w' = (credentials_of r w)(n := x)"
    and "\<forall>n. f \<noteq> cred_file n \<Longrightarrow> credentials_of r w' = credentials_of r w"
    and "f \<noteq> ''active-profile'' \<Longrightarrow> active_of r w' = active_of r w"
    and "f = ''active-profile'' \<Longrightarrow> active_of r w' = (case x of None \<Rightarrow> Some default_name | Some t \<Rightarrow> active_name t)"
proof -
  show "profiles_of r w' = (profiles_of r w)(n :=
      (case x of None \<Rightarrow> None | Some t \<Rightarrow> map_option (\<lambda>p. p\<lparr>pf_name := n\<rparr>) (parse_profile t)))"
    if "f = prof_file n" "valid_name n"
    using that by (intro ext) (auto simp: profiles_of_def assms profile_files_distinct)
  show "profiles_of r w' = profiles_of r w" if "\<forall>n. f \<noteq> prof_file n"
    using that by (intro ext) (auto simp: profiles_of_def assms)
  show "credentials_of r w' = (credentials_of r w)(n := x)" if "f = cred_file n" "valid_name n"
    using that by (intro ext) (simp add: credentials_of_def assms profile_files_distinct)
  show "credentials_of r w' = credentials_of r w" if "\<forall>n. f \<noteq> cred_file n"
    using that by (intro ext) (auto simp: credentials_of_def assms)
  show "active_of r w' = active_of r w" if "f \<noteq> ''active-profile''"
    using that by (simp add: active_of_def assms)
  show "active_of r w' = (case x of None \<Rightarrow> Some default_name | Some t \<Rightarrow> active_name t)" if "f = ''active-profile''"
    using that by (simp add: active_of_def assms)
qed

lemma same_view:
  assumes "p_view r w' = p_view r w"
  shows "profiles_of r w' = profiles_of r w" "credentials_of r w' = credentials_of r w" "active_of r w' = active_of r w"
  by (simp_all add: assms profiles_of_def credentials_of_def active_of_def fun_eq_iff)

lemmas file_kinds = profile_files_distinct profile_files_distinct(3,4,5) [symmetric]

text \<open>The two removals of \<open>Delete\<close>: the profile goes first.\<close>

lemma remove_files_law:
  assumes "p_ok dir r b w" "valid_name n" "remove_profile_files dir n w = (res, w')"
  shows "p_ok dir r b w' \<and> active_of r w' = active_of r w \<and>
    (case res of
       Inr _ \<Rightarrow> profiles_of r w' = (profiles_of r w)(n := None) \<and> credentials_of r w' = (credentials_of r w)(n := None)
     | Inl _ \<Rightarrow> b \<and> credentials_of r w' = credentials_of r w \<and>
         (profiles_of r w' = profiles_of r w \<or> profiles_of r w' = (profiles_of r w)(n := None)))"
proof -
  obtain x w1 where x: "remove_if_exists dir (prof_file n) ''remove profile: '' w = (x, w1)" by fastforce
  note X = remove_if_exists_law [OF assms(1) profile_managed(1) [OF assms(2)] x]
  show ?thesis
  proof (cases x)
    case (Inl e)
    then have "res = Inl e" "w' = w1" using assms(2,3) x by (simp_all add: remove_profile_files_def profile_paths)
    moreover have "p_view r w1 = p_view r w" using X Inl by simp
    ultimately show ?thesis using X Inl same_view [of r w1 w] by (cases b) simp_all
  next
    case (Inr u)
    then have ok1: "p_ok dir r b w1" and v1: "p_view r w1 = (p_view r w)(prof_file n := None)" using X by simp_all
    note c1 = profiles_of_changed [OF v1]
    have y: "remove_if_exists dir (cred_file n) ''remove credentials: '' w1 = (res, w')"
      using assms(2,3) x Inr by (simp add: remove_profile_files_def profile_paths)
    note Y = remove_if_exists_law [OF ok1 profile_managed(2) [OF assms(2)] y]
    show ?thesis
    proof (cases res)
      case (Inl e)
      then have "p_view r w' = p_view r w1" using Y by simp
      from same_view [OF this] c1 Y Inl assms(2) show ?thesis by (cases b) (simp_all add: file_kinds)
    next
      case (Inr u)
      then have "p_view r w' = (p_view r w1)(cred_file n := None)" using Y by simp
      from profiles_of_changed [OF this] c1 Y Inr assms(2) show ?thesis by (simp add: file_kinds)
    qed
  qed
qed

subsection \<open>Listing\<close>

definition listed :: "ino \<Rightarrow> world \<Rightarrow> string \<Rightarrow> profile option" where
  "listed r w e = (if has_suffix e ''.json'' then profiles_of r w (trim_suffix e ''.json'') else None)"

lemma list_loop_quiet:
  "p_ok dir r False w \<Longrightarrow> list_loop dir es w = (ps, w') \<Longrightarrow> ps = List.map_filter (listed r w) es \<and> disk w' = disk w"
proof (induction es arbitrary: w ps w')
  case (Cons e es)
  show ?case
  proof (cases "has_suffix e ''.json''")
    case False
    then show ?thesis using Cons.IH [OF Cons.prems(1), of ps w'] Cons.prems(2) by (simp add: map_filter_simps listed_def)
  next
    case True
    let ?n = "trim_suffix e ''.json''"
    obtain l w1 where l: "profile_load dir ?n w = (l, w1)" by fastforce
    have f: "p_ok dir r False w1 \<and> disk w1 = disk w \<and> listed r w1 = listed r w \<and>
      (case l of Inr p \<Rightarrow> listed r w e = Some p | Inl x \<Rightarrow> listed r w e = None)"
    proof (cases "valid_name ?n")
      case v: True
      note ld = profile_load_law [OF Cons.prems(1) v l]
      then have "p_view r w1 = p_view r w" by (simp add: store_view_def)
      from same_view(1) [OF this] have "listed r w1 = listed r w" by (simp add: listed_def fun_eq_iff)
      then show ?thesis using ld True v
        by (auto simp: listed_def profiles_of_def split: sum.splits if_splits option.splits)
    next
      case False
      then obtain x where "validate_name ?n = Some x" by (auto simp: valid_name_def)
      then have "l = Inl x" "w1 = w" using l by (simp_all add: profile_load_def)
      then show ?thesis using False Cons.prems(1) by (simp add: listed_def profiles_of_def)
    qed
    obtain ps1 w2 where r: "list_loop dir es w1 = (ps1, w2)" by fastforce
    have ih: "ps1 = List.map_filter (listed r w) es \<and> disk w2 = disk w"
      using Cons.IH [OF _ r] f by simp
    have "list_loop dir (e # es) w = (case l of Inl _ \<Rightarrow> (ps1, w2) | Inr p \<Rightarrow> (p # ps1, w2))"
      using True l r by (simp split: sum.splits)
    then show ?thesis using ih f Cons.prems(2) by (cases l) (auto simp: map_filter_simps)
  qed
qed (simp add: map_filter_simps)

lemma listed_name: "listed r w e = Some p \<Longrightarrow> e = pf_name p @ ''.json'' \<and> profiles_of r w (pf_name p) = Some p"
  by (auto simp: listed_def profiles_of_def dest!: has_suffixE split: if_splits option.splits)

lemma map_filter_distinct:
  assumes "distinct es" "\<And>e p. f e = Some p \<Longrightarrow> e = g p"
  shows "distinct (map g (List.map_filter f es))"
  using assms(1)
proof (induction es)
  case (Cons e es)
  have "g p = e \<Longrightarrow> p \<notin> set (List.map_filter f es)" for p
    using Cons.prems assms(2) by (auto simp: List.map_filter_def)
  then show ?case using Cons assms(2) [of e] by (auto simp: map_filter_simps split: option.split)
qed (simp add: map_filter_simps)

lemma profiles_present: "profiles_of r w n = Some p \<Longrightarrow> p_view r w (prof_file n) \<noteq> None \<and> valid_name n \<and> pf_name p = n"
  by (auto simp: profiles_of_def split: if_splits option.splits)

lemma sort_key_strict:
  assumes "distinct (map k xs)"
  shows "sorted_wrt (<) (map k (sort_key k xs))"
proof -
  have "distinct (map k (sort_key k xs))"
    using assms by (metis distinct_map distinct_sort inj_on_cong set_sort)
  then show ?thesis by (simp add: strict_sorted_iff)
qed

lemma profile_saved:
  assumes "p_ok dir r b w" "valid_name n" "good_profile (p\<lparr>pf_name := n\<rparr>)" "profile_save dir n p w = (res, w')"
  shows "p_ok dir r b w' \<and> same_env w w' \<and> credentials_of r w' = credentials_of r w \<and> active_of r w' = active_of r w \<and>
    (case res of
       Inl e \<Rightarrow> (b \<or> enc_profile (p\<lparr>pf_name := n\<rparr>) = None) \<and> profiles_of r w' = profiles_of r w
     | Inr _ \<Rightarrow> profiles_of r w' = (profiles_of r w)(n \<mapsto> p\<lparr>pf_name := n\<rparr>))"
proof -
  note sv = profile_save_law [OF assms(1,2,4)]
  show ?thesis
  proof (cases res)
    case (Inl e)
    then have "p_view r w' = p_view r w" using sv by simp
    from same_view [OF this] show ?thesis using sv Inl by simp
  next
    case (Inr u)
    then obtain j where j: "enc_profile (p\<lparr>pf_name := n\<rparr>) = Some j"
        and v: "p_view r w' = (p_view r w)(prof_file n \<mapsto> print_indent j @ [CHR 0x0A])" using sv by auto
    have "parse_profile (print_indent j @ [CHR 0x0A]) = Some (p\<lparr>pf_name := n\<rparr>)"
      using assms(3) j by (intro parse_profile_text) (simp add: profile_text_def)
    with profiles_of_changed [OF v] sv Inr assms(2) show ?thesis by (simp add: file_kinds)
  qed
qed

lemma profile_loaded:
  assumes "p_ok dir r False w" "valid_name n" "profiles_of r w n = Some p" "profile_load dir n w = (res, w')"
  shows "res = Inr p \<and> p_ok dir r False w' \<and> same_env w w' \<and> disk w' = disk w"
  using profile_load_law [OF assms(1,2,4)] assms(2,3) profiles_present [OF assms(3)]
  by (cases res) (auto split: if_splits)

subsection \<open>An example configuration\<close>

lemma demo_name: "valid_name ''work''" "\<not> valid_name ''../x''" "valid_name ''default''"
proof -
  have "trim_space ''work'' = ''work''"
    by (simp add: trim_space_def trim_left_no_space leading_space_def space_runes_def has_prefix_def)
  then show "valid_name ''work''"
    by (simp add: valid_name_def validate_name_def contains_any_def reserved_chars_def is_alphanumeric_def)
  show "\<not> valid_name ''../x''" by (simp add: valid_name_def validate_name_def contains_any_def reserved_chars_def)
  show "valid_name ''default''" using default_valid by (simp add: default_name_def)
qed

lemma demo_profile_ok: "list_all (calm b) evs \<Longrightarrow> p_ok ''/h'' 5 b (demo_world evs)"
  by (rule demo_ok [OF profile_layout_valid])

lemma demo_profile_view: "profiles_of 5 (demo_world evs) = Map.empty" "credentials_of 5 (demo_world evs) = Map.empty"
  "active_of 5 (demo_world evs) = Some default_name"
  by (simp_all add: profiles_of_def credentials_of_def active_of_def demo_view fun_eq_iff)

lemma demo_profile_good: "good_profile (zero_profile\<lparr>pf_name := ''work''\<rparr>)"
  "enc_profile (zero_profile\<lparr>pf_name := ''work''\<rparr>) \<noteq> None"
proof -
  have "valid_utf8 ''work''" by (simp add: valid_utf8_def utf8_len_ascii)
  then show "good_profile (zero_profile\<lparr>pf_name := ''work''\<rparr>)"
    by (simp add: good_profile_def zero_profile_def map_ok_def)
  have "marshal_time zero_time \<noteq> None"
    by (simp add: marshal_time_def zero_time_def local_day_def civil_of_days_def year_of_def epoch_day_def
      days_before_def split_beta)
  then show "enc_profile (zero_profile\<lparr>pf_name := ''work''\<rparr>) \<noteq> None"
    by (auto simp: enc_profile_def zero_profile_def enc_time_def)
qed

text \<open>A world in which the profile \<open>work\<close> has been saved.\<close>

definition demo_work_world :: world where
  "demo_work_world = snd (profile_save ''/h'' ''work'' zero_profile (demo_world []))"

lemma demo_work:
  "p_ok ''/h'' 5 False demo_work_world"
  "profiles_of 5 demo_work_world = [''work'' \<mapsto> zero_profile\<lparr>pf_name := ''work''\<rparr>]"
  "active_of 5 demo_work_world = Some default_name" "ticks demo_work_world = []" "clock demo_work_world = 0"
proof -
  obtain res where r: "profile_save ''/h'' ''work'' zero_profile (demo_world []) = (res, demo_work_world)"
    unfolding demo_work_world_def by (metis prod.collapse)
  have ok: "p_ok ''/h'' 5 False (demo_world [])" by (rule demo_profile_ok) simp
  from profile_saved [OF ok demo_name(1) demo_profile_good(1) r] demo_profile_good(2)
  show "p_ok ''/h'' 5 False demo_work_world"
    "profiles_of 5 demo_work_world = [''work'' \<mapsto> zero_profile\<lparr>pf_name := ''work''\<rparr>]"
    "active_of 5 demo_work_world = Some default_name" "ticks demo_work_world = []" "clock demo_work_world = 0"
    by (auto simp: demo_profile_view same_env_def split: sum.splits)
qed

lemma clear_active_law:
  assumes "p_ok dir r b w" "profile_set_active dir [] w = (z, w')"
  shows "p_ok dir r b w' \<and> profiles_of r w' = profiles_of r w \<and> credentials_of r w' = credentials_of r w \<and>
    (case z of Inl _ \<Rightarrow> b \<and> active_of r w' = active_of r w | Inr _ \<Rightarrow> active_of r w' = Some default_name)"
proof -
  note Z = set_active_law [OF assms(1) _ assms(2)]
  show ?thesis
  proof (cases z)
    case (Inl e)
    then have "p_view r w' = p_view r w" using Z by simp
    from same_view [OF this] show ?thesis using Inl Z by auto
  next
    case (Inr v)
    then have "p_view r w' = (p_view r w)(''active-profile'' \<mapsto> [CHR 0x0A])" using Z by simp
    note c = profiles_of_changed [OF this]
    have "active_name [CHR 0x0A] = Some default_name" using active_name_written [of "[]"] by simp
    then show ?thesis using Inr Z c by (auto simp: file_kinds)
  qed
qed

lemma listed_distinct:
  assumes "distinct es"
  shows "distinct (map pf_name (List.map_filter (listed r w) es))"
proof -
  have "distinct (map (\<lambda>p. pf_name p @ ''.json'') (List.map_filter (listed r w) es))"
    using map_filter_distinct [OF assms] listed_name by (metis (no_types, lifting))
  then show ?thesis by (auto simp: distinct_map inj_on_def)
qed

lemma listed_ran:
  assumes "\<And>n. valid_name n \<Longrightarrow> n @ ''.json'' \<in> set es \<longleftrightarrow> p_view r w (prof_file n) \<noteq> None"
  shows "set (List.map_filter (listed r w) es) = ran (profiles_of r w)"
proof
  show "set (List.map_filter (listed r w) es) \<subseteq> ran (profiles_of r w)"
    using listed_name by (auto simp: List.map_filter_def ran_def) metis
  show "ran (profiles_of r w) \<subseteq> set (List.map_filter (listed r w) es)"
  proof
    fix p assume "p \<in> ran (profiles_of r w)"
    then obtain n where n: "profiles_of r w n = Some p" by (auto simp: ran_def)
    note P = profiles_present [OF n]
    then have "n @ ''.json'' \<in> set es" "listed r w (n @ ''.json'') = Some p"
      using assms [of n] n by (simp_all add: listed_def)
    then show "p \<in> set (List.map_filter (listed r w) es)" by (force simp: List.map_filter_def)
  qed
qed

subsection \<open>Properties\<close>

text \<open>C24: a name chooses its files.  A valid name has at most 64 bytes and gives one profile file and
  one credential file, plain components that no other name shares; any other name is refused by
  every operation before a system call is made.\<close>

theorem profile_names_confined:
  "(valid_name n \<and> valid_name k \<longrightarrow> length n \<le> 64 \<and> fname n \<and> fname (n @ ''.json'') \<and>
      (join_path [''profiles'', n @ ''.json''] = join_path [''profiles'', k @ ''.json''] \<longleftrightarrow> n = k) \<and>
      (join_path [''credentials'', n] = join_path [''credentials'', k] \<longleftrightarrow> n = k) \<and>
      join_path [''profiles'', n @ ''.json''] \<noteq> join_path [''credentials'', k]) \<and>
   (\<not> valid_name n \<longrightarrow>
      (\<exists>e. profile_load dir n w = (Inl e, w) \<and> profile_save dir n p w = (Inl e, w) \<and> profile_delete dir n w = (Inl e, w) \<and>
         save_credential dir n data w = (Inl e, w) \<and> load_credential dir n w = (Inl e, w) \<and>
         update_last_used dir n w = (Inl e, w) \<and> (n \<noteq> [] \<longrightarrow> profile_set_active dir n w = (Inl e, w))) \<and>
      profile_exists dir n w = (False, w))"
proof (rule conjI; rule impI)
  assume "valid_name n \<and> valid_name k"
  then show "length n \<le> 64 \<and> fname n \<and> fname (n @ ''.json'') \<and>
      (join_path [''profiles'', n @ ''.json''] = join_path [''profiles'', k @ ''.json''] \<longleftrightarrow> n = k) \<and>
      (join_path [''credentials'', n] = join_path [''credentials'', k] \<longleftrightarrow> n = k) \<and>
      join_path [''profiles'', n @ ''.json''] \<noteq> join_path [''credentials'', k]"
    using valid_nameD(2) [of n] by (simp add: valid_name_fname profile_paths file_kinds)
next
  assume "\<not> valid_name n"
  then obtain e where e: "validate_name n = Some e" by (auto simp: valid_name_def)
  then show "(\<exists>e. profile_load dir n w = (Inl e, w) \<and> profile_save dir n p w = (Inl e, w) \<and> profile_delete dir n w = (Inl e, w) \<and>
         save_credential dir n data w = (Inl e, w) \<and> load_credential dir n w = (Inl e, w) \<and>
         update_last_used dir n w = (Inl e, w) \<and> (n \<noteq> [] \<longrightarrow> profile_set_active dir n w = (Inl e, w))) \<and>
      profile_exists dir n w = (False, w)"
    by (simp add: profile_load_def profile_save_def profile_delete_def save_credential_def load_credential_def
        update_last_used_def profile_set_active_def profile_exists_def)
qed

theorem profile_names_confined_witness:
  "fname ''work'' \<and> (\<exists>e. profile_load ''/h'' ''../x'' (demo_world []) = (Inl e, demo_world []))"
  using profile_names_confined [of "''work''" "''work''" "''/h''" "demo_world []" zero_profile "[]"]
    profile_names_confined [of "''../x''" "''work''" "''/h''" "demo_world []" zero_profile "[]"] demo_name
  by blast

text \<open>C20: \<open>Save\<close> implements the update of one entry of the map of profiles.  Whichever system call
  fails, an error leaves all profiles as they were and success replaces this profile alone, its
  name taken from the argument; credentials and the active profile are never touched.\<close>

theorem profile_save_atomic:
  assumes "p_ok dir r b w" "valid_name n" "good_profile (p\<lparr>pf_name := n\<rparr>)" "profile_save dir n p w = (res, w')"
  shows "p_ok dir r b w' \<and> credentials_of r w' = credentials_of r w \<and> active_of r w' = active_of r w \<and>
    profiles_of r w' = (case res of Inl _ \<Rightarrow> profiles_of r w | Inr _ \<Rightarrow> (profiles_of r w)(n \<mapsto> p\<lparr>pf_name := n\<rparr>))"
  using profile_saved [OF assms] by (auto split: sum.splits)

theorem profile_save_atomic_witness:
  "\<exists>res w'. profile_save ''/h'' ''work'' zero_profile (demo_world [Quiet, Fault ENOSPC 3]) = (res, w') \<and>
     (\<forall>e. res = Inl e \<longrightarrow> profiles_of 5 w' = Map.empty)"
proof -
  obtain res w' where r: "profile_save ''/h'' ''work'' zero_profile (demo_world [Quiet, Fault ENOSPC 3]) = (res, w')" by fastforce
  have "p_ok ''/h'' 5 True (demo_world [Quiet, Fault ENOSPC 3])" by (rule demo_profile_ok) simp
  from profile_save_atomic [OF this demo_name(1) demo_profile_good(1) r] r show ?thesis
    by (auto simp: demo_profile_view)
qed

text \<open>What was saved is loaded.  After an undisturbed \<open>Save\<close>, \<open>Load\<close> of that name returns every
  field and \<open>Load\<close> of another name what it would have returned before; a saved credential reads back
  byte for byte.\<close>

theorem profile_save_load:
  assumes "p_ok dir r False w" "valid_name n" "good_profile (p\<lparr>pf_name := n\<rparr>)" "enc_profile (p\<lparr>pf_name := n\<rparr>) \<noteq> None"
    and "profile_save dir n p w = (res, w1)" "valid_name k" "profile_load dir k w1 = (l, w2)"
    and "save_credential dir n data w = (c, w3)" "load_credential dir n w3 = (d, w4)"
  shows "res = Inr () \<and> (if k = n then l = Inr (p\<lparr>pf_name := n\<rparr>) else \<forall>q. l = Inr q \<longleftrightarrow> profiles_of r w k = Some q) \<and>
    c = Inr () \<and> d = Inr data"
proof -
  note sv = profile_saved [OF assms(1-3,5)]
  have ok: "res = Inr ()" "profiles_of r w1 = (profiles_of r w)(n \<mapsto> p\<lparr>pf_name := n\<rparr>)" "p_ok dir r False w1"
    using sv assms(4) by (auto split: sum.splits)
  have l: "l = Inr q \<longleftrightarrow> profiles_of r w1 k = Some q" for q
  proof (cases "profiles_of r w1 k")
    case (Some a)
    then show ?thesis using profile_loaded [OF ok(3) assms(6) Some assms(7)] by auto
  next
    case None
    then show ?thesis using profile_load_law [OF ok(3) assms(6,7)] by (cases l) auto
  qed
  have "write_secure_at dir (cred_file n) data w = (c, w3)" "read_secure_at dir (cred_file n) w3 = (d, w4)"
    using assms(2,8,9) by (simp_all add: save_credential_def load_credential_def profile_paths)
  from rooted.read_back [OF assms(1) profile_managed(2) [OF assms(2)] this(1) profile_managed(2) [OF assms(2)] this(2)]
    rooted.write_quiet(1) [OF assms(1) profile_managed(2) [OF assms(2)] this(1)]
  have "c = Inr () \<and> d = Inr data" by simp
  then show ?thesis using l [of "p\<lparr>pf_name := n\<rparr>"] l ok(1,2) by auto
qed

theorem profile_save_load_witness:
  "\<exists>w1 w2. profile_save ''/h'' ''work'' zero_profile (demo_world []) = (Inr (), w1) \<and>
     profile_load ''/h'' ''work'' w1 = (Inr (zero_profile\<lparr>pf_name := ''work''\<rparr>), w2)"
proof -
  obtain res w1 where s: "profile_save ''/h'' ''work'' zero_profile (demo_world []) = (res, w1)" by fastforce
  obtain l w2 where l: "profile_load ''/h'' ''work'' w1 = (l, w2)" by fastforce
  obtain c w3 where c: "save_credential ''/h'' ''work'' ''x'' (demo_world []) = (c, w3)" by fastforce
  obtain d w4 where d: "load_credential ''/h'' ''work'' w3 = (d, w4)" by fastforce
  have "p_ok ''/h'' 5 False (demo_world [])" by (rule demo_profile_ok) simp
  from profile_save_load [OF this demo_name(1) demo_profile_good s demo_name(1) l c d] s l show ?thesis by simp
qed

text \<open>C25: a deleted profile leaves nothing behind.  Whichever system call fails, after a \<open>Delete\<close> that
  reports success the profile and its credential are gone, nothing else is, and a deleted profile
  that was active is replaced by the default; an error never touches another profile or credential,
  and a corrupt or unreadable active name stops the deletion before anything is removed.\<close>

theorem profile_delete_exact:
  assumes "p_ok dir r b w" "valid_name n" "profile_delete dir n w = (res, w')"
  shows "p_ok dir r b w' \<and>
    (case res of
       Inr _ \<Rightarrow> profiles_of r w' = (profiles_of r w)(n := None) \<and> credentials_of r w' = (credentials_of r w)(n := None) \<and>
         active_of r w' = (if active_of r w = Some n then Some default_name else active_of r w)
     | Inl _ \<Rightarrow> (b \<or> active_of r w = None) \<and> active_of r w' = active_of r w \<and>
         (profiles_of r w' = profiles_of r w \<and> credentials_of r w' = credentials_of r w \<or>
          active_of r w \<noteq> None \<and> profiles_of r w' = (profiles_of r w)(n := None) \<and>
          (credentials_of r w' = credentials_of r w \<or> credentials_of r w' = (credentials_of r w)(n := None))))"
proof -
  obtain a w1 where a: "profile_active dir w = (a, w1)" by fastforce
  note A = active_law [OF assms(1) a]
  have v1: "p_view r w1 = p_view r w" using A by (simp add: store_view_def)
  note S1 = same_view [OF v1]
  show ?thesis
  proof (cases a)
    case (Inl e)
    then have "\<exists>x. res = Inl x" "w' = w1" using assms(2,3) a by (auto simp: profile_delete_def)
    then show ?thesis using A Inl S1 by auto
  next
    case act: (Inr act)
    have ok1: "p_ok dir r b w1" and an: "active_of r w = Some act" using A act by simp_all
    obtain x w2 where x: "remove_profile_files dir n w1 = (x, w2)" by fastforce
    note X = remove_files_law [OF ok1 assms(2) x, unfolded S1]
    show ?thesis
    proof (cases "\<exists>u. x = Inr u \<and> act = n")
      case False
      then have "w' = w2" "res = x" using assms(2,3) a act x by (auto simp: profile_delete_def split: sum.splits)
      then show ?thesis using X an False by (auto split: sum.splits)
    next
      case True
      then have ok2: "p_ok dir r b w2" using X by simp
      obtain z w3 where z: "profile_set_active dir [] w2 = (z, w3)" by fastforce
      have "(res, w') = (case z of Inl e \<Rightarrow> (Inl (WrapErr ''clear active profile: '' e), w3) | Inr _ \<Rightarrow> (Inr (), w3))"
        using assms(2,3) a act x True z by (simp add: profile_delete_def split: sum.splits)
      then show ?thesis using clear_active_law [OF ok2 z] X an True by (cases z) auto
    qed
  qed
qed

theorem profile_delete_exact_witness:
  "\<exists>w'. profile_delete ''/h'' ''work'' demo_work_world = (Inr (), w') \<and> profiles_of 5 w' = Map.empty"
proof -
  obtain res w' where r: "profile_delete ''/h'' ''work'' demo_work_world = (res, w')" by fastforce
  from profile_delete_exact [OF demo_work(1) demo_name(1) r] r show ?thesis
    by (cases res) (auto simp: demo_work)
qed

text \<open>C26: \<open>List\<close> agrees with the map of profiles.  Undisturbed, it returns exactly the profiles that can
  be loaded, each once and in increasing order of names, and skips whatever else the directory holds.\<close>

theorem profile_list_exact:
  assumes "p_ok dir r False w" "profile_list dir w = (res, w')"
  shows "\<exists>ps. res = Inr ps \<and> disk w' = disk w \<and> set ps = ran (profiles_of r w) \<and>
    sorted_wrt (<) (map pf_name ps)"
proof -
  have rd: "ready False profile_layout dir r (disk w)" using assms(1) by (simp add: store_ok_def)
  have dirs: "lay_dir profile_layout ''profiles''" by (simp add: profile_layout_def)
  obtain x w1 where x: "read_dir_secure_at dir ''profiles'' w = (x, w1)" by fastforce
  note X = spec_run [OF spec_read_dir_secure_at [OF rd dirs] assms(1) x]
  have d1: "disk w1 = disk w" using X(3) by (simp add: lists_def)
  then have ok1: "p_ok dir r False w1" using X(1) assms(1) by (simp add: store_ok_def)
  have v1: "p_view r w1 = p_view r w" using d1 by (simp add: store_view_def)
  have sub: "lay_sub profile_layout (n @ ''.json'')" if "valid_name n" for n using that by (auto simp: profile_layout_def)
  have path: "''profiles'' @ ''/'' @ n @ ''.json'' = prof_file n" for n by (simp add: prof_file_def)
  show ?thesis
  proof (cases x)
    case (Inl e)
    then have "res = Inr []" "w' = w1" using X(3) assms(2) x by (simp_all add: profile_list_def lists_def)
    moreover have "profiles_of r w n = None" for n
      using profiles_present [of r w n] X(3) Inl sub [of n] path [of n] by (fastforce simp: lists_def store_view_def)
    then have "ran (profiles_of r w) = {}" by (simp add: ran_def)
    ultimately show ?thesis using d1 by simp
  next
    case (Inr es)
    have L: "distinct es" "\<And>n. valid_name n \<Longrightarrow> n @ ''.json'' \<in> set es \<longleftrightarrow> p_view r w (prof_file n) \<noteq> None"
      using X(3) Inr sub path by (auto simp: lists_def store_view_def)
    obtain ps w2 where l: "list_loop dir es w1 = (ps, w2)" by fastforce
    note ll = list_loop_quiet [OF ok1 l]
    have li: "listed r w1 = listed r w" using same_view(1) [OF v1] by (simp add: listed_def fun_eq_iff)
    have res: "res = Inr (sort_key pf_name ps)" "w' = w2" using assms(2) x Inr l by (simp_all add: profile_list_def)
    have ps: "ps = List.map_filter (listed r w) es" using ll li by simp
    have "distinct (map pf_name ps)" "set ps = ran (profiles_of r w)"
      using listed_distinct [OF L(1)] listed_ran [OF L(2)] unfolding ps by blast+
    then show ?thesis using res ll d1 sort_key_strict by (auto simp: set_sort)
  qed
qed

theorem profile_list_exact_witness:
  "\<exists>w'. profile_list ''/h'' demo_work_world = (Inr [zero_profile\<lparr>pf_name := ''work''\<rparr>], w')"
proof -
  obtain res w' where r: "profile_list ''/h'' demo_work_world = (res, w')" by fastforce
  from profile_list_exact [OF demo_work(1) r] obtain ps where ps: "res = Inr ps"
    "set ps = {zero_profile\<lparr>pf_name := ''work''\<rparr>}" "sorted_wrt (<) (map pf_name ps)" by (auto simp: demo_work)
  have "distinct (map pf_name ps)" using ps(3) by (simp add: strict_sorted_iff)
  then have "distinct ps" by (simp add: distinct_map)
  then have "ps = [zero_profile\<lparr>pf_name := ''work''\<rparr>]"
    using ps(2) by (cases ps) (auto simp: subset_singleton_iff)
  then show ?thesis using r ps(1) by blast
qed

text \<open>C27: results are well formed whatever happens underneath, failing calls and other processes
  included: the active name is a valid profile name, a loaded profile carries the name it was asked
  for, and every listed profile has a valid name; names never come from the contents of a file.\<close>

theorem profile_results_typed:
  "(profile_active dir w = (Inr n, w') \<longrightarrow> valid_name n) \<and>
   (profile_load dir k w = (Inr p, w') \<longrightarrow> valid_name k \<and> pf_name p = k) \<and>
   (profile_list dir w = (Inr ps, w') \<longrightarrow> sorted (map pf_name ps) \<and> list_all (\<lambda>p. valid_name (pf_name p)) ps)"
proof (intro conjI impI)
  have ld: "valid_name k \<and> pf_name p = k" if "profile_load dir k w = (Inr p, w')" for k w p w'
    using that by (auto simp: profile_load_def valid_name_def split: option.splits prod.splits sum.splits)
  have fs: "valid_name (pf_name p)" if "fst (profile_load dir k w) = Inr p" for k w p
    using ld [of k w p "snd (profile_load dir k w)"] that by (simp add: prod_eq_iff)
  have ll: "list_all (\<lambda>p. valid_name (pf_name p)) (fst (list_loop dir es w))" for es w
  proof (induction es arbitrary: w)
    case (Cons e es)
    show ?case using Cons fs by (auto simp: split_beta split: prod.split sum.split)
  qed simp
  show "valid_name n" if "profile_active dir w = (Inr n, w')"
    using that default_valid
    by (auto simp: profile_active_def valid_name_def Let_def split: option.splits prod.splits sum.splits if_splits)
  show "valid_name k" "pf_name p = k" if "profile_load dir k w = (Inr p, w')" using ld [OF that] by simp_all
  assume l: "profile_list dir w = (Inr ps, w')"
  then consider "ps = []" | es w1 where "ps = sort_key pf_name (fst (list_loop dir es w1))"
    by (auto simp: profile_list_def split_beta split: prod.splits sum.splits if_splits)
  then show "sorted (map pf_name ps)" "list_all (\<lambda>p. valid_name (pf_name p)) ps"
    using ll by (cases; auto simp: list_all_iff)+
qed

theorem profile_results_typed_witness:
  "\<exists>n w'. profile_active ''/h'' (demo_world []) = (Inr n, w') \<and> valid_name n"
proof -
  obtain a w' where a: "profile_active ''/h'' (demo_world []) = (a, w')" by fastforce
  have "p_ok ''/h'' 5 False (demo_world [])" by (rule demo_profile_ok) simp
  from active_law [OF this a] obtain n where "a = Inr n" by (cases a) (auto simp: demo_profile_view)
  with profile_results_typed [of "''/h''" "demo_world []" n w' n zero_profile "[]"] a show ?thesis by auto
qed

end
