(* ===== verification/Store_Append.thy ===== *)
theory Store_Append
  imports Store_Interface
begin

text \<open>
  \<open>OpenAppendSecure\<close> as an interface: a file that is opened for appending, created empty when it
  is absent, and that grows by what is written to the handle.  The reader that goes with it opens
  the same file by its path, as \<open>os.Open\<close> does.
\<close>

subsection \<open>Opening the file\<close>

definition append_flags :: "32 word" where
  "append_flags = (O_APPEND OR O_WRONLY)"

definition appendable :: "bool \<Rightarrow> layout \<Rightarrow> string \<Rightarrow> ino \<Rightarrow> filesys \<Rightarrow> string \<Rightarrow> ino \<Rightarrow> string \<Rightarrow> goerr + ino \<Rightarrow> filesys \<Rightarrow> bool" where
  "appendable b L root r d n i p res d' = (ready b L root r d' \<and> (frozen d' i p \<longrightarrow> frozen d i p) \<and>
     (\<forall>j. held d i p j \<longrightarrow> held d' i p j) \<and>
     (view_at L r d' = view_at L r d \<or> view_at L r d n = None \<and> view_at L r d' = (view_at L r d)(n \<mapsto> [])) \<and>
     (case res of
        Inl e \<Rightarrow> b \<or> frozen d i p
      | Inr f \<Rightarrow> entry d' i p = Some f \<and> (\<exists>m. nodes d' f = Some (RegFile m (case view_at L r d n of None \<Rightarrow> [] | Some x \<Rightarrow> x)) \<and>
                m AND 0x1FF = file_perm)))"

lemma appendable_err: "ready b L root r d \<Longrightarrow> b \<or> frozen d i p \<Longrightarrow> appendable b L root r d n i p (Inl e) d"
  by (simp add: appendable_def)

lemma spec_create_file:
  assumes d: "private_dir d i" "wf_disk d" "umask d AND dir_perm = 0" and p: "plain_name p" "entry d i p = None"
    and fl: "wants_create flags"
  shows "spec b d (r_openfile i p flags file_perm) (\<lambda>res d1. case res of
     Inl e \<Rightarrow> b \<and> hard e \<and> d1 = d
   | Inr f \<Rightarrow> f = next_ino d \<and> edited d i ((entry d i)(p \<mapsto> next_ino d)) (Some (RegFile file_perm [])) d1)"
proof -
  let ?mk = "\<lambda>_. RegFile (file_perm AND NOT (umask d)) []"
  have "sys_open_at i p flags file_perm d = add_entry i p ?mk d" using fl by (simp add: sys_open_at_def)
  moreover obtain d1 where "add_entry i p ?mk d = (Inr (next_ino d), d1)"
      "edited d i ((entry d i)(p \<mapsto> next_ino d)) (Some (RegFile file_perm [])) d1"
    using add_entry_new [OF d(1) p d(2), of ?mk] umasked [OF d(3)] by metis
  ultimately show ?thesis
    unfolding r_openfile_def by (intro spec_syscall [where f = "sys_open_at i p flags file_perm"]) auto
qed

lemma wrote_created:
  assumes rd: "ready b L root r d" and t: "target L d r n i p" and ed: "edited d i ((entry d i)(p \<mapsto> next_ino d)) (Some (RegFile file_perm [])) d'"
    and none: "entry d i p = None"
  shows "appendable b L root r d n i p (Inr (next_ino d)) d'" "b \<Longrightarrow> appendable b L root r d n i p (Inl e) d'"
proof -
  note R = readyD [OF rd]
  have w: "wrote b L root r d n [] (Inr ()) d'" by (rule wrote_renamed [OF rd t ed])
  have v: "view_at L r d n = None" using none by (simp add: view_target [OF R(1) t] file_at_def)
  have i: "private_dir d i" by (rule target_dir_ok [OF R(2) t])
  obtain m up es where n: "nodes d' i = Some (DirNode m up es)" "map_of es = (entry d i)(p \<mapsto> next_ino d)"
      "nodes d' (next_ino d) = Some (RegFile file_perm [])"
    using ed i R(4) by (rule editedE)
  then have "entry d' i p = Some (next_ino d)" by (simp add: entry_def)
  moreover have "file_perm AND 0x1FF = file_perm" by (simp add: file_perm_def)
  moreover have "\<not> frozen d' i p" using n(3) \<open>entry d' i p = Some (next_ino d)\<close> by (simp add: frozen_def can_write_def file_perm_def)
  ultimately show "appendable b L root r d n i p (Inr (next_ino d)) d'" "b \<Longrightarrow> appendable b L root r d n i p (Inl e) d'"
    using w v n none by (simp_all add: appendable_def wrote_def held_def)
qed

lemma open_two_eq:
  "open_managed_file r name flags True = (\<lambda>w. case regular_info r name w of
     (ri, w1) \<Rightarrow>
       if (case ri of Inl e \<Rightarrow> \<not> is_not_exist e | Inr _ \<Rightarrow> False)
       then (Inl (case ri of Inl e \<Rightarrow> e | Inr _ \<Rightarrow> MsgErr []), w1)
       else
         (case r_openfile r name (case ri of Inl _ \<Rightarrow> flags OR O_CREATE OR O_EXCL | Inr _ \<Rightarrow> flags) file_perm w1 of
            (Inl e, w2) \<Rightarrow>
              (if is_exist e \<and> \<not> is_ok ri then open_managed 1 r name flags True w2 else (Inl e, w2))
          | (Inr f, w2) \<Rightarrow>
              (case f_stat f w2 of
                 (Inl e, w3) \<Rightarrow> (Inl e, w3)
               | (Inr opened, w3) \<Rightarrow>
                   (if st_kind opened \<noteq> KReg \<or> (case ri of Inl _ \<Rightarrow> False | Inr st \<Rightarrow> st_ino st \<noteq> st_ino opened)
                    then (Inl (Sentinel ErrUnsafePath), w3)
                    else (case secure_permissions f opened file_perm (wants_write flags) w3 of
                            (Inl e, w4) \<Rightarrow> (Inl e, w4) | (Inr _, w4) \<Rightarrow> (Inr f, w4))))))"
  by (rule ext) (simp add: open_managed_file_def numeral_2_eq_2 Let_def split: prod.splits sum.splits)

lemma and_power: "m AND 2 ^ n = (if bit m n then 2 ^ n else 0)" for m :: mode
  by (rule bit_eqI) (auto simp: bit_simps)

lemma owner_bits:
  fixes m :: mode
  assumes "can_read m" "can_write m" "(m AND 0x1FF) AND file_perm = m AND 0x1FF"
  shows "m AND 0x1FF = file_perm"
proof -
  have "m AND 0x100 = 0x100" "m AND 0x80 = 0x80"
    using assms(1,2) and_power [of m 8] and_power [of m 7] by (simp_all add: can_read_def can_write_def split: if_splits)
  then have "m AND (0x100 OR 0x80) = 0x100 OR 0x80" by (simp only: bit.conj_disj_distrib)
  then have "m AND file_perm = file_perm" by (simp add: file_perm_def)
  moreover have "(m AND 0x1FF) AND file_perm = m AND file_perm"
    by (simp add: and.assoc file_perm_def)
  ultimately show ?thesis using assms(3) by simp
qed

lemma private_writable:
  fixes m :: mode
  assumes "m AND 0x1FF = file_perm"
  shows "can_write m"
proof -
  have "m AND 0x80 = (m AND 0x1FF) AND 0x80" by (simp add: and.assoc)
  then show ?thesis by (simp add: can_write_def assms file_perm_def)
qed

theorem spec_open_managed_append:
  assumes rd: "ready b L root r d" and t: "target L d r n i p"
  shows "spec b d (open_managed_file i p append_flags True) (appendable b L root r d n i p)"
proof -
  note R = readyD [OF rd]
  have i: "private_dir d i" by (rule target_dir_ok [OF R(2) t])
  have pl: "plain_name p" using target_plain [OF R(1) t] by blast
  have wr: "wants_write append_flags" by (simp add: wants_write_def append_flags_def O_APPEND_def O_WRONLY_def O_RDWR_def)
  show ?thesis
  proof (cases "entry d i p")
    case None
    let ?fl = "append_flags OR O_CREATE OR O_EXCL"
    have fl: "wants_create ?fl"
      by (simp add: wants_create_def append_flags_def O_APPEND_def O_WRONLY_def O_CREATE_def O_EXCL_def)
    have tail: "spec b d1 (\<lambda>w2. case f_stat (next_ino d) w2 of
          (Inl e, w3) \<Rightarrow> (Inl e, w3)
        | (Inr opened, w3) \<Rightarrow>
            (if st_kind opened \<noteq> KReg \<or> False then (Inl (Sentinel ErrUnsafePath), w3)
             else (case secure_permissions (next_ino d) opened file_perm (wants_write append_flags) w3 of
                     (Inl e, w4) \<Rightarrow> (Inl e, w4) | (Inr _, w4) \<Rightarrow> (Inr (next_ino d), w4))))
        (appendable b L root r d n i p)"
      if ed: "edited d i ((entry d i)(p \<mapsto> next_ino d)) (Some (RegFile file_perm [])) d1" for d1
    proof -
      note y = yields_staged [OF ed i R(4)]
      have k: "st_kind (stat_of (next_ino d) (RegFile file_perm [])) = KReg" by (simp add: stat_of_def)
      show ?thesis
        using wrote_created [OF rd t ed None] wr
        by (intro spec_yields [OF y(1)]) (auto simp: k intro!: spec_return spec_pair spec_yields [OF y(2)])
    qed
    show ?thesis
      unfolding open_two_eq
    proof (rule spec_bind, rule spec_conseq [OF missing_regular_info [OF i pl None]], elim missing_def [THEN iffD1, elim_format] conjE exE,
        rule spec_if, goal_cases)
      case (1 ri d' e)
      then show ?case using appendable_err [OF rd] by (auto intro!: spec_return)
    next
      case (2 ri d' e)
      then have d': "d' = d" and ri: "ri = Inl e" by simp_all
      show ?case
        unfolding d' ri sum.case
      proof (rule spec_try, rule spec_conseq [OF spec_create_file [OF i R(4,7) pl None fl]], goal_cases)
        case (1 res d1)
        show ?case
        proof (cases res)
          case (Inl x)
          then show ?thesis using 1 appendable_err [OF rd] by (auto simp: hard_def intro!: spec_return spec_pair)
        next
          case (Inr f)
          then show ?thesis using 1 tail [of d1] by simp
        qed
      qed
    qed
  next
    case (Some j)
    then have "private_node (nodes d j)"
      using managed_dir_ok [OF R(2)] target_managed [OF R(2) t] by (auto simp: dir_ok_def)
    then obtain m c where nd: "nodes d j = Some (RegFile m c)" "can_read m" "(m AND 0x1FF) AND file_perm = m AND 0x1FF"
      by (rule private_nodeE)
    let ?st = "stat_of j (RegFile m c)"
    have st: "st_kind ?st = KReg" "st_ino ?st = j" "st_perm ?st = m AND 0x1FF" by (simp_all add: stat_of_def)
    have v: "view_at L r d n = Some c" by (simp add: view_target [OF R(1) t] file_at_def Some nd)
    have ri: "spec b d (regular_info i p) (yields False b d ?st)" by (rule yields_regular_info [OF i pl Some nd(1)])
    have res: "resolve_root d root_max_symlinks [i] [p] = Inr j"
      by (rule resolve_in_private [OF i pl Some nd(1)]) simp
    have op: "sys_open_at i p append_flags file_perm d = (if can_write m then Inr j else Inl EACCES, d)"
      using res nd by (simp add: sys_open_at_def wants_create_def access_ok_def wants_write_def append_flags_def
          O_APPEND_def O_WRONLY_def O_RDWR_def O_RDONLY_def O_CREATE_def O_EXCL_def)
    have fz: "frozen d i p = (\<not> can_write m)" using Some nd by (simp add: frozen_def)
    have fs: "spec b d (f_stat j) (yields False b d ?st)"
      unfolding f_stat_def by (rule yields_syscall) (simp add: sys_fstat_def nd)
    have fin: "appendable b L root r d n i p (Inr j) d" if "can_write m"
      using rd Some nd v owner_bits [OF nd(2) that nd(3)] by (simp add: appendable_def)
    have sp: "spec b d (secure_permissions j ?st file_perm (wants_write append_flags)) (yields False b d ())" if "can_write m"
      by (rule yields_secure) (use owner_bits [OF nd(2) that nd(3)] nd(3) in \<open>simp_all add: st\<close>)
    have opn: "spec b d (r_openfile i p append_flags file_perm) (\<lambda>res d1. d1 = d \<and> (case res of
        Inl e \<Rightarrow> (b \<or> frozen d i p) \<and> \<not> is_exist e | Inr f \<Rightarrow> f = j \<and> can_write m))"
      unfolding r_openfile_def
      by (rule spec_syscall [where f = "sys_open_at i p append_flags file_perm", OF op])
        (auto simp: fz hard_def)
    show ?thesis
      unfolding open_two_eq
    proof (rule spec_bind, rule spec_conseq [OF ri], rule spec_if, goal_cases)
      case (1 ri' d')
      then show ?case using appendable_err [OF rd] by (auto intro!: spec_return split: sum.splits)
    next
      case (2 ri' d')
      show ?case
      proof (cases ri')
        case (Inl e)
        then show ?thesis using 2 by (simp add: hard_not_exist)
      next
        case (Inr x)
        then have x: "ri' = Inr ?st" "d' = d" using 2 by simp_all
        show ?thesis
          unfolding x sum.case
        proof (rule spec_try, rule spec_conseq [OF opn], goal_cases)
          case (1 res d1)
          show ?case
          proof (cases res)
            case (Inl e)
            then show ?thesis using 1 appendable_err [OF rd] by (auto intro!: spec_return spec_pair)
          next
            case (Inr f)
            then have f: "f = j" "can_write m" "d1 = d" using 1 by simp_all
            show ?thesis
              unfolding Inr f(1,3) sum.case
              by (rule spec_yields [OF fs])
                (use fin [OF f(2)] appendable_err [OF rd] in \<open>auto simp: st intro!: spec_return spec_pair spec_yields [OF sp [OF f(2)]]\<close>)
          qed
        qed
      qed
    qed
  qed
qed

theorem spec_open_append:
  assumes rd: "ready b L (path_dir path) r d" and st: "lay_strict L" and m: "lay_file L (path_base path)"
  shows "spec b d (open_append_secure path) (appendable b L (path_dir path) r d (path_base path) r (path_base path))"
proof -
  let ?L = "L" and ?n = "path_base path"
  have t: "target ?L x r ?n r ?n" for x using m by (simp add: target_def)
  have ap: "appendable b ?L (path_dir path) r x ?n r ?n res d' \<Longrightarrow> view_at ?L r x = view_at ?L r d \<Longrightarrow>
      frozen x r ?n = frozen d r ?n \<Longrightarrow> (\<And>j. held d r ?n j \<Longrightarrow> held x r ?n j) \<Longrightarrow>
      appendable b ?L (path_dir path) r d ?n r ?n res d'" for x res d'
    by (simp add: appendable_def split: sum.splits)
  show ?thesis
    unfolding open_append_secure_def Let_def
  proof (rule spec_try, rule spec_conseq [OF spec_ensure_dir [OF rd st]], goal_cases)
    case (1 res x)
    show ?case
    proof (cases res)
      case (Inl e)
      then show ?thesis using 1 by (auto simp: appendable_def intro!: spec_return)
    next
      case (Inr u)
      then have rx: "ready b ?L (path_dir path) r x" and v: "view_at ?L r x = view_at ?L r d"
          and fz: "frozen x r ?n = frozen d r ?n" and hd: "held d r ?n j \<Longrightarrow> held x r ?n j" for j
        using 1 by simp_all
      note op = spec_open_managed_append [OF rx t, unfolded append_flags_def]
      have err: "appendable b ?L (path_dir path) r d ?n r ?n (Inl e) x" if b for e
        using rx v fz hd that by (simp add: appendable_def)
      show ?thesis
        unfolding Inr sum.case
        by (rule spec_yields [OF yields_open_parent [OF rx t]],
            simp only: prod.case, rule spec_try, rule spec_conseq [OF op])
          (use v fz hd err in \<open>auto intro!: spec_return spec_pair simp: appendable_def split: sum.splits\<close>)
    qed
  qed
qed

subsection \<open>Writing to the handle\<close>

lemma refill:
  assumes rd: "ready b L root r d" and nd: "nodes d j = Some (RegFile m c)"
  shows "ready b L root r (set_node j (RegFile m c') d)"
    "entry (set_node j (RegFile m c') d) i p = entry d i p"
    "file_at (set_node j (RegFile m c') d) i p = (if entry d i p = Some j then Some c' else file_at d i p)"
proof -
  let ?d' = "set_node j (RegFile m c') d"
  note R = readyD [OF rd]
  have en: "entry ?d' i p = entry d i p" for i p using nd by (simp add: entry_def set_node_def)
  have pd: "private_dir ?d' i = private_dir d i" for i using nd by (auto simp: private_dir_def set_node_def)
  have pn: "private_node (nodes ?d' k) = private_node (nodes d k)" for k
    using nd by (cases "k = j") (auto simp: private_node_def set_node_def)
  have g: "grows d ?d'" using nd by (auto simp: grows_def set_node_def)
  have "nodes d i = None" if "next_ino d \<le> i" for i using R(4) that by (simp add: wf_disk_def)
  then have wf: "wf_disk ?d'" using R(4) nd by (auto simp: wf_disk_def en) (auto simp: set_node_def)
  have ok: "dir_ok b F ?d' i = dir_ok b F d i" for F i by (simp add: dir_ok_def en pd pn)
  have "umask ?d' = umask d" by (simp add: set_node_def)
  with wf have "inv_at b L r ?d'" using R(2) by (simp add: inv_at_def ok en)
  then show "ready b L root r ?d'"
    using R(1) rooted_grows [OF g R(3,6)] strict_root_grows [OF g R(8) R(6)] by (simp add: ready_def)
  show "entry ?d' i p = entry d i p" by (rule en)
  show "file_at ?d' i p = (if entry d i p = Some j then Some c' else file_at d i p)"
    unfolding file_at_def en by (simp add: set_node_def split: option.split)
qed

text \<open>\<open>handle path r f w\<close>: the handle \<open>f\<close> is the file of that path, private and writable.\<close>

definition handle :: "string \<Rightarrow> ino \<Rightarrow> ino \<Rightarrow> world \<Rightarrow> bool" where
  "handle path r f w = held (disk w) r (path_base path) f"

definition file_content :: "string \<Rightarrow> ino \<Rightarrow> world \<Rightarrow> string option" where
  "file_content path r w = path_view path r w path"

lemma file_content_view: "file_content path r w = view_at (lone path) r (disk w) (path_base path)"
  by (simp add: file_content_def path_view_def store_view_def)

lemma lone_file: "lay_strict (lone path)" "lay_file (lone path) (path_base path)"
  by (simp_all add: lone_def)

lemma file_content_file: "file_content path r w = file_at (disk w) r (path_base path)"
  by (simp add: file_content_view view_at_def lone_def)

definition text_of :: "string option \<Rightarrow> string" where
  "text_of x = (case x of None \<Rightarrow> [] | Some s \<Rightarrow> s)"

lemma text_of_simps [simp]: "text_of None = []" "text_of (Some s) = s"
  by (simp_all add: text_of_def)

lemma spec_append:
  assumes rd: "ready b L root r d" and nd: "nodes d f = Some (RegFile m c)"
  shows "spec b d (f_write f True data) (\<lambda>res d'. ready b L root r d' \<and> (\<forall>i p. entry d' i p = entry d i p) \<and>
     (\<exists>k. nodes d' f = Some (RegFile m (c @ take k data)) \<and>
        (\<forall>i p. file_at d' i p = (if entry d i p = Some f then Some (c @ take k data) else file_at d i p)) \<and>
        (case res of Inl _ \<Rightarrow> b | Inr _ \<Rightarrow> length data \<le> k)))"
proof -
  have w: "write_bytes f True x d = set_node f (RegFile m (c @ x)) d" for x by (simp add: write_bytes_def nd)
  have sw: "sys_write f True data d = (Inr (), set_node f (RegFile m (c @ data)) d)" by (simp add: sys_write_def nd w)
  note rf = refill [OF rd nd]
  have n: "nodes (set_node f x d) f = Some x" for x by (simp add: set_node_def)
  show ?thesis
    unfolding f_write_def
  proof (rule spec_syscall_partial [where f = "sys_write f True data", OF sw], goal_cases)
    case 1
    show ?case using rf [of "c @ data"] n by (auto intro: exI [of _ "length data"])
  next
    case (2 e k)
    show ?case unfolding w using rf [of "c @ take k data"] n 2 by (auto intro: exI [of _ k])
  qed
qed

subsection \<open>The interface\<close>

locale append_log =
  fixes ok :: "bool \<Rightarrow> world \<Rightarrow> bool"
    and content :: "world \<Rightarrow> string option"
    and at :: "ino \<Rightarrow> world \<Rightarrow> bool"
    and opn :: "ino io"
    and app :: "ino \<Rightarrow> string \<Rightarrow> unit io"
  assumes open_law: "ok b w \<Longrightarrow> opn w = (res, w') \<Longrightarrow> ok b w' \<and> same_env w w' \<and>
      text_of (content w') = text_of (content w) \<and> (case res of Inl _ \<Rightarrow> b | Inr f \<Rightarrow> at f w')"
    and app_law: "ok b w \<Longrightarrow> at f w \<Longrightarrow> app f data w = (res', w') \<Longrightarrow> ok b w' \<and> same_env w w' \<and>
      (\<exists>k. content w' = Some (text_of (content w) @ take k data) \<and> (case res' of Inl _ \<Rightarrow> b | Inr _ \<Rightarrow> length data \<le> k))"
    and open_frame: "ok b w \<Longrightarrow> at g w \<Longrightarrow> opn w = (res, w') \<Longrightarrow> at g w'"
    and app_frame: "ok b w \<Longrightarrow> at f w \<Longrightarrow> at g w \<Longrightarrow> app f data w = (res', w') \<Longrightarrow> at g w'"
begin

text \<open>Opening and writing only ever extends the file, by a part of the data, by all of it on success.\<close>

lemma extends:
  assumes "ok b w" "opn w = (Inr f, w1)" "app f data w1 = (res, w2)"
  shows "ok b w2 \<and> same_env w w2 \<and> (\<exists>k. content w2 = Some (text_of (content w) @ take k data) \<and>
    (case res of Inl _ \<Rightarrow> b | Inr _ \<Rightarrow> length data \<le> k))"
proof -
  have o: "ok b w1" "same_env w w1" "text_of (content w1) = text_of (content w)" "at f w1"
    using open_law [OF assms(1,2)] by simp_all
  from app_law [OF o(1,4) assms(3)] o show ?thesis by (auto intro: same_env_trans)
qed

lemma appends_quiet:
  assumes "ok False w" "opn w = (res, w1)"
  obtains f where "res = Inr f" "\<And>data res' w2. app f data w1 = (res', w2) \<Longrightarrow>
    res' = Inr () \<and> content w2 = Some (text_of (content w) @ data) \<and> ok False w2 \<and> same_env w w2"
proof -
  obtain f where f: "res = Inr f" using open_law [OF assms] by (cases res) auto
  have "res' = Inr () \<and> content w2 = Some (text_of (content w) @ data) \<and> ok False w2 \<and> same_env w w2"
    if "app f data w1 = (res', w2)" for data res' w2
    using extends [OF assms(1) assms(2) [unfolded f] that] by (cases res') auto
  then show thesis using that f by blast
qed

end

definition log_ok :: "string \<Rightarrow> ino \<Rightarrow> bool \<Rightarrow> world \<Rightarrow> bool" where
  "log_ok path r b w = (path_ok path r b w \<and> \<not> frozen (disk w) r (path_base path))"

interpretation store_append: append_log "log_ok path r" "file_content path r" "handle path r"
    "open_append_secure path" "\<lambda>f data. f_write f True data"
  for path r
proof (unfold_locales, goal_cases)
  case (1 b w res w')
  then have so: "store_ok (lone path) (path_dir path) r b w" and fz: "\<not> frozen (disk w) r (path_base path)"
    by (simp_all add: log_ok_def path_ok_def)
  then have "ready b (lone path) (path_dir path) r (disk w)" by (simp add: store_ok_def)
  from spec_run [OF spec_open_append [OF this lone_file] so 1(2)] fz show ?case
    by (auto simp: appendable_def log_ok_def path_ok_def store_ok_def file_content_view handle_def held_def split: sum.splits)
next
  case (2 b w f data res w')
  then have so: "store_ok (lone path) (path_dir path) r b w" by (simp add: log_ok_def path_ok_def)
  then have rd: "ready b (lone path) (path_dir path) r (disk w)" by (simp add: store_ok_def)
  obtain m c where h: "entry (disk w) r (path_base path) = Some f" "nodes (disk w) f = Some (RegFile m c)" "m AND 0x1FF = file_perm"
    using 2(2) by (auto simp: handle_def held_def)
  have "file_content path r w = Some c"
    using h by (simp add: file_content_file file_at_def)
  then show ?case
    using spec_run [OF spec_append [OF rd h(2)] so 2(3)] h private_writable [OF h(3)]
    by (cases res) (auto simp: log_ok_def path_ok_def store_ok_def file_content_file frozen_def simp del: take_all take_all_iff split: sum.splits)
next
  case (3 b w g res w')
  then have so: "store_ok (lone path) (path_dir path) r b w" by (simp add: log_ok_def path_ok_def)
  then have "ready b (lone path) (path_dir path) r (disk w)" by (simp add: store_ok_def)
  from spec_run [OF spec_open_append [OF this lone_file] so 3(3)] 3(2) show ?case by (simp add: appendable_def handle_def)
next
  case (4 b w f g data res w')
  then have so: "store_ok (lone path) (path_dir path) r b w" by (simp add: log_ok_def path_ok_def)
  then have rd: "ready b (lone path) (path_dir path) r (disk w)" by (simp add: store_ok_def)
  obtain m c where h: "entry (disk w) r (path_base path) = Some f" "nodes (disk w) f = Some (RegFile m c)" "m AND 0x1FF = file_perm"
    using 4(2) by (auto simp: handle_def held_def)
  have "g = f" using 4(3) h(1) by (simp add: handle_def held_def)
  then show ?case using spec_run [OF spec_append [OF rd h(2)] so 4(4)] h by (auto simp: handle_def held_def)
qed

subsection \<open>Another file of the same directory\<close>

text \<open>Two files kept in one directory, one replaced as a whole and one appended to.\<close>

definition both :: "string \<Rightarrow> string \<Rightarrow> layout" where
  "both path other = \<lparr>lay_file = (\<lambda>n. n = path_base path \<or> n = path_base other), lay_dir = (\<lambda>_. False), lay_sub = (\<lambda>_. False),
     lay_strict = True\<rparr>"

definition beside :: "string \<Rightarrow> string \<Rightarrow> ino \<Rightarrow> bool \<Rightarrow> world \<Rightarrow> bool" where
  "beside path other r b w = (path_ok path r b w \<and> path_ok other r b w \<and> path_dir other = path_dir path \<and> path_base other \<noteq> path_base path)"

lemma both_simps:
  "lay_strict (both path other)" "lay_file (both path other) (path_base path)" "lay_file (both path other) (path_base other)"
  "managed (both path other) (path_base path)"
  "view_at (both path other) r d (path_base path) = file_at d r (path_base path)"
  "view_at (both path other) r d (path_base other) = file_at d r (path_base other)"
  by (simp_all add: both_def managed_def view_at_def)

lemma both_ready:
  "ready b (both path other) root r d \<longleftrightarrow> ready b (lone path) root r d \<and> ready b (lone other) root r d"
  by (auto simp: ready_def both_def lone_def inv_at_def dir_ok_def valid_layout_def)

lemma beside_ready:
  assumes "beside path other r b w"
  shows "store_ok (both path other) (path_dir path) r b w" "ready b (both path other) (path_dir path) r (disk w)"
    "ready b (both path other) (path_dir other) r (disk w)"
  using assms by (auto simp: beside_def path_ok_def store_ok_def both_ready)

lemma besideI:
  assumes "beside path other r b w" "calm_world b w'" "ready b (both path other) (path_dir path) r (disk w')"
  shows "beside path other r b w'"
  using assms by (auto simp: beside_def path_ok_def store_ok_def both_ready)

lemma read_beside:
  assumes "beside path other r b w" "read_secure path w = (res, w')"
  shows "beside path other r b w' \<and> disk w' = disk w"
proof -
  note B = beside_ready [OF assms(1)]
  from spec_run [OF spec_read_secure [OF B(2) both_simps(4)] B(1) assms(2)] B(2) show ?thesis
    by (auto simp: reads_def intro: besideI [OF assms(1)])
qed

lemma write_beside:
  assumes "beside path other r b w" "write_secure path x w = (res, w')"
  shows "beside path other r b w' \<and> file_content other r w' = file_content other r w"
proof -
  note B = beside_ready [OF assms(1)]
  note run = spec_run [OF spec_write_secure [OF B(2) both_simps(1,4)] B(1) assms(2)]
  have "view_at (both path other) r (disk w') (path_base other) = view_at (both path other) r (disk w) (path_base other)"
    using run(3) assms(1) by (auto simp: wrote_def beside_def split: sum.splits)
  then show ?thesis
    using run besideI [OF assms(1)] by (simp add: file_content_file both_simps wrote_def)
qed

text \<open>Appending to the other file leaves the first one alone, provided the two are not links to one file;
  files with different contents are not.\<close>

lemma append_beside:
  assumes "beside path other r b w" "open_append_secure other w = (res, w1)"
    and "\<And>c. file_content path r w = Some c \<Longrightarrow> c \<noteq> text_of (file_content other r w)"
  shows "beside path other r b w1" "file_content path r w1 = file_content path r w"
    "res = Inr f \<Longrightarrow> f_write f True data w1 = (res', w2) \<Longrightarrow> beside path other r b w2 \<and> file_content path r w2 = file_content path r w"
proof -
  note B = beside_ready [OF assms(1)]
  let ?L = "both path other"
  note run = spec_run [OF spec_open_append [OF B(3) both_simps(1,3)] _ assms(2), of ?L "path_dir path" r, OF B(1)]
  have dir: "path_dir other = path_dir path" "path_base path \<noteq> path_base other" using assms(1) by (auto simp: beside_def)
  have "view_at ?L r (disk w1) (path_base path) = view_at ?L r (disk w) (path_base path)"
    using run(3) dir by (auto simp: appendable_def)
  then show same: "file_content path r w1 = file_content path r w" by (simp add: both_simps file_content_file)
  show ok: "beside path other r b w1" using run dir by (intro besideI [OF assms(1)]) (simp_all add: appendable_def)
  assume f: "res = Inr f" and w: "f_write f True data w1 = (res', w2)"
  obtain m where m: "entry (disk w1) r (path_base other) = Some f"
    "nodes (disk w1) f = Some (RegFile m (text_of (file_content other r w)))"
    using run(3) f by (auto simp: appendable_def both_simps file_content_file text_of_def)
  have apart: "entry (disk w1) r (path_base path) \<noteq> Some f"
  proof
    assume "entry (disk w1) r (path_base path) = Some f"
    then have "file_content path r w1 = Some (text_of (file_content other r w))" using m(2) by (simp add: file_content_file file_at_def)
    then show False using assms(3) same by simp
  qed
  note B1 = beside_ready [OF ok]
  from spec_run [OF spec_append [OF B1(2) m(2)] B1(1) w] apart same
  show "beside path other r b w2 \<and> file_content path r w2 = file_content path r w"
    by (auto simp: file_content_file intro: besideI [OF ok])
qed

subsection \<open>Opening the file by its path\<close>

text \<open>A path as \<open>filepath.Join\<close> leaves it: its directory, a slash, its last component.\<close>

definition tidy :: "string \<Rightarrow> bool" where
  "tidy path = (path = path_dir path @ ''/'' @ path_base path)"

lemma namei_extend:
  "namei d True n i ps = Inr k \<Longrightarrow> \<exists>n'. namei d True n i (ps @ ws) = namei d True n' k ws"
proof (induction n arbitrary: i ps rule: less_induct)
  case (less n)
  have sym: "\<exists>n'. namei d True m x (qs @ ps @ ws) = namei d True n' k ws"
    if "m < n" "namei d True m x (qs @ ps) = Inr k" for m x qs ps
    using less.IH [OF that] by simp
  from less.prems show ?case
  proof (induction ps arbitrary: i)
    case Nil
    then show ?case by auto
  next
    case (Cons q ps)
    consider "q = []" | "q = ''.''" | "q = ''..''" | "q \<noteq> []" "q \<noteq> ''.''" "q \<noteq> ''..''" by blast
    then show ?case
    proof cases
      case 4
      then obtain x nd where x: "lookup d i q = Inr x" "nodes d x = Some nd"
        using Cons.prems by (auto split: sum.splits option.splits)
      show ?thesis
      proof (cases nd)
        case (SymNode t)
        then obtain m where m: "n = Suc m" "namei d True m (if is_abs t then root_ino d else i) (split_on CHR ''/'' t @ ps) = Inr k"
          using Cons.prems 4 x by (auto split: nat.splits)
        from sym [OF _ m(2)] m(1) obtain n' where
          "namei d True m (if is_abs t then root_ino d else i) (split_on CHR ''/'' t @ ps @ ws) = namei d True n' k ws" by auto
        then show ?thesis using 4 x SymNode m(1) by (intro exI [of _ n']) simp
      qed (use Cons 4 x in auto)
    qed (use Cons in \<open>auto split: sum.splits option.splits node.splits if_splits\<close>)
  qed
qed

lemma open_tidy:
  assumes rd: "ready b (lone path) (path_dir path) r d" and t: "tidy path"
  shows "sys_open_read path d = (case entry d r (path_base path) of None \<Rightarrow> Inl ENOENT | Some j \<Rightarrow> Inr j, d)"
proof -
  note R = readyD [OF rd]
  let ?b = "path_base path"
  have pl: "plain_name ?b" using R(1) by (simp add: valid_layout_def lone_def fname_def)
  have ne: "path_dir path \<noteq> []" and res: "namei d True os_max_symlinks (start_ino d (path_dir path)) (split_on CHR ''/'' (path_dir path)) = Inr r"
    using R(3) by (auto simp: rooted_def resolve_path_def split: if_splits)
  have st: "start_ino d path = start_ino d (path_dir path)"
  proof -
    have "is_abs (path_dir path @ x) = is_abs (path_dir path)" for x
      using ne by (cases "path_dir path") (simp_all add: is_abs_def has_prefix_def)
    then show ?thesis using t by (metis start_ino_def tidy_def)
  qed
  have sp: "split_on CHR ''/'' path = split_on CHR ''/'' (path_dir path) @ [?b]"
  proof -
    have "path = path_dir path @ CHR ''/'' # ?b" using t by (simp add: tidy_def)
    then have "split_on CHR ''/'' path = split_on CHR ''/'' (path_dir path) @ split_on CHR ''/'' ?b"
      by (metis split_on_mid)
    then show ?thesis using pl by simp
  qed
  obtain n' where n': "namei d True os_max_symlinks (start_ino d path) (split_on CHR ''/'' path) = namei d True n' r [?b]"
    using namei_extend [OF res, of "[?b]"] sp st by auto
  have "path \<noteq> []" using t by (auto simp: tidy_def)
  then have rp: "resolve_path d True path = namei d True n' r [?b]" using n' by (simp add: resolve_path_def)
  obtain m up es where n: "nodes d r = Some (DirNode m up es)" "can_search m" "entry d r = map_of es"
    using R(5) by (elim private_dirE)
  have p: "?b \<noteq> []" "?b \<noteq> ''.''" "?b \<noteq> ''..''" using pl by (simp_all add: plain_name_def)
  show ?thesis
  proof (cases "entry d r ?b")
    case None
    then have "lookup d r ?b = Inl ENOENT" using n by (simp add: lookup_def)
    then show ?thesis using None rp p by (simp add: sys_open_read_def)
  next
    case (Some j)
    have "lay_file (lone path) ?b" by (simp add: lone_def)
    then have "private_node (nodes d j)" using inv_root [OF R(2)] Some unfolding dir_ok_def by blast
    then obtain mo c where nd: "nodes d j = Some (RegFile mo c)" "can_read mo" by (rule private_nodeE)
    have "lookup d r ?b = Inr j" using n Some by (simp add: lookup_def)
    then show ?thesis using Some rp p nd by (simp add: sys_open_read_def)
  qed
qed

end
