(* ===== verification/Audit_Log.thy ===== *)
theory Audit_Log
  imports Store_Append Go_Codec
begin

text \<open>
  The package \<open>audit\<close> (\<open>audit.go\<close>): a log of one JSON object a line, appended to by \<open>Log\<close> and
  scanned by \<open>Query\<close>.  \<open>Audit_Writers\<close> takes
  \<open>Log\<close> apart where goroutines can interleave.
\<close>

subsection \<open>Entries\<close>

definition max_entry_size :: nat where
  "max_entry_size = 1024 * 1024"

record audit_entry =
  ae_time :: gotime
  ae_action :: string
  ae_provider :: string
  ae_token :: string
  ae_success :: bool
  ae_error :: string
  ae_source :: string

definition enc_audit :: "audit_entry \<Rightarrow> json option" where
  "enc_audit e =
     (case enc_time (ae_time e) of
        None \<Rightarrow> None
      | Some jt \<Rightarrow>
          Some (JObj ([(''ts'', jt), (''action'', enc_string (ae_action e)), (''provider'', enc_string (ae_provider e)),
            (''token_name'', enc_string (ae_token e)), (''success'', JBool (ae_success e))] @
            omit (ae_error e = []) ''error'' (enc_string (ae_error e)) @
            [(''source'', enc_string (ae_source e))])))"

definition zero_audit :: audit_entry where
  "zero_audit = \<lparr>ae_time = zero_time, ae_action = [], ae_provider = [], ae_token = [], ae_success = False,
     ae_error = [], ae_source = []\<rparr>"

definition audit_fields :: "audit_entry fields" where
  "audit_fields =
     [(''ts'', dec_field dec_time ae_time (\<lambda>v e. e\<lparr>ae_time := v\<rparr>)),
      (''action'', dec_field dec_string ae_action (\<lambda>v e. e\<lparr>ae_action := v\<rparr>)),
      (''provider'', dec_field dec_string ae_provider (\<lambda>v e. e\<lparr>ae_provider := v\<rparr>)),
      (''token_name'', dec_field dec_string ae_token (\<lambda>v e. e\<lparr>ae_token := v\<rparr>)),
      (''success'', dec_field dec_bool ae_success (\<lambda>v e. e\<lparr>ae_success := v\<rparr>)),
      (''error'', dec_field dec_string ae_error (\<lambda>v e. e\<lparr>ae_error := v\<rparr>)),
      (''source'', dec_field dec_string ae_source (\<lambda>v e. e\<lparr>ae_source := v\<rparr>))]"

definition parse_audit :: "string \<Rightarrow> audit_entry option" where
  "parse_audit line = (case json_parse line of None \<Rightarrow> None | Some j \<Rightarrow> dec_struct audit_fields j zero_audit)"

subsection \<open>Log\<close>

definition stamp :: "audit_entry \<Rightarrow> world \<Rightarrow> audit_entry \<times> world" where
  "stamp e w =
     (if is_zero_time (ae_time e) then (case time_now w of (t, w1) \<Rightarrow> (e\<lparr>ae_time := t_utc t\<rparr>, w1)) else (e, w))"

definition audit_log :: "string \<Rightarrow> audit_entry \<Rightarrow> unit io" where
  "audit_log path e w =
     (case stamp e w of
        (e1, w1) \<Rightarrow>
     (case enc_audit e1 of
        None \<Rightarrow> (Inl (WrapErr ''marshal audit entry: '' (MsgErr ''json'')), w1)
      | Some j \<Rightarrow>
          (let data = print_compact j
           in if length data > max_entry_size then (Inl (Sentinel ErrEntryTooLarge), w1)
              else case open_append_secure path w1 of
                (Inl x, w2) \<Rightarrow> (Inl (WrapErr ''open audit log: '' x), w2)
              | (Inr f, w2) \<Rightarrow>
                  (case f_write f True (data @ [CHR 0x0A]) w2 of
                     (Inl x, w3) \<Rightarrow> (Inl (WrapErr ''write audit entry: '' x), w3)
                   | (Inr _, w3) \<Rightarrow> (Inr (), w3)))))"

subsection \<open>Query\<close>

text \<open>
  \<open>bufio.Scanner\<close> with \<open>ScanLines\<close> and a buffer that grows to \<open>scan_limit\<close> bytes.  A line is
  delivered without its newline and one carriage return before it; a last line need not end in a
  newline.  A line whose newline is not among the first \<open>scan_limit\<close> bytes fills the buffer and
  ends the scan with \<open>ErrTooLong\<close> (the second component).
\<close>

definition scan_limit :: nat where
  "scan_limit = max_entry_size + 2"

definition drop_cr :: "string \<Rightarrow> string" where
  "drop_cr line = trim_suffix line [CHR 0x0D]"

function scan_tokens :: "string \<Rightarrow> string list \<times> bool" where
  "scan_tokens data =
     (if data = [] then ([], False)
      else (let line = takeWhile (\<lambda>c. c \<noteq> CHR 0x0A) data
            in if length line \<ge> scan_limit then ([], True)
               else (case scan_tokens (drop (Suc (length line)) data) of (ts, long) \<Rightarrow> (drop_cr line # ts, long))))"
  by pat_completeness auto
termination
  by (relation "measure length") (auto simp: length_drop)

declare scan_tokens.simps [simp del]

text \<open>What the scanner reads: all of the file, or a part of it and the error of the failing read.\<close>

definition read_input :: "ino \<Rightarrow> world \<Rightarrow> (string \<times> goerr option) \<times> world" where
  "read_input f w =
     (let c = (case nodes (disk w) f of Some (RegFile m x) \<Rightarrow> x | _ \<Rightarrow> []);
          n = (case sched w of Fault e k # evs \<Rightarrow> k | _ \<Rightarrow> 0)
      in case f_read_all f w of
           (Inl e, w1) \<Rightarrow> ((take n c, Some e), w1)
         | (Inr data, w1) \<Rightarrow> ((data, None), w1))"

fun query_loop :: "gotime \<Rightarrow> string \<Rightarrow> string list \<Rightarrow> audit_entry list \<times> bool" where
  "query_loop since provider [] = ([], False)"
| "query_loop since provider (line # lines) =
     (if length line > max_entry_size then ([], True)
      else if length line = 0 then query_loop since provider lines
      else case parse_audit line of
        None \<Rightarrow> query_loop since provider lines
      | Some e \<Rightarrow>
          if t_before (ae_time e) since then query_loop since provider lines
          else if provider \<noteq> [] \<and> ae_provider e \<noteq> provider then query_loop since provider lines
          else (case query_loop since provider lines of (es, big) \<Rightarrow> (e # es, big)))"

text \<open>The results of a scan: the entries collected so far are returned with the error.\<close>

definition scan_audit :: "gotime \<Rightarrow> string \<Rightarrow> string \<Rightarrow> goerr option \<Rightarrow> audit_entry list \<times> goerr option" where
  "scan_audit since provider data err =
     (case scan_tokens data of
        (lines, long) \<Rightarrow>
     (case query_loop since provider lines of
        (es, big) \<Rightarrow>
          (es, if big then Some (Sentinel ErrEntryTooLarge)
               else if long then Some (WrapErr ''scan audit log: '' (Sentinel ErrEntryTooLarge))
               else map_option (WrapErr ''scan audit log: '') err)))"

definition audit_query :: "string \<Rightarrow> gotime \<Rightarrow> string \<Rightarrow> world \<Rightarrow> (audit_entry list \<times> goerr option) \<times> world" where
  "audit_query path since provider w =
     (case os_open path w of
        (Inl e, w1) \<Rightarrow>
          if is_not_exist e then (([], None), w1) else (([], Some (WrapErr ''open audit log: '' e)), w1)
      | (Inr f, w1) \<Rightarrow>
          (case read_input f w1 of ((data, err), w2) \<Rightarrow> (scan_audit since provider data err, w2)))"

subsection \<open>A reference for the scan\<close>

definition audit_lines :: "string \<Rightarrow> string list" where
  "audit_lines data = map drop_cr (split_on CHR 0x0A data)"

definition fits :: "string \<Rightarrow> bool" where
  "fits line = (length line \<le> max_entry_size)"

definition wanted :: "gotime \<Rightarrow> string \<Rightarrow> audit_entry \<Rightarrow> bool" where
  "wanted since provider e = (\<not> t_before (ae_time e) since \<and> (provider = [] \<or> ae_provider e = provider))"

definition kept :: "gotime \<Rightarrow> string \<Rightarrow> string \<Rightarrow> audit_entry option" where
  "kept since provider line =
     (case parse_audit line of None \<Rightarrow> None | Some e \<Rightarrow> if wanted since provider e then Some e else None)"

lemma parse_audit_Nil: "parse_audit [] = None"
  by (simp add: parse_audit_def json_parse_def skip_ws_def numeral_2_eq_2)

lemma query_loop_eq:
  "query_loop since p ls = (List.map_filter (kept since p) (takeWhile fits ls), \<not> list_all fits ls)"
  by (induction ls)
    (auto simp: fits_def kept_def wanted_def map_filter_simps parse_audit_Nil split: option.splits prod.splits)

lemma split_on_takeWhile:
  "split_on c s = takeWhile (\<lambda>x. x \<noteq> c) s #
     (if c \<in> set s then split_on c (drop (Suc (length (takeWhile (\<lambda>x. x \<noteq> c) s))) s) else [])"
  by (induction s) auto

lemma length_drop_cr: "length (drop_cr l) \<le> length l" "length l \<le> Suc (length (drop_cr l))"
  by (auto simp: drop_cr_def trim_suffix_def)

lemma not_fits_long: "scan_limit \<le> length l \<Longrightarrow> \<not> fits (drop_cr l)"
  using length_drop_cr(2) [of l] by (simp add: fits_def scan_limit_def)

lemma drop_cr_Nil [simp]: "drop_cr [] = []" "fits []"
  by (auto simp: drop_cr_def trim_suffix_def fits_def)

text \<open>The tokens are the lines up to the first that is too long for the buffer.\<close>

lemma scan_tokens_eq:
  assumes "scan_tokens data = (ts, long)"
  shows "takeWhile fits (audit_lines data) = takeWhile fits ts \<or>
      takeWhile fits (audit_lines data) = takeWhile fits ts @ [[]]"
    "list_all fits (audit_lines data) \<longleftrightarrow> list_all fits ts \<and> \<not> long"
proof -
  have "(takeWhile fits (audit_lines data) = takeWhile fits ts \<or>
      takeWhile fits (audit_lines data) = takeWhile fits ts @ [[]]) \<and>
    (list_all fits (audit_lines data) \<longleftrightarrow> list_all fits ts \<and> \<not> long)"
    using assms
  proof (induction data arbitrary: ts rule: scan_tokens.induct)
    case (1 data)
    let ?line = "takeWhile (\<lambda>c. c \<noteq> CHR 0x0A) data"
    let ?rest = "drop (Suc (length ?line)) data"
    have al: "audit_lines data = drop_cr ?line # (if CHR 0x0A \<in> set data then audit_lines ?rest else [])"
      by (subst audit_lines_def, subst split_on_takeWhile) (simp add: audit_lines_def)
    show ?case
    proof (cases "data = []")
      case True
      then show ?thesis using 1 by (auto simp: scan_tokens.simps [of "[]"] audit_lines_def)
    next
      case ne: False
      show ?thesis
      proof (cases "scan_limit \<le> length ?line")
        case True
        then have "ts = [] \<and> long" using 1(2) ne by (simp add: scan_tokens.simps [of data] Let_def)
        moreover have "\<not> fits (drop_cr ?line)" by (rule not_fits_long [OF True])
        ultimately show ?thesis by (simp add: al)
      next
        case False
        obtain ts' where ts': "scan_tokens ?rest = (ts', long)" "ts = drop_cr ?line # ts'"
          using 1(2) ne False by (auto simp: scan_tokens.simps [of data] Let_def split: prod.splits)
        have ih: "(takeWhile fits (audit_lines ?rest) = takeWhile fits ts' \<or>
            takeWhile fits (audit_lines ?rest) = takeWhile fits ts' @ [[]]) \<and>
          (list_all fits (audit_lines ?rest) \<longleftrightarrow> list_all fits ts' \<and> \<not> long)"
          using 1(1) [OF ne refl _ ts'(1)] False by simp
        show ?thesis
        proof (cases "CHR 0x0A \<in> set data")
          case True
          then show ?thesis using ih al ts'(2) by auto
        next
          case no: False
          then have "?line = data" by (auto simp: takeWhile_eq_all_conv)
          then have "?rest = []" by (metis drop_all le_SucI order_refl)
          then have "ts' = [] \<and> \<not> long" using ts'(1) by (auto simp: scan_tokens.simps [of "[]"])
          then show ?thesis using al ts'(2) no by simp
        qed
      qed
    qed
  qed
  then show "takeWhile fits (audit_lines data) = takeWhile fits ts \<or>
      takeWhile fits (audit_lines data) = takeWhile fits ts @ [[]]"
    "list_all fits (audit_lines data) \<longleftrightarrow> list_all fits ts \<and> \<not> long" by blast+
qed

lemma scan_audit_eq:
  "\<exists>e. scan_audit since p data None = (List.map_filter (kept since p) (takeWhile fits (audit_lines data)),
     if list_all fits (audit_lines data) then None else Some e) \<and> is_sentinel ErrEntryTooLarge e"
proof -
  obtain ts long where t: "scan_tokens data = (ts, long)" by fastforce
  have k: "kept since p [] = None" by (simp add: kept_def parse_audit_Nil)
  have "List.map_filter (kept since p) (takeWhile fits (audit_lines data)) = List.map_filter (kept since p) (takeWhile fits ts)"
    using scan_tokens_eq(1) [OF t] k by (auto simp: List.map_filter_def)
  then show ?thesis
    using scan_tokens_eq(2) [OF t]
    by (intro exI [of _ "if list_all fits ts then WrapErr ''scan audit log: '' (Sentinel ErrEntryTooLarge) else Sentinel ErrEntryTooLarge"])
      (simp add: scan_audit_def t query_loop_eq)
qed

subsection \<open>A line of the log\<close>

definition good_audit :: "audit_entry \<Rightarrow> bool" where
  "good_audit e = (valid_utf8 (ae_action e) \<and> valid_utf8 (ae_provider e) \<and> valid_utf8 (ae_token e) \<and>
     valid_utf8 (ae_error e) \<and> valid_utf8 (ae_source e))"

lemma audit_lookup [simp]:
  "map_of audit_fields ''ts'' = Some (dec_field dec_time ae_time (\<lambda>v e. e\<lparr>ae_time := v\<rparr>))"
  "map_of audit_fields ''action'' = Some (dec_field dec_string ae_action (\<lambda>v e. e\<lparr>ae_action := v\<rparr>))"
  "map_of audit_fields ''provider'' = Some (dec_field dec_string ae_provider (\<lambda>v e. e\<lparr>ae_provider := v\<rparr>))"
  "map_of audit_fields ''token_name'' = Some (dec_field dec_string ae_token (\<lambda>v e. e\<lparr>ae_token := v\<rparr>))"
  "map_of audit_fields ''success'' = Some (dec_field dec_bool ae_success (\<lambda>v e. e\<lparr>ae_success := v\<rparr>))"
  "map_of audit_fields ''error'' = Some (dec_field dec_string ae_error (\<lambda>v e. e\<lparr>ae_error := v\<rparr>))"
  "map_of audit_fields ''source'' = Some (dec_field dec_string ae_source (\<lambda>v e. e\<lparr>ae_source := v\<rparr>))"
  by (simp_all add: audit_fields_def)

lemma audit_keys [simp]:
  "unquote ''ts'' = ''ts''" "unquote ''action'' = ''action''" "unquote ''provider'' = ''provider''"
  "unquote ''token_name'' = ''token_name''" "unquote ''success'' = ''success''" "unquote ''error'' = ''error''"
  "unquote ''source'' = ''source''"
  by (rule unquote_plain, simp)+

lemma audit_raw [simp]: "raw_ok ''ts''" "raw_ok ''action''" "raw_ok ''provider''" "raw_ok ''token_name''"
  "raw_ok ''success''" "raw_ok ''error''" "raw_ok ''source''"
  by (rule raw_ok_key, simp add: plain_char_def)+

lemma json_depth_bool: "json_depth (JBool b) = 0"
  by simp

lemma audit_line:
  assumes "enc_audit e = Some j"
  shows "json_ok j" "json_depth j \<le> Suc 0" "\<exists>ms. j = JObj ms \<and> ms \<noteq> []"
    "good_audit e \<Longrightarrow> parse_audit (print_compact j) = Some e"
proof -
  from assms obtain jt where jt: "enc_time (ae_time e) = Some jt" by (auto simp: enc_audit_def split: option.splits)
  show 1: "json_ok j" using assms dec_enc_time(3) [OF jt] by (auto simp: enc_audit_def jt)
  show 2: "json_depth j \<le> Suc 0"
    using assms dec_enc_time(4) [OF jt] by (auto simp: enc_audit_def jt json_depth_obj json_depth_bool simp del: json_depth.simps)
  show "\<exists>ms. j = JObj ms \<and> ms \<noteq> []" using assms by (auto simp: enc_audit_def jt)
  assume g: "good_audit e"
  have "dec_struct audit_fields j zero_audit = Some e"
    using assms g unfolding good_audit_def
    by (auto simp: enc_audit_def jt zero_audit_def dec_members_omit find_field_def dec_field_def
        dec_enc_string dec_enc_time(1) [OF jt])
  moreover have "json_parse (print_compact j) = Some j"
    using json_parse_compact [of j "[]"] 1 2 by (simp add: max_nesting_def all_ws_def)
  ultimately show "parse_audit (print_compact j) = Some e" by (simp add: parse_audit_def)
qed

text \<open>Compact JSON never contains a line break: strings escape them and there is no other white space.\<close>

lemma hex_no_break: "is_hex h \<Longrightarrow> 32 \<le> byte h"
  by (auto simp: is_hex_def is_digit_def)

lemma scan_string_visible: "scan_string s = Some (a, b) \<Longrightarrow> c \<in> set a \<Longrightarrow> 32 \<le> byte c"
proof (induction s arbitrary: a b rule: length_induct)
  case (1 s)
  then obtain x q where s: "s = x # q" by (cases s) auto
  note IH = "1.IH" [rule_format]
  from "1.prems"(1) [unfolded s] show ?case
    by (cases rule: scan_stringE) (use "1.prems"(2) hex_no_break in \<open>auto simp: s dest: IH [rotated]\<close>)
qed

definition visible :: "string \<Rightarrow> bool" where
  "visible s = list_all (\<lambda>c. 32 \<le> byte c) s"

lemma visible_simps [simp]: "visible []" "visible (c # s) = (32 \<le> byte c \<and> visible s)" "visible (s @ t) = (visible s \<and> visible t)"
  by (simp_all add: visible_def)

lemma visible_digits [simp]: "visible (digits_of s)"
  by (auto simp: visible_def list_all_iff digits_of_def is_digit_def dest: set_takeWhileD)

lemma scan_int_visible: "scan_int s = Some (a, b) \<Longrightarrow> visible a"
  by (auto simp: scan_int_def split: list.splits if_splits)

lemma scan_frac_visible: "scan_frac s = Some (a, b) \<Longrightarrow> visible a"
  by (auto simp: scan_frac_def split: list.splits if_splits)

lemma scan_exp_visible: "scan_exp s = Some (a, b) \<Longrightarrow> visible a"
  by (auto simp: scan_exp_def Let_def split: list.splits if_splits prod.splits)

lemma scan_number_visible: "scan_number s = Some (a, b) \<Longrightarrow> visible a"
  unfolding scan_number_def Let_def
  by (auto split: option.splits prod.splits list.splits if_splits
      dest!: scan_int_visible scan_frac_visible scan_exp_visible)

lemma render_visible:
  shows "json_ok v \<Longrightarrow> c \<in> set (render (\<lambda>_. []) [] l v) \<Longrightarrow> 32 \<le> byte c"
    and "list_all json_ok vs \<Longrightarrow> c \<in> set (render_elems (\<lambda>_. []) [] l vs) \<Longrightarrow> 32 \<le> byte c"
    and "list_all (\<lambda>m. raw_ok (fst m) \<and> json_ok (snd m)) ms \<Longrightarrow> c \<in> set (render_members (\<lambda>_. []) [] l ms) \<Longrightarrow> 32 \<le> byte c"
proof (induction v and vs and ms arbitrary: l and l and l rule: vsize_esize_msize.induct)
  case (3 raw)
  then show ?case using scan_string_visible [of "raw @ [CHR 0x22]" raw "[]"] by (auto simp: quoted_def raw_ok_def)
next
  case (4 raw)
  then show ?case using scan_number_visible [of raw raw "[]"] by (auto simp: num_ok_def visible_def list_all_iff)
next
  case (10 k v ms)
  have "c \<in> set (quoted k) \<Longrightarrow> 32 \<le> byte c"
    using 10 scan_string_visible [of "k @ [CHR 0x22]" k "[]"] by (auto simp: quoted_def raw_ok_def)
  then show ?case using 10 by (auto split: if_splits)
qed (auto split: if_splits)

lemma compact_no_break: "json_ok v \<Longrightarrow> CHR 0x0A \<notin> set (print_compact v)"
  using render_visible(1) [of v "CHR 0x0A" 0] by (auto simp: print_compact_def)

lemma compact_ends: "ms \<noteq> [] \<Longrightarrow> \<exists>s. print_compact (JObj ms) = s @ ''}''"
  by (simp add: print_compact_def)

lemma audit_line_kept:
  assumes "enc_audit e = Some j" "good_audit e"
  shows "drop_cr (print_compact j) = print_compact j" "kept since p (print_compact j) = (if wanted since p e then Some e else None)"
proof -
  obtain s where s: "print_compact j = s @ ''}''" using audit_line(3) [OF assms(1)] compact_ends by blast
  show "drop_cr (print_compact j) = print_compact j"
    unfolding s by (auto simp: drop_cr_def trim_suffix_def dest!: has_suffixE)
  show "kept since p (print_compact j) = (if wanted since p e then Some e else None)"
    using audit_line(4) [OF assms] by (simp add: kept_def)
qed

subsection \<open>Logging and scanning undisturbed\<close>

lemma stamp_frame: "disk (snd (stamp e w)) = disk w" "sched (snd (stamp e w)) = sched w"
  by (simp_all add: stamp_def split_beta time_now_frame)

lemma log_ok_stamp:
  assumes "log_ok path r b w"
  shows "log_ok path r b (snd (stamp e w))" "file_content path r (snd (stamp e w)) = file_content path r w"
  using assms by (simp_all add: log_ok_def path_ok_def store_ok_def calm_world_def stamp_frame file_content_view)

lemma audit_log_law:
  assumes "log_ok path r b w" "audit_log path e w = (res, w')"
  shows "log_ok path r b w' \<and>
    (case res of
       Inr _ \<Rightarrow> \<exists>j. enc_audit (fst (stamp e w)) = Some j \<and> length (print_compact j) \<le> max_entry_size \<and>
         text_of (file_content path r w') = text_of (file_content path r w) @ print_compact j @ [CHR 0x0A]
     | Inl _ \<Rightarrow> (b \<or> enc_audit (fst (stamp e w)) = None \<or>
           (\<exists>j. enc_audit (fst (stamp e w)) = Some j \<and> max_entry_size < length (print_compact j))) \<and>
         (\<exists>k line. text_of (file_content path r w') = text_of (file_content path r w) @ take k line))"
proof -
  obtain e1 w1 where st: "stamp e w = (e1, w1)" by fastforce
  have ok1: "log_ok path r b w1" and c1: "file_content path r w1 = file_content path r w"
    using log_ok_stamp [OF assms(1), of e] st by simp_all
  have none: "\<exists>k line. text_of (file_content path r w) = text_of (file_content path r w) @ take k line"
    by (intro exI [of _ 0]) simp
  show ?thesis
  proof (cases "\<exists>j. enc_audit e1 = Some j \<and> length (print_compact j) \<le> max_entry_size")
    case False
    then have "\<exists>x. res = Inl x" "w' = w1"
      using assms(2) st by (auto simp: audit_log_def Let_def split: option.splits)
    then show ?thesis using ok1 c1 none False st by (cases "enc_audit e1") auto
  next
    case True
    then obtain j where j: "enc_audit e1 = Some j" "length (print_compact j) \<le> max_entry_size" by blast
    obtain o1 w2 where o: "open_append_secure path w1 = (o1, w2)" by fastforce
    note ol = store_append.open_law [OF ok1 o]
    show ?thesis
    proof (cases o1)
      case (Inl x)
      then have "res = Inl (WrapErr ''open audit log: '' x)" "w' = w2"
        using assms(2) st j o by (simp_all add: audit_log_def)
      then show ?thesis using ol Inl c1 none by (cases b) simp_all
    next
      case (Inr f)
      obtain a w3 where a: "f_write f True (print_compact j @ [CHR 0x0A]) w2 = (a, w3)" by fastforce
      have r: "(res, w') = (case a of Inl x \<Rightarrow> (Inl (WrapErr ''write audit entry: '' x), w3) | Inr _ \<Rightarrow> (Inr (), w3))"
        using assms(2) st j o Inr a by (simp add: audit_log_def split: sum.splits)
      note ex = store_append.extends [OF ok1 o [unfolded Inr] a]
      show ?thesis
      proof (cases a)
        case (Inl x)
        then obtain k where "b" "file_content path r w3 = Some (text_of (file_content path r w1) @ take k (print_compact j @ [CHR 0x0A]))"
          using ex by auto
        then have "\<exists>k line. text_of (file_content path r w3) = text_of (file_content path r w) @ take k line"
          using c1 by (metis text_of_simps(2))
        then show ?thesis using r ex Inl \<open>b\<close> by simp
      next
        case (Inr u)
        then show ?thesis using r ex c1 j st by auto
      qed
    qed
  qed
qed

text \<open>A file beside the log is left alone.\<close>

lemma audit_beside:
  assumes "beside path log r b w" "audit_log log e w = (res, w')"
    and "\<And>c. file_content path r w = Some c \<Longrightarrow> c \<noteq> text_of (file_content log r w)"
  shows "beside path log r b w' \<and> file_content path r w' = file_content path r w"
proof -
  obtain e1 w1 where st: "stamp e w = (e1, w1)" by fastforce
  have fr: "disk w1 = disk w" "sched w1 = sched w" using stamp_frame [of e w] st by simp_all
  then have b1: "beside path log r b w1" and same: "file_content p r w1 = file_content p r w" for p
    using assms(1) by (auto simp: beside_def path_ok_def store_ok_def calm_world_def file_content_file)
  obtain o1 w2 where o: "open_append_secure log w1 = (o1, w2)" by fastforce
  note app = append_beside [OF b1 o assms(3) [folded same]]
  show ?thesis
    using assms(2) b1 same app st o
    by (auto simp: audit_log_def Let_def split: option.splits if_splits sum.splits prod.splits)
qed

lemma audit_query_law:
  assumes "log_ok path r False w" "tidy path"
  obtains w' where "audit_query path since p w = (scan_audit since p (text_of (file_content path r w)) None, w')" "disk w' = disk w"
proof -
  have so: "store_ok (lone path) (path_dir path) r False w" using assms(1) by (simp add: log_ok_def path_ok_def)
  then have rd: "ready False (lone path) (path_dir path) r (disk w)" by (simp add: store_ok_def)
  obtain o1 w1 where o: "os_open path w = (o1, w1)" by fastforce
  have empty: "scan_audit since p [] None = ([], None)"
    by (simp add: scan_audit_def scan_tokens.simps [of "[]"])
  show thesis
  proof (cases "entry (disk w) r (path_base path)")
    case None
    then have "sys_open_read path (disk w) = (Inl ENOENT, disk w)" using open_tidy [OF rd assms(2)] by simp
    then have "spec False (disk w) (os_open path) (\<lambda>res d. d = disk w \<and> (\<exists>x. res = Inl x \<and> is_not_exist x))"
      unfolding os_open_def by (intro spec_syscall [where f = "sys_open_read path"]) auto
    from spec_run [OF this so o] None show thesis
      using o empty that [of w1] by (auto simp: audit_query_def file_content_view view_at_def lone_def file_at_def)
  next
    case (Some f)
    then have "private_node (nodes (disk w) f)"
      using inv_root [OF readyD(2) [OF rd]] by (auto simp: dir_ok_def lone_def)
    then obtain m c where nd: "nodes (disk w) f = Some (RegFile m c)" by (rule private_nodeE)
    have "sys_open_read path (disk w) = (Inr f, disk w)" using open_tidy [OF rd assms(2)] Some by simp
    then have "spec False (disk w) (os_open path) (yields False False (disk w) f)"
      unfolding os_open_def by (rule yields_syscall)
    from spec_run [OF this so o] have o1: "o1 = Inr f" "disk w1 = disk w" "calm_world False w1" by (cases o1; simp)+
    obtain x w2 where x: "f_read_all f w1 = (x, w2)" by fastforce
    have "spec False (disk w1) (f_read_all f) (yields False False (disk w1) c)"
      unfolding f_read_all_def by (rule yields_syscall) (simp add: sys_read_def o1 nd)
    from specD [OF this o1(3) refl x] have x2: "x = Inr c" "disk w2 = disk w" using o1(2) by (cases x; simp)+
    have "read_input f w1 = ((c, None), w2)" using x x2 by (simp add: read_input_def Let_def)
    moreover have "file_content path r w = Some c"
      using Some nd by (simp add: file_content_view view_at_def lone_def file_at_def)
    ultimately show thesis using o o1 x2 that [of w2] by (simp add: audit_query_def)
  qed
qed

text \<open>The text of a log that holds these entries.\<close>

fun log_text :: "audit_entry list \<Rightarrow> string option" where
  "log_text [] = Some []"
| "log_text (e # es) =
     (case enc_audit e of
        None \<Rightarrow> None
      | Some j \<Rightarrow>
          if length (print_compact j) \<le> max_entry_size \<and> good_audit e
          then map_option (\<lambda>t. print_compact j @ CHR 0x0A # t) (log_text es) else None)"

lemma log_text_append:
  assumes "log_text es = Some t" "log_text fs = Some u"
  shows "log_text (es @ fs) = Some (t @ u)"
  using assms by (induction es arbitrary: t) (auto split: option.splits if_splits)

lemma log_text_lines:
  "log_text es = Some t \<Longrightarrow> list_all fits (audit_lines t) \<and>
     List.map_filter (kept since p) (audit_lines t) = filter (wanted since p) es"
proof (induction es arbitrary: t)
  case Nil
  have "kept since p [] = None" by (simp add: kept_def parse_audit_Nil)
  then show ?case using Nil by (simp add: audit_lines_def map_filter_simps)
next
  case (Cons e es)
  then obtain j u where j: "enc_audit e = Some j" "length (print_compact j) \<le> max_entry_size" "good_audit e"
      "log_text es = Some u" "t = print_compact j @ CHR 0x0A # u"
    by (auto split: option.splits if_splits)
  note k = audit_line_kept [OF j(1,3)]
  have "split_on CHR 0x0A t = print_compact j # split_on CHR 0x0A u"
    unfolding j(5) by (rule split_on_append) (rule compact_no_break [OF audit_line(1) [OF j(1)]])
  then have "audit_lines t = print_compact j # audit_lines u" by (simp add: audit_lines_def k(1))
  then show ?case using Cons.IH [OF j(4)] j(2) by (simp add: map_filter_simps k(2) fits_def)
qed

text \<open>A query of a log that holds these entries.\<close>

lemma query_entries:
  assumes "log_ok path r False w" "tidy path" "log_text es = Some (text_of (file_content path r w))"
    "audit_query path since p w = (q, w')"
  shows "q = (filter (wanted since p) es, None)" "disk w' = disk w"
proof -
  obtain v where v: "audit_query path since p w = (scan_audit since p (text_of (file_content path r w)) None, v)" "disk v = disk w"
    by (rule audit_query_law [OF assms(1,2)])
  have all: "takeWhile fits (audit_lines (text_of (file_content path r w))) = audit_lines (text_of (file_content path r w))"
    using log_text_lines [OF assms(3), of since p] by (simp add: takeWhile_eq_all_conv list_all_iff)
  have "scan_audit since p (text_of (file_content path r w)) None = (filter (wanted since p) es, None)"
    using scan_audit_eq [of since p "text_of (file_content path r w)"] log_text_lines [OF assms(3), of since p]
    unfolding all by auto
  then show "q = (filter (wanted since p) es, None)" "disk w' = disk w" using v assms(4) by simp_all
qed

subsection \<open>A torn line\<close>

text \<open>
  When a write fails after its first byte, the opening brace stays in the file.  The line of the next
  entry continues that one, so its entry, although logged with success, is not found.
\<close>

lemma two_braces: "json_parse (CHR ''{'' # CHR ''{'' # s) = None"
proof -
  have brace: "skip_ws (CHR ''{'' # t) = CHR ''{'' # t" for t by (simp add: skip_ws_def is_ws_def)
  have "parse_members n (CHR ''{'' # s) = None" for n by (cases n) (simp_all add: brace)
  then have "parse_val (Suc n) (CHR ''{'' # CHR ''{'' # s) = None" for n by (simp add: brace)
  then show ?thesis by (simp add: json_parse_def)
qed

lemma torn_line_skipped:
  assumes "enc_audit e = Some j" "length (print_compact j) < max_entry_size"
  shows "audit_lines (CHR ''{'' # print_compact j @ [CHR 0x0A]) = [CHR ''{'' # print_compact j, []]"
    "kept since p (CHR ''{'' # print_compact j) = None" "fits (CHR ''{'' # print_compact j)"
proof -
  have br: "CHR 0x0A \<notin> set (CHR ''{'' # print_compact j)" using compact_no_break [OF audit_line(1) [OF assms(1)]] by simp
  obtain s where s: "CHR ''{'' # print_compact j = s @ ''}''" using compact_ends audit_line(3) [OF assms(1)]
    by (metis append_Cons)
  have cr: "drop_cr (CHR ''{'' # print_compact j) = CHR ''{'' # print_compact j"
    unfolding s by (auto simp: drop_cr_def trim_suffix_def dest!: has_suffixE)
  obtain t where t: "print_compact j = CHR ''{'' # t"
    using audit_line(3) [OF assms(1)] by (auto simp: print_compact_def)
  show "audit_lines (CHR ''{'' # print_compact j @ [CHR 0x0A]) = [CHR ''{'' # print_compact j, []]"
    using split_on_append [OF br, of "[]"] cr by (simp add: audit_lines_def)
  show "kept since p (CHR ''{'' # print_compact j) = None" by (simp add: kept_def parse_audit_def t two_braces)
  show "fits (CHR ''{'' # print_compact j)" using assms(2) by (simp add: fits_def)
qed

lemma log_text_prefix:
  "log_text es = Some t \<Longrightarrow> \<exists>ls. audit_lines (t @ s) = ls @ audit_lines s \<and> list_all fits ls \<and>
     List.map_filter (kept since p) ls = filter (wanted since p) es"
proof (induction es arbitrary: t)
  case (Cons e es)
  then obtain j u where j: "enc_audit e = Some j" "length (print_compact j) \<le> max_entry_size" "good_audit e"
      "log_text es = Some u" "t = print_compact j @ CHR 0x0A # u"
    by (auto split: option.splits if_splits)
  note k = audit_line_kept [OF j(1,3)]
  obtain ls where ls: "audit_lines (u @ s) = ls @ audit_lines s" "list_all fits ls"
      "List.map_filter (kept since p) ls = filter (wanted since p) es"
    using Cons.IH [OF j(4)] by blast
  have "split_on CHR 0x0A (t @ s) = print_compact j # split_on CHR 0x0A (u @ s)"
    unfolding j(5) append.assoc append_Cons
    by (rule split_on_append) (rule compact_no_break [OF audit_line(1) [OF j(1)]])
  then have "audit_lines (t @ s) = (print_compact j # ls) @ audit_lines s" using ls(1) by (simp add: audit_lines_def k(1))
  moreover have "fits (print_compact j)" using j(2) by (simp add: fits_def)
  ultimately show ?case
    using ls(2,3) k(2) by (intro exI [of _ "print_compact j # ls"]) (simp add: map_filter_simps)
qed (simp add: map_filter_simps)

subsection \<open>Properties\<close>

lemma demo_log_ok: "list_all (calm b) evs \<Longrightarrow> log_ok ''/h/t.json'' 5 b (demo_world evs)"
  using demo_path_ok [of b evs] demo_dir by (simp add: log_ok_def frozen_def demo_world_def demo_entry)

lemma demo_log_content: "file_content ''/h/t.json'' 5 (demo_world evs) = None"
  by (simp add: file_content_def demo_path_view)

lemma demo_tidy: "tidy ''/h/t.json''"
  by (simp add: tidy_def demo_dir)

lemma marshal_short:
  assumes "marshal_time t = Some s"
  shows "length s \<le> 35"
proof -
  have z: "length (strip_zeros x) \<le> length x" for x by (simp add: strip_zeros_def length_dropWhile_le [of _ "rev x", simplified])
  have f: "length (frac_text n) \<le> 10" for n using z [of "pad 9 n"] by (simp add: frac_text_def)
  have k: "length (zone_text k) \<le> 6" for k by (simp add: zone_text_def)
  obtain y mo d where s: "s = date_text y mo d (local_sec t) @ frac_text (tns t mod 1000000000) @ zone_text (tzone t)"
    using assms by (auto simp: marshal_time_def split: if_splits prod.splits)
  show ?thesis using f [of "tns t mod 1000000000"] k [of "tzone t"] by (simp add: s length_date_text)
qed

definition demo_event :: audit_entry where
  "demo_event = zero_audit\<lparr>ae_time := \<lparr>tns = 0, tzone = 0\<rparr>, ae_action := ''login'', ae_provider := ''p''\<rparr>"

lemma demo_event_text: "good_audit demo_event" "\<exists>t. log_text [demo_event] = Some t \<and> length t \<le> max_entry_size"
proof -
  show g: "good_audit demo_event"
    by (simp add: good_audit_def demo_event_def zero_audit_def valid_utf8_def utf8_len_ascii)
  have "marshal_time \<lparr>tns = 0, tzone = 0\<rparr> \<noteq> None"
    by (simp add: marshal_time_def local_day_def civil_of_days_def year_of_def epoch_day_def days_before_def split_beta)
  then obtain m where m: "marshal_time \<lparr>tns = 0, tzone = 0\<rparr> = Some m" by blast
  have esc: "escape ''login'' = ''login''" "escape ''p'' = ''p''" by (simp_all add: esc_ascii_def)
  obtain j where j: "enc_audit demo_event = Some j" "Suc (length (print_compact j)) \<le> max_entry_size"
    using marshal_short [OF m]
    by (simp add: enc_audit_def enc_time_def demo_event_def zero_audit_def m print_compact_def quoted_def enc_string_def
        esc max_entry_size_def omit_def del: escape.simps(2))
  then show "\<exists>t. log_text [demo_event] = Some t \<and> length t \<le> max_entry_size" using g by simp
qed

text \<open>The log only grows.  Whichever system call fails, everything logged earlier stays where it
  was: \<open>Log\<close> adds at the end the whole line of the entry when it reports success, and otherwise at
  most a part of it.\<close>

theorem audit_append_only:
  assumes "log_ok path r b w" "audit_log path e w = (res, w')"
  shows "log_ok path r b w' \<and>
    (\<exists>line k. text_of (file_content path r w') = text_of (file_content path r w) @ take k line \<and>
       (case res of
          Inl _ \<Rightarrow> True
        | Inr _ \<Rightarrow> \<exists>j. enc_audit (fst (stamp e w)) = Some j \<and> line = print_compact j @ [CHR 0x0A] \<and> length line \<le> k))"
proof -
  note law = audit_log_law [OF assms]
  show ?thesis
  proof (cases res)
    case (Inl x)
    then show ?thesis using law by auto
  next
    case (Inr u)
    then obtain j where j: "enc_audit (fst (stamp e w)) = Some j"
        "text_of (file_content path r w') = text_of (file_content path r w) @ print_compact j @ [CHR 0x0A]"
      using law by auto
    show ?thesis
      using law Inr j
      by (intro conjI exI [of _ "print_compact j @ [CHR 0x0A]"] exI [of _ "Suc (length (print_compact j))"]) auto
  qed
qed

theorem audit_append_only_witness:
  "\<exists>res w'. audit_log ''/h/t.json'' demo_event (demo_world [Quiet, Fault EIO 0]) = (res, w') \<and> log_ok ''/h/t.json'' 5 True w'"
proof -
  obtain res w' where r: "audit_log ''/h/t.json'' demo_event (demo_world [Quiet, Fault EIO 0]) = (res, w')" by fastforce
  have "log_ok ''/h/t.json'' 5 True (demo_world [Quiet, Fault EIO 0])" by (rule demo_log_ok) simp
  from audit_append_only [OF this r] r show ?thesis by auto
qed

text \<open>What was logged is found.  After an undisturbed \<open>Log\<close> onto a log of well-formed entries,
  \<open>Query\<close> returns without an error exactly the old entries and the new one, those not before the given
  time and of the given provider, every field intact and in the order they were logged.\<close>

theorem audit_log_query:
  assumes "log_ok path r False w" "tidy path" "log_text es = Some (text_of (file_content path r w))"
    and "log_text [e] = Some t" "\<not> is_zero_time (ae_time e)"
    and "audit_log path e w = (res, w1)" "audit_query path since p w1 = (q, w2)"
  shows "res = Inr () \<and> q = (filter (wanted since p) (es @ [e]), None) \<and> disk w2 = disk w1"
proof -
  have st: "stamp e w = (e, w)" using assms(5) by (simp add: stamp_def)
  obtain j where j: "enc_audit e = Some j" "length (print_compact j) \<le> max_entry_size" "t = print_compact j @ [CHR 0x0A]"
    using assms(4) by (auto split: option.splits if_splits)
  note law = audit_log_law [OF assms(1,6), unfolded st fst_conv]
  have res: "res = Inr ()" using law j by (cases res) auto
  then have c: "text_of (file_content path r w1) = text_of (file_content path r w) @ t" and ok1: "log_ok path r False w1"
    using law j by auto
  have lt: "log_text (es @ [e]) = Some (text_of (file_content path r w1))"
    using log_text_append [OF assms(3,4)] c by simp
  show ?thesis using query_entries [OF ok1 assms(2) lt assms(7)] res by simp
qed

theorem audit_log_query_witness:
  "\<exists>w1 w2. audit_log ''/h/t.json'' demo_event (demo_world []) = (Inr (), w1) \<and>
     audit_query ''/h/t.json'' zero_time ''p'' w1 = (([demo_event], None), w2)"
proof -
  obtain res w1 where l: "audit_log ''/h/t.json'' demo_event (demo_world []) = (res, w1)" by fastforce
  obtain q w2 where q: "audit_query ''/h/t.json'' zero_time ''p'' w1 = (q, w2)" by fastforce
  obtain t where t: "log_text [demo_event] = Some t" using demo_event_text(2) by blast
  have ok: "log_ok ''/h/t.json'' 5 False (demo_world [])" by (rule demo_log_ok) simp
  have nz: "\<not> is_zero_time (ae_time demo_event)" by (simp add: demo_event_def is_zero_time_def zero_time_def)
  have "log_text [] = Some (text_of (file_content ''/h/t.json'' 5 (demo_world [])))" by (simp add: demo_log_content)
  from audit_log_query [OF ok demo_tidy this t nz l q] l q show ?thesis
    by (simp add: wanted_def t_before_def demo_event_def zero_time_def)
qed

text \<open>C40: a torn line hides the next entry.  When an earlier write failed after the opening brace of its
  line, an undisturbed \<open>Log\<close> still reports success, but its line continues the torn one; a query then
  returns the older entries and never the new one, and reports no error either.\<close>

theorem audit_torn_line:
  assumes "log_ok path r False w" "tidy path"
    and "log_text es = Some t0" "text_of (file_content path r w) = t0 @ ''{''"
    and "log_text [e] = Some t" "length t \<le> max_entry_size" "\<not> is_zero_time (ae_time e)"
    and "audit_log path e w = (res, w1)" "audit_query path since p w1 = (q, w2)"
  shows "res = Inr () \<and> q = (filter (wanted since p) es, None)"
proof -
  have st: "stamp e w = (e, w)" using assms(7) by (simp add: stamp_def)
  obtain j where j: "enc_audit e = Some j" "length (print_compact j) < max_entry_size"
    using assms(5,6) by (auto split: option.splits if_splits)
  note law = audit_log_law [OF assms(1,8), unfolded st fst_conv]
  have res: "res = Inr ()" using law j by (cases res) auto
  let ?torn = "CHR ''{'' # print_compact j @ [CHR 0x0A]"
  have c: "text_of (file_content path r w1) = t0 @ ?torn" and ok1: "log_ok path r False w1"
    using law j res assms(4) by auto
  obtain w2' where "audit_query path since p w1 = (scan_audit since p (t0 @ ?torn) None, w2')"
    by (rule audit_query_law [OF ok1 assms(2), unfolded c])
  then have q: "q = scan_audit since p (t0 @ ?torn) None" using assms(9) by simp
  obtain ls where ls: "audit_lines (t0 @ ?torn) = ls @ audit_lines ?torn" "list_all fits ls"
      "List.map_filter (kept since p) ls = filter (wanted since p) es"
    using log_text_prefix [OF assms(3)] by blast
  note torn = torn_line_skipped [OF j]
  have lines: "audit_lines (t0 @ ?torn) = ls @ [CHR ''{'' # print_compact j, []]" using ls(1) torn(1) by simp
  have all: "list_all fits (audit_lines (t0 @ ?torn))" using ls(2) torn(3) lines by simp
  then have "takeWhile fits (audit_lines (t0 @ ?torn)) = audit_lines (t0 @ ?torn)"
    by (simp add: takeWhile_eq_all_conv list_all_iff)
  moreover have "kept since p [] = None" by (simp add: kept_def parse_audit_Nil)
  ultimately have "List.map_filter (kept since p) (takeWhile fits (audit_lines (t0 @ ?torn))) = filter (wanted since p) es"
    using ls(3) torn(2) lines by (simp add: List.map_filter_def)
  then show ?thesis using scan_audit_eq [of since p "t0 @ ?torn"] res q all by auto
qed

theorem audit_torn_line_witness:
  "\<exists>w w1 w2. audit_log ''/h/t.json'' demo_event w = (Inr (), w1) \<and> audit_query ''/h/t.json'' zero_time ''p'' w1 = (([], None), w2)"
proof -
  have ok0: "log_ok ''/h/t.json'' 5 False (demo_world [])" by (rule demo_log_ok) simp
  obtain o1 u where o: "open_append_secure ''/h/t.json'' (demo_world []) = (o1, u)" by fastforce
  have "\<exists>f. o1 = Inr f" using store_append.open_law [OF ok0 o] by (cases o1) simp_all
  then obtain f where f: "o1 = Inr f" by blast
  obtain a w where a: "f_write f True ''{'' u = (a, w)" by fastforce
  obtain k where k: "log_ok ''/h/t.json'' 5 False w"
      "file_content ''/h/t.json'' 5 w = Some (text_of (file_content ''/h/t.json'' 5 (demo_world [])) @ take k ''{'')"
      "case a of Inl _ \<Rightarrow> False | Inr _ \<Rightarrow> length ''{'' \<le> k"
    using store_append.extends [OF ok0 o [unfolded f] a] by blast
  have "take k ''{'' = ''{''" using k(3) by (cases a) simp_all
  then have c: "text_of (file_content ''/h/t.json'' 5 w) = [] @ ''{''" using k(2) demo_log_content by simp
  obtain res w1 where l: "audit_log ''/h/t.json'' demo_event w = (res, w1)" by fastforce
  obtain q w2 where q: "audit_query ''/h/t.json'' zero_time ''p'' w1 = (q, w2)" by fastforce
  obtain t where t: "log_text [demo_event] = Some t" "length t \<le> max_entry_size" using demo_event_text(2) by blast
  have nz: "\<not> is_zero_time (ae_time demo_event)" by (simp add: demo_event_def is_zero_time_def zero_time_def)
  from audit_torn_line [OF k(1) demo_tidy log_text.simps(1) c t nz l q] have "res = Inr ()" "q = ([], None)" by simp_all
  with l q show ?thesis by blast
qed

text \<open>C28: \<open>Query\<close> agrees with a reference reading of any file, well formed or not.  The bytes are cut
  at newlines, a carriage return before one is dropped, and the lines up to the first longer than the
  limit give, in order, the entries that parse and are wanted; an error is reported exactly if there is
  such a line, and it is \<open>ErrEntryTooLarge\<close>.  Scanner and buffer bounds show nowhere else.\<close>

theorem audit_query_reference:
  assumes "log_ok path r False w" "tidy path" "audit_query path since p w = ((es, err), w')"
  shows "es = List.map_filter (kept since p) (takeWhile fits (audit_lines (text_of (file_content path r w)))) \<and>
    (err = None \<longleftrightarrow> list_all fits (audit_lines (text_of (file_content path r w)))) \<and>
    (\<forall>x. err = Some x \<longrightarrow> is_sentinel ErrEntryTooLarge x) \<and> disk w' = disk w"
proof -
  obtain v where "audit_query path since p w = (scan_audit since p (text_of (file_content path r w)) None, v)" "disk v = disk w"
    by (rule audit_query_law [OF assms(1,2)])
  then show ?thesis using assms(3) scan_audit_eq [of since p "text_of (file_content path r w)"]
    by (auto split: if_splits)
qed

theorem audit_query_reference_witness:
  "\<exists>w'. audit_query ''/h/t.json'' zero_time [] (demo_world []) = (([], None), w')"
proof -
  obtain es err w' where q: "audit_query ''/h/t.json'' zero_time [] (demo_world []) = ((es, err), w')"
    by (metis prod.collapse)
  have "log_ok ''/h/t.json'' 5 False (demo_world [])" by (rule demo_log_ok) simp
  from audit_query_reference [OF this demo_tidy q]
  have "es = []" "err = None"
    by (simp_all add: demo_log_content audit_lines_def map_filter_simps kept_def parse_audit_Nil)
  then show ?thesis using q by blast
qed

text \<open>The size bound is exact.  An entry is refused with \<open>ErrEntryTooLarge\<close> exactly if its encoding
  is longer than \<open>MaxEntrySize\<close>, and then no system call is made; so a log written by \<open>Log\<close> has no line
  that \<open>Query\<close> would refuse.\<close>

theorem audit_size_bound:
  assumes "enc_audit (fst (stamp e w)) = Some j" "audit_log path e w = (res, w')"
  shows "(res = Inl (Sentinel ErrEntryTooLarge) \<longleftrightarrow> length (print_compact j) > max_entry_size) \<and>
    (length (print_compact j) > max_entry_size \<longrightarrow> disk w' = disk w \<and> sched w' = sched w) \<and>
    (length (print_compact j) \<le> max_entry_size \<longleftrightarrow> fits (print_compact j))"
proof -
  obtain e1 w1 where st: "stamp e w = (e1, w1)" by fastforce
  then show ?thesis
    using assms stamp_frame [of e w]
    by (auto simp: audit_log_def Let_def fits_def split: if_splits prod.splits sum.splits)
qed

theorem audit_size_bound_witness:
  "\<exists>res w'. audit_log ''/h/t.json'' demo_event (demo_world []) = (res, w') \<and> res \<noteq> Inl (Sentinel ErrEntryTooLarge)"
proof -
  obtain res w' where r: "audit_log ''/h/t.json'' demo_event (demo_world []) = (res, w')" by fastforce
  obtain t where "log_text [demo_event] = Some t" using demo_event_text(2) by blast
  then obtain j where j: "enc_audit demo_event = Some j" "length (print_compact j) \<le> max_entry_size"
    by (auto split: option.splits if_splits)
  have "stamp demo_event (demo_world []) = (demo_event, demo_world [])"
    by (simp add: stamp_def demo_event_def is_zero_time_def zero_time_def)
  then show ?thesis using audit_size_bound [OF _ r, of j] j r by auto
qed

end
