(* ===== verification/Audit_Writers.thy ===== *)
theory Audit_Writers
  imports Audit_Log
begin

text \<open>
  Goroutines that log at the same time (\<open>audit.go\<close>).  \<open>Log\<close> stamps and encodes its entry, takes the mutex
  of its logger, opens the file, writes one line and releases the mutex.  Here these are steps of their
  own, so that calls on one logger and calls on several loggers of the same file interleave.
\<close>

subsection \<open>The steps of \<open>Log\<close>\<close>

text \<open>Before the lock: the time stamp, the encoding and its size.\<close>

definition prepare_entry :: "audit_entry \<Rightarrow> string io" where
  "prepare_entry e w =
     (case stamp e w of
        (e1, w1) \<Rightarrow>
     (case enc_audit e1 of
        None \<Rightarrow> (Inl (WrapErr ''marshal audit entry: '' (MsgErr ''json'')), w1)
      | Some j \<Rightarrow>
          if length (print_compact j) > max_entry_size then (Inl (Sentinel ErrEntryTooLarge), w1)
          else (Inr (print_compact j), w1)))"

definition open_log :: "string \<Rightarrow> ino io" where
  "open_log path w =
     (case open_append_secure path w of
        (Inl x, w1) \<Rightarrow> (Inl (WrapErr ''open audit log: '' x), w1)
      | (Inr f, w1) \<Rightarrow> (Inr f, w1))"

definition write_line :: "ino \<Rightarrow> string \<Rightarrow> unit io" where
  "write_line f data w =
     (case f_write f True (data @ [CHR 0x0A]) w of
        (Inl x, w1) \<Rightarrow> (Inl (WrapErr ''write audit entry: '' x), w1)
      | (Inr _, w1) \<Rightarrow> (Inr (), w1))"

text \<open>These parts make up the operation.\<close>

lemma audit_log_parts:
  "audit_log path e w = (case prepare_entry e w of
      (Inl x, w1) \<Rightarrow> (Inl x, w1)
    | (Inr data, w1) \<Rightarrow> (case open_log path w1 of
        (Inl x, w2) \<Rightarrow> (Inl x, w2)
      | (Inr f, w2) \<Rightarrow> write_line f data w2))"
  by (simp add: audit_log_def prepare_entry_def open_log_def write_line_def Let_def split: prod.split option.split sum.split)

subsection \<open>Goroutines\<close>

datatype log_phase = Fresh | Waiting string | Entered string | Writing string ino
  | Logged "goerr + unit" | Finished "goerr + unit"

record logging =
  lg_owner :: "nat \<Rightarrow> nat option"
  lg_phase :: "nat \<Rightarrow> log_phase"
  lg_world :: world

definition begin_logging :: "world \<Rightarrow> logging" where
  "begin_logging w = \<lparr>lg_owner = (\<lambda>_. None), lg_phase = (\<lambda>_. Fresh), lg_world = w\<rparr>"

text \<open>Goroutine \<open>i\<close> logs the entry \<open>es i\<close> with the logger \<open>lg i\<close>; all loggers have the same path.\<close>

inductive log_step :: "string \<Rightarrow> (nat \<Rightarrow> nat) \<Rightarrow> (nat \<Rightarrow> audit_entry) \<Rightarrow> logging \<Rightarrow> logging \<Rightarrow> bool" for path lg es where
  rejects: "lg_phase s i = Fresh \<Longrightarrow> prepare_entry (es i) (lg_world s) = (Inl x, w1) \<Longrightarrow>
    log_step path lg es s (s\<lparr>lg_phase := (lg_phase s)(i := Finished (Inl x)), lg_world := w1\<rparr>)"
| prepares: "lg_phase s i = Fresh \<Longrightarrow> prepare_entry (es i) (lg_world s) = (Inr data, w1) \<Longrightarrow>
    log_step path lg es s (s\<lparr>lg_phase := (lg_phase s)(i := Waiting data), lg_world := w1\<rparr>)"
| enters: "lg_phase s i = Waiting data \<Longrightarrow> lg_owner s (lg i) = None \<Longrightarrow>
    log_step path lg es s (s\<lparr>lg_owner := (lg_owner s)(lg i := Some i), lg_phase := (lg_phase s)(i := Entered data)\<rparr>)"
| cannot_open: "lg_phase s i = Entered data \<Longrightarrow> open_log path (lg_world s) = (Inl x, w1) \<Longrightarrow>
    log_step path lg es s (s\<lparr>lg_phase := (lg_phase s)(i := Logged (Inl x)), lg_world := w1\<rparr>)"
| opens: "lg_phase s i = Entered data \<Longrightarrow> open_log path (lg_world s) = (Inr f, w1) \<Longrightarrow>
    log_step path lg es s (s\<lparr>lg_phase := (lg_phase s)(i := Writing data f), lg_world := w1\<rparr>)"
| writes: "lg_phase s i = Writing data f \<Longrightarrow> write_line f data (lg_world s) = (res, w1) \<Longrightarrow>
    log_step path lg es s (s\<lparr>lg_phase := (lg_phase s)(i := Logged res), lg_world := w1\<rparr>)"
| leaves: "lg_phase s i = Logged res \<Longrightarrow>
    log_step path lg es s (s\<lparr>lg_owner := (lg_owner s)(lg i := None), lg_phase := (lg_phase s)(i := Finished res)\<rparr>)"

inductive log_reaches :: "string \<Rightarrow> (nat \<Rightarrow> nat) \<Rightarrow> (nat \<Rightarrow> audit_entry) \<Rightarrow> logging \<Rightarrow> logging \<Rightarrow> bool" for path lg es s0 where
  initial: "log_reaches path lg es s0 s0"
| further: "log_reaches path lg es s0 s \<Longrightarrow> log_step path lg es s s1 \<Longrightarrow> log_reaches path lg es s0 s1"

subsection \<open>The invariant\<close>

text \<open>The line of an entry, and what a write that may fail leaves of it.\<close>

definition entry_line :: "audit_entry \<Rightarrow> string \<Rightarrow> bool" where
  "entry_line e data = (\<exists>w j. enc_audit (fst (stamp e w)) = Some j \<and> data = print_compact j \<and> length data \<le> max_entry_size)"

definition piece :: "bool \<Rightarrow> audit_entry \<Rightarrow> string \<Rightarrow> bool" where
  "piece b e x = (\<exists>data k. entry_line e data \<and> x = take k (data @ [CHR 0x0A]) \<and> (b \<or> length data < k))"

fun in_mutex :: "log_phase \<Rightarrow> bool" where
  "in_mutex (Entered _) = True"
| "in_mutex (Writing _ _) = True"
| "in_mutex (Logged _) = True"
| "in_mutex _ = False"

fun carries :: "log_phase \<Rightarrow> string option" where
  "carries (Waiting data) = Some data"
| "carries (Entered data) = Some data"
| "carries (Writing data _) = Some data"
| "carries _ = None"

fun log_result :: "log_phase \<Rightarrow> (goerr + unit) option" where
  "log_result (Logged res) = Some res"
| "log_result (Finished res) = Some res"
| "log_result _ = None"

definition log_inv ::
  "string \<Rightarrow> ino \<Rightarrow> bool \<Rightarrow> (nat \<Rightarrow> nat) \<Rightarrow> (nat \<Rightarrow> audit_entry) \<Rightarrow> string \<Rightarrow> (nat \<times> string) list \<Rightarrow> logging \<Rightarrow> bool" where
  "log_inv path r b lg es t0 order s \<longleftrightarrow>
     log_ok path r b (lg_world s) \<and>
     text_of (file_content path r (lg_world s)) = t0 @ concat (map snd order) \<and>
     distinct (map fst order) \<and>
     (\<forall>(i, x) \<in> set order. log_result (lg_phase s i) \<noteq> None \<and> piece b (es i) x) \<and>
     (\<forall>i. log_result (lg_phase s i) = Some (Inr ()) \<longrightarrow> (\<exists>x. (i, x) \<in> set order \<and> piece False (es i) x)) \<and>
     (\<forall>i data f. lg_phase s i = Writing data f \<longrightarrow> handle path r f (lg_world s)) \<and>
     (\<forall>i data. carries (lg_phase s i) = Some data \<longrightarrow> entry_line (es i) data) \<and>
     (\<forall>i. in_mutex (lg_phase s i) \<longleftrightarrow> lg_owner s (lg i) = Some i) \<and>
     (\<forall>l i. lg_owner s l = Some i \<longrightarrow> lg i = l)"

lemma log_invD:
  assumes "log_inv path r b lg es t0 order s"
  shows "log_ok path r b (lg_world s)" "text_of (file_content path r (lg_world s)) = t0 @ concat (map snd order)"
    "distinct (map fst order)" "\<And>i x. (i, x) \<in> set order \<Longrightarrow> log_result (lg_phase s i) \<noteq> None \<and> piece b (es i) x"
    "\<And>i. log_result (lg_phase s i) = Some (Inr ()) \<Longrightarrow> \<exists>x. (i, x) \<in> set order \<and> piece False (es i) x"
    "\<And>i data f. lg_phase s i = Writing data f \<Longrightarrow> handle path r f (lg_world s)"
    "\<And>i data. carries (lg_phase s i) = Some data \<Longrightarrow> entry_line (es i) data"
    "\<And>i. in_mutex (lg_phase s i) \<longleftrightarrow> lg_owner s (lg i) = Some i" "\<And>l i. lg_owner s l = Some i \<Longrightarrow> lg i = l"
  using assms unfolding log_inv_def by blast+

text \<open>How the mutexes change with the phase of goroutine \<open>i\<close>.\<close>

definition mutex_move :: "nat \<Rightarrow> nat \<Rightarrow> log_phase \<Rightarrow> log_phase \<Rightarrow> (nat \<Rightarrow> nat option) \<Rightarrow> (nat \<Rightarrow> nat option) \<Rightarrow> bool" where
  "mutex_move i l p p' own own' \<longleftrightarrow>
     own' = own \<and> in_mutex p' = in_mutex p \<or>
     own l = None \<and> own' = own(l := Some i) \<and> in_mutex p' \<or>
     in_mutex p \<and> own' = own(l := None) \<and> \<not> in_mutex p'"

lemma mutex_kept:
  assumes "mutex_move i (lg i) (ph i) p own own'" "\<And>j. in_mutex (ph j) \<longleftrightarrow> own (lg j) = Some j" "\<And>l j. own l = Some j \<Longrightarrow> lg j = l"
  shows "in_mutex ((ph(i := p)) j) \<longleftrightarrow> own' (lg j) = Some j" "own' l = Some j \<Longrightarrow> lg j = l"
proof -
  consider (same) "own' = own" "in_mutex p = in_mutex (ph i)"
    | (taken) "own (lg i) = None" "own' = own(lg i := Some i)" "in_mutex p"
    | (freed) "in_mutex (ph i)" "own' = own(lg i := None)" "\<not> in_mutex p"
    using assms(1) unfolding mutex_move_def by metis
  then show "in_mutex ((ph(i := p)) j) \<longleftrightarrow> own' (lg j) = Some j"
  proof cases
    case freed
    then have "own (lg i) = Some i" using assms(2) by blast
    then show ?thesis using freed assms(2) [of j] by (cases "j = i") auto
  qed (use assms(2) [of j] assms(2) [of i] in \<open>cases "j = i"; auto\<close>)+
  show "own' l = Some j \<Longrightarrow> lg j = l"
    using assms(1,3) by (auto simp: mutex_move_def split: if_splits)
qed

lemma log_inv_move:
  assumes "log_inv path r b lg es t0 order s"
    "lg_phase s' = (lg_phase s)(i := p)" "mutex_move i (lg i) (lg_phase s i) p (lg_owner s) (lg_owner s')"
    "log_ok path r b (lg_world s')"
    "text_of (file_content path r (lg_world s')) = text_of (file_content path r (lg_world s)) @ concat (map snd add)"
    "\<And>g. handle path r g (lg_world s) \<Longrightarrow> handle path r g (lg_world s')"
    "add = [] \<or> (\<exists>x. add = [(i, x)] \<and> log_result p \<noteq> None \<and> piece b (es i) x \<and> log_result (lg_phase s i) = None)"
    "log_result (lg_phase s i) = None \<or> log_result p = log_result (lg_phase s i)"
    "log_result p = Some (Inr ()) \<Longrightarrow> \<exists>x. (i, x) \<in> set (order @ add) \<and> piece False (es i) x"
    "\<And>data f. p = Writing data f \<Longrightarrow> handle path r f (lg_world s')"
    "\<And>data. carries p = Some data \<Longrightarrow> entry_line (es i) data"
  shows "log_inv path r b lg es t0 (order @ add) s'"
proof -
  note inv = log_invD [OF assms(1)]
  have fresh: "i \<notin> set (map fst order)" if "log_result (lg_phase s i) = None"
  proof
    assume "i \<in> set (map fst order)"
    then obtain x where "(i, x) \<in> set order" by auto
    from inv(4) [OF this] that show False by simp
  qed
  have "distinct (map fst (order @ add))" using assms(7)
    by (elim disjE exE conjE) (use inv(3) fresh in simp_all)
  moreover have "text_of (file_content path r (lg_world s')) = t0 @ concat (map snd (order @ add))" using assms(5) inv(2) by simp
  moreover have "\<forall>(j, x) \<in> set (order @ add). log_result (lg_phase s' j) \<noteq> None \<and> piece b (es j) x"
    using inv(4) assms(2,7,8) by fastforce
  moreover have "\<forall>j. log_result (lg_phase s' j) = Some (Inr ()) \<longrightarrow> (\<exists>x. (j, x) \<in> set (order @ add) \<and> piece False (es j) x)"
    using inv(5) assms(2,9) by auto
  moreover have "\<forall>j data f. lg_phase s' j = Writing data f \<longrightarrow> handle path r f (lg_world s')"
    using inv(6) assms(2,6,10) by auto
  moreover have "\<forall>j data. carries (lg_phase s' j) = Some data \<longrightarrow> entry_line (es j) data" using inv(7) assms(2,11) by auto
  moreover have "\<forall>j. in_mutex (lg_phase s' j) \<longleftrightarrow> lg_owner s' (lg j) = Some j" "\<forall>l j. lg_owner s' l = Some j \<longrightarrow> lg j = l"
    using mutex_kept [OF assms(3) inv(8,9)] assms(2) by auto
  ultimately show ?thesis using assms(4) unfolding log_inv_def by blast
qed

subsection \<open>Every step keeps it\<close>

lemma prepare_keeps:
  assumes "log_ok path r b w" "prepare_entry e w = (res, w1)"
  shows "log_ok path r b w1" "file_content path r w1 = file_content path r w" "handle path r g w \<Longrightarrow> handle path r g w1"
    "res = Inr data \<Longrightarrow> entry_line e data"
proof -
  have w1: "w1 = snd (stamp e w)" using assms(2) by (auto simp: prepare_entry_def split: prod.splits option.splits if_splits)
  show "log_ok path r b w1" "file_content path r w1 = file_content path r w" using log_ok_stamp [OF assms(1)] w1 by simp_all
  show "handle path r g w \<Longrightarrow> handle path r g w1" by (simp add: handle_def w1 stamp_frame)
  assume "res = Inr data"
  then have "\<exists>j. enc_audit (fst (stamp e w)) = Some j \<and> data = print_compact j \<and> length data \<le> max_entry_size"
    using assms(2) by (auto simp: prepare_entry_def split: prod.splits option.splits if_splits)
  then show "entry_line e data" unfolding entry_line_def by blast
qed

lemma open_keeps:
  assumes "log_ok path r b w" "open_log path w = (res, w1)"
  shows "log_ok path r b w1" "text_of (file_content path r w1) = text_of (file_content path r w)"
    "handle path r g w \<Longrightarrow> handle path r g w1" "res = Inr f \<Longrightarrow> handle path r f w1"
proof -
  obtain o1 w2 where o: "open_append_secure path w = (o1, w2)" by fastforce
  then have "w1 = w2" "\<And>f. res = Inr f \<Longrightarrow> o1 = Inr f" using assms(2) by (auto simp: open_log_def split: sum.splits)
  then show "log_ok path r b w1" "text_of (file_content path r w1) = text_of (file_content path r w)"
    "handle path r g w \<Longrightarrow> handle path r g w1" "res = Inr f \<Longrightarrow> handle path r f w1"
    using store_append.open_law [OF assms(1) o] store_append.open_frame [OF assms(1) _ o] by auto
qed

lemma write_keeps:
  assumes "log_ok path r b w" "handle path r f w" "entry_line e data" "write_line f data w = (res, w1)"
  obtains x where "log_ok path r b w1" "text_of (file_content path r w1) = text_of (file_content path r w) @ x"
    "piece b e x" "res = Inr () \<Longrightarrow> piece False e x" "\<And>g. handle path r g w \<Longrightarrow> handle path r g w1"
proof -
  obtain a w2 where a: "f_write f True (data @ [CHR 0x0A]) w = (a, w2)" by fastforce
  then have w1: "w1 = w2" and r: "res = Inr () \<Longrightarrow> a = Inr ()" using assms(4) by (auto simp: write_line_def split: sum.splits)
  from store_append.app_law [OF assms(1,2) a] obtain k where k: "log_ok path r b w1"
    "text_of (file_content path r w1) = text_of (file_content path r w) @ take k (data @ [CHR 0x0A])"
    "case a of Inl _ \<Rightarrow> b | Inr _ \<Rightarrow> length (data @ [CHR 0x0A]) \<le> k"
    unfolding w1 by auto
  have "piece b e (take k (data @ [CHR 0x0A]))" "res = Inr () \<Longrightarrow> piece False e (take k (data @ [CHR 0x0A]))"
    unfolding piece_def using assms(3) k(3) r by (auto split: sum.splits intro!: exI [of _ data] exI [of _ k])
  then show thesis using that k(1,2) store_append.app_frame [OF assms(1,2) _ a] w1 by blast
qed

lemma log_inv_step:
  assumes "log_inv path r b lg es t0 order s" "log_step path lg es s s'"
  shows "\<exists>add. log_inv path r b lg es t0 (order @ add) s'"
  using assms(2)
proof cases
  case (rejects i x w1)
  note k = prepare_keeps [OF log_invD(1) [OF assms(1)] rejects(3)]
  have "log_inv path r b lg es t0 (order @ []) s'"
    by (rule log_inv_move [OF assms(1), of s' i "Finished (Inl x)"]) (use k rejects in \<open>simp_all add: mutex_move_def\<close>)
  then show ?thesis ..
next
  case (prepares i data w1)
  note k = prepare_keeps [OF log_invD(1) [OF assms(1)] prepares(3)]
  have "log_inv path r b lg es t0 (order @ []) s'"
    by (rule log_inv_move [OF assms(1), of s' i "Waiting data"]) (use k prepares in \<open>simp_all add: mutex_move_def\<close>)
  then show ?thesis ..
next
  case (enters i data)
  have "log_inv path r b lg es t0 (order @ []) s'"
    by (rule log_inv_move [OF assms(1), of s' i "Entered data"])
      (use enters log_invD(1,7) [OF assms(1)] in \<open>simp_all add: mutex_move_def\<close>)
  then show ?thesis ..
next
  case (cannot_open i data x w1)
  note k = open_keeps [OF log_invD(1) [OF assms(1)] cannot_open(3)]
  have "log_inv path r b lg es t0 (order @ []) s'"
    by (rule log_inv_move [OF assms(1), of s' i "Logged (Inl x)"]) (use k cannot_open in \<open>simp_all add: mutex_move_def\<close>)
  then show ?thesis ..
next
  case (opens i data f w1)
  note k = open_keeps [OF log_invD(1) [OF assms(1)] opens(3)]
  have "log_inv path r b lg es t0 (order @ []) s'"
    by (rule log_inv_move [OF assms(1), of s' i "Writing data f"])
      (use k opens log_invD(7) [OF assms(1), of i] in \<open>simp_all add: mutex_move_def\<close>)
  then show ?thesis ..
next
  case (writes i data f res w1)
  have "entry_line (es i) data" using log_invD(7) [OF assms(1), of i] writes(2) by simp
  then obtain x where x: "log_ok path r b w1" "text_of (file_content path r w1) = text_of (file_content path r (lg_world s)) @ x"
    "piece b (es i) x" "res = Inr () \<Longrightarrow> piece False (es i) x"
    "\<And>g. handle path r g (lg_world s) \<Longrightarrow> handle path r g w1"
    using write_keeps [OF log_invD(1) [OF assms(1)] log_invD(6) [OF assms(1) writes(2)] _ writes(3)] by metis
  have "log_inv path r b lg es t0 (order @ [(i, x)]) s'"
    by (rule log_inv_move [OF assms(1), of s' i "Logged res"]) (use x writes in \<open>auto simp: mutex_move_def\<close>)
  then show ?thesis ..
next
  case (leaves i res)
  have "log_inv path r b lg es t0 (order @ []) s'"
    by (rule log_inv_move [OF assms(1), of s' i "Finished res"])
      (use leaves log_invD(1,5) [OF assms(1)] in \<open>auto simp: mutex_move_def\<close>)
  then show ?thesis ..
qed

lemma log_inv_begin:
  assumes "log_ok path r b w"
  shows "log_inv path r b lg es (text_of (file_content path r w)) [] (begin_logging w)"
  using assms by (simp add: log_inv_def begin_logging_def)

lemma log_inv_reaches:
  assumes "log_reaches path lg es (begin_logging w) s" "log_ok path r b w"
  shows "\<exists>order. log_inv path r b lg es (text_of (file_content path r w)) order s"
  using assms(1)
proof induction
  case initial
  then show ?case using log_inv_begin [OF assms(2)] by blast
next
  case (further s s1)
  then show ?case using log_inv_step by blast
qed

subsection \<open>The lines of good entries\<close>

lemma whole_line:
  assumes "piece False e x" "log_text [e] = Some t" "\<not> is_zero_time (ae_time e)"
  shows "x = t"
proof -
  have "fst (stamp e w) = e" for w using assms(3) by (simp add: stamp_def)
  then show ?thesis using assms(1,2) by (auto simp: piece_def entry_line_def split: option.splits if_splits)
qed

lemma order_text:
  assumes "log_text old = Some t0" "\<And>i. \<exists>t. log_text [es i] = Some t" "\<And>i. \<not> is_zero_time (ae_time (es i))"
    "\<forall>(i, x) \<in> set order. piece False (es i) x"
  shows "log_text (old @ map es (map fst order)) = Some (t0 @ concat (map snd order))"
  using assms(4)
proof (induction order rule: rev_induct)
  case Nil
  then show ?case using assms(1) by simp
next
  case (snoc a order)
  obtain i x where a: "a = (i, x)" by fastforce
  obtain t where t: "log_text [es i] = Some t" using assms(2) by blast
  have "x = t" using whole_line [OF _ t assms(3)] snoc.prems a by auto
  moreover have ih: "log_text (old @ map es (map fst order)) = Some (t0 @ concat (map snd order))" using snoc by simp
  ultimately show ?case using log_text_append [OF ih t] a by simp
qed

subsection \<open>A goroutine that logs while nobody else moves\<close>

lemma log_reaches_trans: "log_reaches path lg es s1 s2 \<Longrightarrow> log_reaches path lg es s0 s1 \<Longrightarrow> log_reaches path lg es s0 s2"
  by (induction rule: log_reaches.induct) (auto intro: further)

lemma further_eq: "log_reaches path lg es s0 s \<Longrightarrow> log_step path lg es s s1 \<Longrightarrow> s1 = s2 \<Longrightarrow> log_reaches path lg es s0 s2"
  by (blast intro: further)

lemma solo_log:
  assumes "lg_phase s i = Fresh" "lg_owner s (lg i) = None" "audit_log path (es i) (lg_world s) = (res, w1)"
  shows "log_reaches path lg es s (s\<lparr>lg_world := w1, lg_phase := (lg_phase s)(i := Finished res)\<rparr>)"
proof -
  let ?at = "\<lambda>p w. s\<lparr>lg_world := w, lg_phase := (lg_phase s)(i := p), lg_owner := (lg_owner s)(lg i := Some i)\<rparr>"
  have own: "(lg_owner s)(lg i := None) = lg_owner s" using assms(2) by (simp add: fun_upd_idem)
  obtain pr v1 where pr: "prepare_entry (es i) (lg_world s) = (pr, v1)" by fastforce
  show ?thesis
  proof (cases pr)
    case (Inl x)
    then have "res = Inl x" "w1 = v1" using assms(3) pr by (simp_all add: audit_log_parts)
    then show ?thesis by (intro further_eq [OF initial rejects [of s i es x v1]]) (use assms(1) pr Inl in simp_all)
  next
    case (Inr data)
    have "log_reaches path lg es s (s\<lparr>lg_world := v1, lg_phase := (lg_phase s)(i := Waiting data)\<rparr>)"
      by (rule further_eq [OF initial prepares [of s i es data v1]]) (use assms(1) pr Inr in simp_all)
    then have r1: "log_reaches path lg es s (?at (Entered data) v1)"
      by (rule further_eq [OF _ enters [of _ i data]]) (use assms(2) in simp_all)
    obtain op v2 where op: "open_log path v1 = (op, v2)" by fastforce
    have r3: "log_reaches path lg es s (?at (Logged res) w1)"
    proof (cases op)
      case (Inl x)
      then have "res = Inl x" "w1 = v2" using assms(3) pr \<open>pr = Inr data\<close> op by (simp_all add: audit_log_parts)
      then show ?thesis by (intro further_eq [OF r1 cannot_open [of _ i data path x v2]]) (use op Inl in simp_all)
    next
      case (Inr f)
      have r2: "log_reaches path lg es s (?at (Writing data f) v2)"
        by (rule further_eq [OF r1 opens [of _ i data path f v2]]) (use op Inr in simp_all)
      have "write_line f data v2 = (res, w1)" using assms(3) pr \<open>pr = Inr data\<close> op Inr by (simp add: audit_log_parts)
      then show ?thesis by (intro further_eq [OF r2 writes [of _ i data f res w1]]) simp_all
    qed
    then show ?thesis by (rule further_eq [OF _ leaves [of _ i res]]) (simp_all add: own)
  qed
qed

subsection \<open>Properties\<close>

text \<open>C18: lines never mix.  Whatever the interleaving of goroutines, on one logger or on several loggers of
  one file, and whichever system calls fail, the file is the old text followed by the lines of entries one
  after the other, one for each goroutine at most; a line is whole unless its write failed, and it is there,
  whole, once its \<open>Log\<close> has reported success.  Of one logger, at most one goroutine is between lock and unlock.\<close>

theorem audit_lines_whole:
  assumes "log_ok path r b w" "log_reaches path lg es (begin_logging w) s"
  shows "(\<exists>order. text_of (file_content path r (lg_world s)) = text_of (file_content path r w) @ concat (map snd order) \<and>
      distinct (map fst order) \<and> (\<forall>(i, x) \<in> set order. piece b (es i) x) \<and>
      (\<forall>i. lg_phase s i = Finished (Inr ()) \<longrightarrow> (\<exists>x. (i, x) \<in> set order \<and> piece False (es i) x))) \<and>
    (\<forall>i j. in_mutex (lg_phase s i) \<and> in_mutex (lg_phase s j) \<and> lg i = lg j \<longrightarrow> i = j)"
proof -
  obtain order where o: "log_inv path r b lg es (text_of (file_content path r w)) order s"
    using log_inv_reaches [OF assms(2,1)] by blast
  note inv = log_invD [OF o]
  have "\<exists>x. (i, x) \<in> set order \<and> piece False (es i) x" if "lg_phase s i = Finished (Inr ())" for i
    using inv(5) [of i] that by simp
  moreover have "\<forall>(i, x) \<in> set order. piece b (es i) x" using inv(4) by blast
  moreover have "i = j" if "in_mutex (lg_phase s i)" "in_mutex (lg_phase s j)" "lg i = lg j" for i j
    using inv(8) [of i] inv(8) [of j] that by simp
  ultimately show ?thesis using inv(2,3) by blast
qed

theorem audit_lines_whole_witness:
  "\<exists>res s (order :: (nat \<times> string) list). log_reaches ''/h/t.json'' id (\<lambda>_. demo_event) (begin_logging (demo_world [Quiet, Fault EIO 0])) s \<and>
     lg_phase s 0 = Finished res \<and> text_of (file_content ''/h/t.json'' 5 (lg_world s)) = concat (map snd order) \<and>
     (\<forall>(i, x) \<in> set order. piece True demo_event x)"
proof -
  let ?s0 = "begin_logging (demo_world [Quiet, Fault EIO 0])"
  obtain res w1 where l: "audit_log ''/h/t.json'' demo_event (lg_world ?s0) = (res, w1)" by fastforce
  let ?s1 = "?s0\<lparr>lg_world := w1, lg_phase := (lg_phase ?s0)(0 := Finished res)\<rparr>"
  have run: "log_reaches ''/h/t.json'' id (\<lambda>_. demo_event) ?s0 ?s1"
    by (rule solo_log) (use l in \<open>simp_all add: begin_logging_def\<close>)
  have "log_ok ''/h/t.json'' 5 True (demo_world [Quiet, Fault EIO 0])" by (rule demo_log_ok) simp
  from audit_lines_whole [OF this run] obtain order :: "(nat \<times> string) list"
    where "text_of (file_content ''/h/t.json'' 5 (lg_world ?s1)) = concat (map snd order)"
      "\<forall>(i, x) \<in> set order. piece True demo_event x" by (auto simp: demo_log_content)
  moreover have "lg_phase ?s1 0 = Finished res" by simp
  ultimately show ?thesis using run by blast
qed

text \<open>C19: everything logged is found, however many goroutines logged at once.  On an undisturbed disk, at any
  moment, \<open>Query\<close> returns the entries that were in the log and behind them, once each and with every field,
  entries of goroutines past their write, among them all those whose \<open>Log\<close> has returned.\<close>

theorem audit_writers_query:
  assumes "log_ok path r False w" "tidy path" "log_text old = Some (text_of (file_content path r w))"
    and "\<And>i. \<exists>t. log_text [es i] = Some t" "\<And>i. \<not> is_zero_time (ae_time (es i))"
    and "log_reaches path lg es (begin_logging w) s" "audit_query path since p (lg_world s) = (q, w')"
  shows "\<exists>order. distinct order \<and> q = (filter (wanted since p) (old @ map es order), None) \<and>
    {i. lg_phase s i = Finished (Inr ())} \<subseteq> set order \<and> set order \<subseteq> {i. log_result (lg_phase s i) \<noteq> None}"
proof -
  obtain order where o: "log_inv path r False lg es (text_of (file_content path r w)) order s"
    using log_inv_reaches [OF assms(6,1)] by blast
  note inv = log_invD [OF o]
  have "log_text (old @ map es (map fst order)) = Some (text_of (file_content path r (lg_world s)))"
    unfolding inv(2) by (rule order_text [OF assms(3-5)]) (use inv(4) in blast)
  from query_entries(1) [OF inv(1) assms(2) this assms(7)]
  have "q = (filter (wanted since p) (old @ map es (map fst order)), None)" .
  moreover have "{i. lg_phase s i = Finished (Inr ())} \<subseteq> set (map fst order)"
  proof
    fix i assume "i \<in> {i. lg_phase s i = Finished (Inr ())}"
    then obtain x where "(i, x) \<in> set order" using inv(5) [of i] by auto
    then show "i \<in> set (map fst order)" by force
  qed
  moreover have "set (map fst order) \<subseteq> {i. log_result (lg_phase s i) \<noteq> None}" using inv(4) by fastforce
  ultimately show ?thesis using inv(3) by blast
qed

theorem audit_writers_query_witness:
  "\<exists>s w'. log_reaches ''/h/t.json'' id (\<lambda>_. demo_event) (begin_logging (demo_world [])) s \<and>
     audit_query ''/h/t.json'' zero_time ''p'' (lg_world s) = (([demo_event], None), w')"
proof -
  let ?s0 = "begin_logging (demo_world [])"
  obtain res w1 where l: "audit_log ''/h/t.json'' demo_event (demo_world []) = (res, w1)" by fastforce
  let ?s1 = "?s0\<lparr>lg_world := w1, lg_phase := (lg_phase ?s0)(0 := Finished res)\<rparr>"
  have run: "log_reaches ''/h/t.json'' id (\<lambda>_. demo_event) ?s0 ?s1"
    by (rule solo_log) (use l in \<open>simp_all add: begin_logging_def\<close>)
  obtain q w' where q: "audit_query ''/h/t.json'' zero_time ''p'' (lg_world ?s1) = (q, w')" by fastforce
  have ok: "log_ok ''/h/t.json'' 5 False (demo_world [])" by (rule demo_log_ok) simp
  have old: "log_text [] = Some (text_of (file_content ''/h/t.json'' 5 (demo_world [])))" by (simp add: demo_log_content)
  have t: "\<exists>t. log_text [demo_event] = Some t" using demo_event_text(2) by blast
  have nz: "\<not> is_zero_time (ae_time demo_event)" by (simp add: demo_event_def is_zero_time_def zero_time_def)
  then have "stamp demo_event (demo_world []) = (demo_event, demo_world [])" by (simp add: stamp_def)
  then have res: "res = Inr ()" using audit_log_law [OF ok l] t by (cases res) (auto split: option.splits if_splits)
  from audit_writers_query [OF ok demo_tidy old t nz run q] obtain order :: "nat list"
    where o: "distinct order" "q = (filter (wanted zero_time ''p'') (map (\<lambda>_. demo_event) order), None)"
      "{i. lg_phase ?s1 i = Finished (Inr ())} \<subseteq> set order" "set order \<subseteq> {i. log_result (lg_phase ?s1 i) \<noteq> None}" by auto
  have "set order = {0}" using o(3,4) res by (auto simp: begin_logging_def split: if_splits)
  then have "order = [0]" using o(1) by (cases order) (auto simp: subset_singleton_iff)
  then have "q = ([demo_event], None)" using o(2) by (simp add: wanted_def t_before_def demo_event_def zero_time_def)
  then show ?thesis using run q by blast
qed

end
