(* ===== verification/Go_Crypto.thy ===== *)
theory Go_Crypto
  imports Go_Codec
begin

text \<open>
  The packages \<open>crypto/sha256\<close>, \<open>encoding/hex\<close> and \<open>encoding/base64\<close> as far as the program
  calls them: the hash function word by word, hexadecimal text, and base64 in its standard and its
  unpadded URL form.
\<close>

subsection \<open>SHA-256\<close>

type_synonym w32 = "32 word"

text \<open>The round constants: the first 32 bits of the fractional parts of the cube roots of the first 64 primes.\<close>

definition sha_k :: "w32 list" where
  "sha_k =
    [1116352408, 1899447441, 3049323471, 3921009573, 961987163, 1508970993,
     2453635748, 2870763221, 3624381080, 310598401, 607225278, 1426881987,
     1925078388, 2162078206, 2614888103, 3248222580, 3835390401, 4022224774,
     264347078, 604807628, 770255983, 1249150122, 1555081692, 1996064986,
     2554220882, 2821834349, 2952996808, 3210313671, 3336571891, 3584528711,
     113926993, 338241895, 666307205, 773529912, 1294757372, 1396182291,
     1695183700, 1986661051, 2177026350, 2456956037, 2730485921, 2820302411,
     3259730800, 3345764771, 3516065817, 3600352804, 4094571909, 275423344,
     430227734, 506948616, 659060556, 883997877, 958139571, 1322822218,
     1537002063, 1747873779, 1955562222, 2024104815, 2227730452, 2361852424,
     2428436474, 2756734187, 3204031479, 3329325298]"

type_synonym sha_state = "w32 \<times> w32 \<times> w32 \<times> w32 \<times> w32 \<times> w32 \<times> w32 \<times> w32"

definition sha_init :: sha_state where
  "sha_init = (1779033703, 3144134277, 1013904242, 2773480762, 1359893119, 2600822924, 528734635, 1541459225)"

definition sha_round :: "sha_state \<Rightarrow> w32 \<times> w32 \<Rightarrow> sha_state" where
  "sha_round s kw = (case s of (a, b, c, d, e, f, g, h) \<Rightarrow>
     let t1 = h + (word_rotr 6 e XOR word_rotr 11 e XOR word_rotr 25 e) + ((e AND f) XOR (NOT e AND g)) + fst kw + snd kw;
         t2 = (word_rotr 2 a XOR word_rotr 13 a XOR word_rotr 22 a) + ((a AND b) XOR (a AND c) XOR (b AND c))
     in (t1 + t2, a, b, c, d + t1, e, f, g))"

text \<open>The message schedule is kept with its latest word first.\<close>

definition next_word :: "w32 list \<Rightarrow> w32 list" where
  "next_word ws =
     (let x = ws ! 14; y = ws ! 1
      in ((word_rotr 17 y XOR word_rotr 19 y XOR drop_bit 10 y) + ws ! 6 +
          (word_rotr 7 x XOR word_rotr 18 x XOR drop_bit 3 x) + ws ! 15) # ws)"

definition schedule :: "w32 list \<Rightarrow> w32 list" where
  "schedule block = rev ((next_word ^^ 48) (rev block))"

definition sha_compress :: "sha_state \<Rightarrow> w32 list \<Rightarrow> sha_state" where
  "sha_compress s block =
     (case s of (a, b, c, d, e, f, g, h) \<Rightarrow>
      case foldl sha_round s (zip sha_k (schedule block)) of (a', b', c', d', e', f', g', h') \<Rightarrow>
        (a + a', b + b', c + c', d + d', e + e', f + f', g + g', h + h'))"

definition be_bytes :: "nat \<Rightarrow> nat \<Rightarrow> string" where
  "be_bytes n x = map (\<lambda>i. char_of (x div 256 ^ (n - 1 - i))) [0..<n]"

definition sha_pad :: "string \<Rightarrow> string" where
  "sha_pad s = s @ [CHR 0x80] @ replicate ((119 - length s mod 64) mod 64) (char_of (0::nat)) @ be_bytes 8 (8 * length s)"

fun be_words :: "string \<Rightarrow> w32 list" where
  "be_words (a # b # c # d # r) = of_nat (((byte a * 256 + byte b) * 256 + byte c) * 256 + byte d) # be_words r"
| "be_words _ = []"

function sha_blocks :: "w32 list \<Rightarrow> w32 list list" where
  "sha_blocks ws = (if ws = [] then [] else take 16 ws # sha_blocks (drop 16 ws))"
  by pat_completeness auto
termination
  by (relation "measure length") auto

declare sha_blocks.simps [simp del]

definition sha256 :: "string \<Rightarrow> string" where
  "sha256 s =
     (case foldl sha_compress sha_init (sha_blocks (be_words (sha_pad s))) of (a, b, c, d, e, f, g, h) \<Rightarrow>
        concat (map (\<lambda>w. be_bytes 4 (unat w)) [a, b, c, d, e, f, g, h]))"

lemma length_be_bytes [simp]: "length (be_bytes n x) = n"
  by (simp add: be_bytes_def)

lemma length_sha256 [simp]: "length (sha256 s) = 32"
  by (simp add: sha256_def split: prod.split)

lemma byte_div: "byte c div 16 < 16" "byte c mod 16 < 16"
  using nat_of_char_less_256 [of c] by (simp_all add: less_mult_imp_div_less)

subsection \<open>Hexadecimal text\<close>

definition hex_encode :: "string \<Rightarrow> string" where
  "hex_encode s = concat (map (\<lambda>c. [hex_char (byte c div 16), hex_char (byte c mod 16)]) s)"

lemma length_hex_encode [simp]: "length (hex_encode s) = 2 * length s"
  by (induction s) (simp_all add: hex_encode_def)

lemma hex_encode_chars: "c \<in> set (hex_encode s) \<Longrightarrow> is_hex c"
proof -
  show "c \<in> set (hex_encode s) \<Longrightarrow> is_hex c" using hex_char_props(1) byte_div by (auto simp: hex_encode_def)
qed

lemma hex_encode_inj: "hex_encode s = hex_encode t \<Longrightarrow> s = t"
proof (induction s arbitrary: t)
  case Nil
  then show ?case by (cases t) (simp_all add: hex_encode_def)
next
  case (Cons c s)
  then obtain d u where t: "t = d # u" by (cases t) (simp_all add: hex_encode_def)
  note b = byte_div
  have "hex_char (byte c div 16) = hex_char (byte d div 16)" "hex_char (byte c mod 16) = hex_char (byte d mod 16)"
    and r: "hex_encode s = hex_encode u"
    using Cons.prems t by (simp_all add: hex_encode_def)
  then have "byte c div 16 = byte d div 16" "byte c mod 16 = byte d mod 16"
    using hex_char_props(2) [OF b(1)] hex_char_props(2) [OF b(2)] by metis+
  then have "byte c = byte d" by (metis div_mult_mod_eq)
  then have "c = d" by simp
  then show ?case using Cons.IH [OF r] t by simp
qed

subsection \<open>Base64\<close>

definition std_alphabet :: string where
  "std_alphabet = ''ABCDEFGHIJKLMNOPQRSTUVWXYZabcdefghijklmnopqrstuvwxyz0123456789+/''"

definition url_alphabet :: string where
  "url_alphabet = ''ABCDEFGHIJKLMNOPQRSTUVWXYZabcdefghijklmnopqrstuvwxyz0123456789-_''"

text \<open>\<open>pad\<close> says whether a last short group is filled up with \<open>=\<close>.\<close>

fun b64_encode :: "string \<Rightarrow> bool \<Rightarrow> string \<Rightarrow> string" where
  "b64_encode al padded (a # b # c # r) =
     (let n = (byte a * 256 + byte b) * 256 + byte c
      in [al ! (n div 262144), al ! (n div 4096 mod 64), al ! (n div 64 mod 64), al ! (n mod 64)] @ b64_encode al padded r)"
| "b64_encode al padded [a, b] =
     (let n = (byte a * 256 + byte b) * 4
      in [al ! (n div 4096), al ! (n div 64 mod 64), al ! (n mod 64)] @ (if padded then ''='' else []))"
| "b64_encode al padded [a] =
     (let n = byte a * 16 in [al ! (n div 64), al ! (n mod 64)] @ (if padded then ''=='' else []))"
| "b64_encode al padded [] = []"

definition b64_std :: "string \<Rightarrow> string" where
  "b64_std s = b64_encode std_alphabet True s"

definition b64_rawurl :: "string \<Rightarrow> string" where
  "b64_rawurl s = b64_encode url_alphabet False s"

fun index_of :: "char \<Rightarrow> string \<Rightarrow> nat option" where
  "index_of c [] = None"
| "index_of c (d # s) = (if c = d then Some 0 else map_option Suc (index_of c s))"

text \<open>
  \<open>DecodeString\<close> of the standard encoding: line breaks are skipped anywhere, padding is
  required, and the bits a short last group does not use are ignored.
\<close>

fun b64_groups :: "string \<Rightarrow> string option" where
  "b64_groups [] = Some []"
| "b64_groups (a # b # c # d # r) =
     (case (index_of a std_alphabet, index_of b std_alphabet) of
        (Some x, Some y) \<Rightarrow>
          if c = CHR ''='' then
            (if d = CHR ''='' \<and> r = [] then Some [char_of ((x * 64 + y) div 16)] else None)
          else
            (case index_of c std_alphabet of
               None \<Rightarrow> None
             | Some z \<Rightarrow>
                 if d = CHR ''='' then
                   (if r = [] then Some (let n = (x * 64 + y) * 64 + z in [char_of (n div 1024), char_of (n div 4)]) else None)
                 else
                   (case index_of d std_alphabet of
                      None \<Rightarrow> None
                    | Some u \<Rightarrow>
                        (let n = ((x * 64 + y) * 64 + z) * 64 + u
                         in map_option (\<lambda>t. [char_of (n div 65536), char_of (n div 256), char_of n] @ t) (b64_groups r))))
      | _ \<Rightarrow> None)"
| "b64_groups _ = None"

definition b64_decode :: "string \<Rightarrow> string option" where
  "b64_decode s = b64_groups (filter (\<lambda>c. c \<noteq> CHR 0x0A \<and> c \<noteq> CHR 0x0D) s)"

lemma alphabets: "length std_alphabet = 64" "distinct std_alphabet" "length url_alphabet = 64" "distinct url_alphabet"
  "CHR ''='' \<notin> set std_alphabet" "CHR 0x0A \<notin> set std_alphabet" "CHR 0x0D \<notin> set std_alphabet"
  by (simp_all add: std_alphabet_def url_alphabet_def)

lemma index_of_nth: "distinct al \<Longrightarrow> i < length al \<Longrightarrow> index_of (al ! i) al = Some i"
proof (induction al arbitrary: i)
  case (Cons x al)
  then show ?case by (cases i) (auto simp: nth_mem)
qed simp

lemma std_index: "i < 64 \<Longrightarrow> index_of (std_alphabet ! i) std_alphabet = Some i"
  by (rule index_of_nth) (simp_all add: alphabets)

lemma std_member: "i < 64 \<Longrightarrow> std_alphabet ! i \<in> set std_alphabet"
  by (rule nth_mem) (simp add: alphabets)

lemma std_not_special:
  assumes "i < 64"
  shows "std_alphabet ! i \<noteq> CHR ''=''" "std_alphabet ! i \<noteq> CHR 0x0A" "std_alphabet ! i \<noteq> CHR 0x0D"
  using std_member [OF assms] alphabets(5-7) by metis+

text \<open>The digits of a number to the base 64 give the number back.\<close>

lemma digits64: "(n div 64) * 64 + n mod 64 = n" for n :: nat
  by simp

lemma sextets:
  fixes n :: nat
  shows "((n div 262144 * 64 + n div 4096 mod 64) * 64 + n div 64 mod 64) * 64 + n mod 64 = n"
    "(n div 4096 * 64 + n div 64 mod 64) * 64 + n mod 64 = n"
proof -
  have d: "n div 4096 = n div 64 div 64" "n div 262144 = n div 64 div 64 div 64" by (simp_all add: div_mult2_eq)
  show "((n div 262144 * 64 + n div 4096 mod 64) * 64 + n div 64 mod 64) * 64 + n mod 64 = n"
    "(n div 4096 * 64 + n div 64 mod 64) * 64 + n mod 64 = n"
    unfolding d by (simp_all only: digits64)
qed

lemma mod64 [simp]: "n mod 64 < (64 :: nat)"
  by simp

text \<open>Decoding one group.\<close>

lemma groups_step:
  "x < 64 \<Longrightarrow> y < 64 \<Longrightarrow> z < 64 \<Longrightarrow> u < 64 \<Longrightarrow>
    b64_groups (std_alphabet ! x # std_alphabet ! y # std_alphabet ! z # std_alphabet ! u # r) =
      map_option (\<lambda>t. [char_of ((((x * 64 + y) * 64 + z) * 64 + u) div 65536), char_of ((((x * 64 + y) * 64 + z) * 64 + u) div 256),
        char_of (((x * 64 + y) * 64 + z) * 64 + u)] @ t) (b64_groups r)"
  "x < 64 \<Longrightarrow> y < 64 \<Longrightarrow> z < 64 \<Longrightarrow> b64_groups [std_alphabet ! x, std_alphabet ! y, std_alphabet ! z, CHR ''=''] =
      Some [char_of (((x * 64 + y) * 64 + z) div 1024), char_of (((x * 64 + y) * 64 + z) div 4)]"
  "x < 64 \<Longrightarrow> y < 64 \<Longrightarrow> b64_groups [std_alphabet ! x, std_alphabet ! y, CHR ''='', CHR ''=''] = Some [char_of ((x * 64 + y) div 16)]"
  by (simp_all only: b64_groups.simps std_index std_not_special option.case prod.case Let_def if_False if_True simp_thms)

lemma decode_group3:
  assumes "n < 64 * 262144"
  shows "b64_groups (std_alphabet ! (n div 262144) # std_alphabet ! (n div 4096 mod 64) #
      std_alphabet ! (n div 64 mod 64) # std_alphabet ! (n mod 64) # r) =
    map_option (\<lambda>t. [char_of (n div 65536), char_of (n div 256), char_of n] @ t) (b64_groups r)"
  using groups_step(1) [OF less_mult_imp_div_less [OF assms] mod64 mod64 mod64, of "n div 4096" "n div 64" n r]
  by (simp only: sextets(1))

lemma decode_group2:
  assumes "n < 64 * 4096"
  shows "b64_groups [std_alphabet ! (n div 4096), std_alphabet ! (n div 64 mod 64), std_alphabet ! (n mod 64), CHR ''=''] =
    Some [char_of (n div 1024), char_of (n div 4)]"
  using groups_step(2) [OF less_mult_imp_div_less [OF assms] mod64 mod64, of "n div 64" n] by (simp only: sextets(2))

lemma decode_group1:
  assumes "n < 64 * 64"
  shows "b64_groups [std_alphabet ! (n div 64), std_alphabet ! (n mod 64), CHR ''='', CHR ''=''] = Some [char_of (n div 16)]"
  using groups_step(3) [OF less_mult_imp_div_less [OF assms] mod64, of n] by (simp only: digits64)

lemma group_bound:
  "(byte a * 256 + byte b) * 256 + byte c < 64 * 262144" "(byte a * 256 + byte b) * 4 < 64 * 4096"
  "byte a * 16 < 64 * 64"
proof -
  have "byte x \<le> 255" for x :: char using nat_of_char_less_256 [of x] by linarith
  from this [of a] this [of b] this [of c]
  show "(byte a * 256 + byte b) * 256 + byte c < 64 * 262144" "(byte a * 256 + byte b) * 4 < 64 * 4096"
    "byte a * 16 < 64 * 64"
    by simp_all
qed

lemma char_of_group:
  "char_of (((byte a * 256 + byte b) * 256 + byte c) div 65536) = a"
  "char_of (((byte a * 256 + byte b) * 256 + byte c) div 256) = b"
  "char_of ((byte a * 256 + byte b) * 256 + byte c) = c"
  "char_of (((byte a * 256 + byte b) * 4) div 1024) = a"
  "char_of (((byte a * 256 + byte b) * 4) div 4) = b"
  "char_of ((byte a * 16) div 16) = a"
proof -
  have low: "char_of (x * 256 + byte y) = y" for x y
  proof -
    have "char_of (x * 256 + byte y) = char_of ((x * 256 + byte y) mod 256)" by (simp only: char_of_mod_256)
    also have "(x * 256 + byte y) mod 256 = byte y" by simp
    finally show ?thesis by simp
  qed
  have cut: "(x * 256 + byte y) div 256 = x" for x y by simp
  show "char_of ((byte a * 256 + byte b) * 256 + byte c) = c" by (rule low)
  have "((byte a * 256 + byte b) * 256 + byte c) div 256 = byte a * 256 + byte b" by (rule cut)
  then show "char_of (((byte a * 256 + byte b) * 256 + byte c) div 256) = b" by (simp only: low)
  have "((byte a * 256 + byte b) * 256 + byte c) div 65536 = ((byte a * 256 + byte b) * 256 + byte c) div 256 div 256"
    by (simp add: div_mult2_eq)
  then show "char_of (((byte a * 256 + byte b) * 256 + byte c) div 65536) = a" by (simp only: cut) simp
  have "((byte a * 256 + byte b) * 4) div 1024 = ((byte a * 256 + byte b) * 4) div 4 div 256"
    by (simp only: div_mult2_eq [symmetric]) simp
  then show "char_of (((byte a * 256 + byte b) * 4) div 1024) = a" by (simp only: cut nonzero_mult_div_cancel_right) simp
  have "((byte a * 256 + byte b) * 4) div 4 = byte a * 256 + byte b" by simp
  then show "char_of (((byte a * 256 + byte b) * 4) div 4) = b" by (simp only: low)
  show "char_of ((byte a * 16) div 16) = a" by simp
qed

lemma b64_groups_encode: "b64_groups (b64_encode std_alphabet True s) = Some s"
proof (induction "std_alphabet" True s rule: b64_encode.induct)
  case (1 a b c r)
  then show ?case by (simp only: b64_encode.simps Let_def append.simps decode_group3 [OF group_bound(1)] char_of_group) simp
next
  case (2 a b)
  show ?case
    by (simp only: b64_encode.simps Let_def append.simps if_True decode_group2 [OF group_bound(2)] char_of_group)
next
  case (3 a)
  show ?case
    by (simp only: b64_encode.simps Let_def append.simps if_True decode_group1 [OF group_bound(3)] char_of_group)
qed simp

lemma pick:
  assumes "length al = 64"
  shows "al ! (n mod 64) \<in> set al" "n < 64 * k \<Longrightarrow> al ! (n div k) \<in> set al"
  using assms less_mult_imp_div_less [of n 64 k] by (auto intro!: nth_mem)

lemma b64_encode_set:
  "length al = 64 \<Longrightarrow> set (b64_encode al padded s) \<subseteq> set al \<union> (if padded then {CHR ''=''} else {})"
proof (induction al padded s rule: b64_encode.induct)
  case (1 al padded a b c r)
  then show ?case
    using pick [OF 1(2)] group_bound(1) [of a b c]
    by (simp only: b64_encode.simps Let_def append.simps set_simps insert_subset Un_iff simp_thms)
next
  case (2 al padded a b)
  then show ?case
    using pick [OF 2] group_bound(2) [of a b]
    by (cases padded) (simp_all only: b64_encode.simps Let_def append.simps set_simps insert_subset Un_iff simp_thms if_True if_False insert_iff empty_subsetI)
next
  case (3 al padded a)
  then show ?case
    using pick [OF 3] group_bound(3) [of a]
    by (cases padded) (simp_all only: b64_encode.simps Let_def append.simps set_simps insert_subset Un_iff simp_thms if_True if_False insert_iff empty_subsetI)
qed simp

theorem b64_decode_encode: "b64_decode (b64_std s) = Some s"
proof -
  have "set (b64_std s) \<subseteq> insert (CHR ''='') (set std_alphabet)"
    using b64_encode_set [of std_alphabet True s] by (simp add: b64_std_def alphabets)
  then have "filter (\<lambda>c. c \<noteq> CHR 0x0A \<and> c \<noteq> CHR 0x0D) (b64_std s) = b64_std s"
    using alphabets(6,7) by (intro filter_True) auto
  then show ?thesis by (simp add: b64_decode_def b64_std_def b64_groups_encode)
qed

lemma length_rawurl: "length (b64_rawurl s) = (4 * length s + 2) div 3"
proof -
  have "length (b64_encode al False s) = (4 * length s + 2) div 3" for al
    by (induction al False s rule: b64_encode.induct) (simp_all add: Let_def)
  then show ?thesis by (simp add: b64_rawurl_def)
qed

text \<open>Different bytes have different encodings.\<close>

lemma nth_cancel: "distinct al \<Longrightarrow> i < length al \<Longrightarrow> j < length al \<Longrightarrow> al ! i = al ! j \<longleftrightarrow> i = j"
  by (rule nth_eq_iff_index_eq)

lemma nth_eqD: "distinct al \<Longrightarrow> length al = 64 \<Longrightarrow> al ! i = al ! j \<Longrightarrow> i < 64 \<Longrightarrow> j < 64 \<Longrightarrow> i = j"
  using nth_cancel by metis

lemma sextets_inj:
  assumes "distinct al" "length al = 64" "n < 64 * 262144" "m < 64 * 262144"
    and "al ! (n div 262144) = al ! (m div 262144)" "al ! (n div 4096 mod 64) = al ! (m div 4096 mod 64)"
    and "al ! (n div 64 mod 64) = al ! (m div 64 mod 64)" "al ! (n mod 64) = al ! (m mod 64)"
  shows "n = m"
proof -
  note D = nth_eqD [OF assms(1,2)]
  have "n div 262144 = m div 262144"
    by (rule D [OF assms(5) less_mult_imp_div_less [OF assms(3)] less_mult_imp_div_less [OF assms(4)]])
  moreover have "n div 4096 mod 64 = m div 4096 mod 64" by (rule D [OF assms(6) mod64 mod64])
  moreover have "n div 64 mod 64 = m div 64 mod 64" by (rule D [OF assms(7) mod64 mod64])
  moreover have "n mod 64 = m mod 64" by (rule D [OF assms(8) mod64 mod64])
  ultimately have "((m div 262144 * 64 + m div 4096 mod 64) * 64 + m div 64 mod 64) * 64 + m mod 64 = n"
    using sextets(1) [of n] by (simp only:)
  then show ?thesis by (simp only: sextets(1))
qed

lemma group_inj:
  assumes "distinct al" "length al = 64"
    and "al ! (n div 262144) = al ! (m div 262144)" "al ! (n div 4096 mod 64) = al ! (m div 4096 mod 64)"
    and "al ! (n div 64 mod 64) = al ! (m div 64 mod 64)" "al ! (n mod 64) = al ! (m mod 64)"
    and "n = (byte a * 256 + byte b) * 256 + byte c" "m = (byte a' * 256 + byte b') * 256 + byte c'"
  shows "a = a' \<and> b = b' \<and> c = c'"
proof -
  have "n = m" using sextets_inj [OF assms(1,2) _ _ assms(3-6)] group_bound(1) assms(7,8) by blast
  then show ?thesis using assms(7,8) char_of_group(1-3) by metis
qed

lemma group2_inj:
  assumes "distinct al" "length al = 64"
    and "al ! (n div 4096) = al ! (m div 4096)" "al ! (n div 64 mod 64) = al ! (m div 64 mod 64)" "al ! (n mod 64) = al ! (m mod 64)"
    and "n = (byte a * 256 + byte b) * 4" "m = (byte a' * 256 + byte b') * 4"
  shows "a = a' \<and> b = b'"
proof -
  note D = nth_eqD [OF assms(1,2)]
  have "n < 64 * 4096" "m < 64 * 4096" unfolding assms(6,7) by (rule group_bound(2))+
  then have "n div 4096 = m div 4096" by (intro D [OF assms(3)] less_mult_imp_div_less)
  moreover have "n div 64 mod 64 = m div 64 mod 64" by (rule D [OF assms(4) mod64 mod64])
  moreover have "n mod 64 = m mod 64" by (rule D [OF assms(5) mod64 mod64])
  ultimately have "(m div 4096 * 64 + m div 64 mod 64) * 64 + m mod 64 = n" using sextets(2) [of n] by (simp only:)
  then have "n = m" by (simp only: sextets(2))
  then show ?thesis using assms(6,7) char_of_group(4,5) by metis
qed

lemma group1_inj:
  assumes "distinct al" "length al = 64" "al ! (n div 64) = al ! (m div 64)" "al ! (n mod 64) = al ! (m mod 64)"
    and "n = byte a * 16" "m = byte a' * 16"
  shows "a = a'"
proof -
  note D = nth_eqD [OF assms(1,2)]
  have "n < 64 * 64" "m < 64 * 64" unfolding assms(5,6) by (rule group_bound(3))+
  then have "n div 64 = m div 64" by (intro D [OF assms(3)] less_mult_imp_div_less)
  moreover have "n mod 64 = m mod 64" by (rule D [OF assms(4) mod64 mod64])
  ultimately have "m div 64 * 64 + m mod 64 = n" using digits64 [of n] by (simp only:)
  then have "n = m" by (simp only: digits64)
  then show ?thesis using assms(5,6) char_of_group(6) by metis
qed

lemma group_shapes: "s = [] \<or> (\<exists>a. s = [a]) \<or> (\<exists>a b. s = [a, b]) \<or> (\<exists>a b c r. s = a # b # c # r)"
  by (cases s; cases "tl s"; cases "tl (tl s)") auto

lemma b64_encode_inj:
  assumes "distinct al" "length al = 64" "length s = length t" "b64_encode al padded s = b64_encode al padded t"
  shows "s = t"
  using assms(3,4)
proof (induction s arbitrary: t rule: length_induct)
  case (1 s)
  consider "s = []" | a where "s = [a]" | a b where "s = [a, b]" | a b c r where "s = a # b # c # r"
    using group_shapes [of s] by blast
  then show ?case
  proof cases
    case 2
    then obtain a' where "t = [a']" using "1.prems"(1) by (cases t) auto
    then show ?thesis using 2 "1.prems"(2) group1_inj [OF assms(1,2) _ _ refl refl, of a a'] by (simp add: Let_def)
  next
    case 3
    then obtain a' b' where "t = [a', b']" using "1.prems"(1) by (cases t rule: remdups_adj.cases) auto
    then show ?thesis using 3 "1.prems"(2) group2_inj [OF assms(1,2) _ _ _ refl refl, of a b a' b'] by (simp add: Let_def)
  next
    case 4
    then obtain a' b' u where u: "t = a' # b' # u" using "1.prems"(1) by (cases t rule: remdups_adj.cases) auto
    then obtain c' r' where "u = c' # r'" using 4 "1.prems"(1) by (cases u) auto
    with u have t: "t = a' # b' # c' # r'" by simp
    have "a = a' \<and> b = b' \<and> c = c'" "b64_encode al padded r = b64_encode al padded r'"
      using 4 t "1.prems"(2) group_inj [OF assms(1,2) _ _ _ _ refl refl, of a b c a' b' c'] by (simp_all add: Let_def)
    moreover have "r = r'" using "1.IH" 4 t "1.prems"(1) calculation(2) by simp
    ultimately show ?thesis using 4 t by simp
  qed (use "1.prems" in simp)
qed

lemma b64_rawurl_inj: "length s = length t \<Longrightarrow> b64_rawurl s = b64_rawurl t \<Longrightarrow> s = t"
  using b64_encode_inj alphabets(3,4) by (metis b64_rawurl_def)

lemma b64_rawurl_set: "set (b64_rawurl s) \<subseteq> set url_alphabet"
  using b64_encode_set [of url_alphabet False s] by (simp add: b64_rawurl_def alphabets)

end
