(* ===== verification/Secret.thy ===== *)
theory Secret
  imports Store_Interface Go_Crypto
begin

text \<open>
  The package \<open>secret\<close> (\<open>secret.go\<close>): the interface \<open>Store\<close>, its file-backed implementation over
  the package \<open>store\<close>, and the one over the macOS keychain.  The program \<open>security\<close> that the second
  one runs is a parameter: any function of its arguments, its input and some state.
\<close>

subsection \<open>Keys\<close>

record secret_key =
  sk_service :: string
  sk_account :: string

definition validate_key :: "secret_key \<Rightarrow> goerr option" where
  "validate_key k =
     (if trim_space (sk_service k) = [] \<or> trim_space (sk_account k) = [] then Some (Sentinel ErrInvalidKey)
      else if contains_any (sk_service k) [CHR 0x00, CHR 0x0D, CHR 0x0A] \<or> contains_any (sk_account k) [CHR 0x00, CHR 0x0D, CHR 0x0A]
      then Some (Sentinel ErrInvalidKey) else None)"

definition valid_key :: "secret_key \<Rightarrow> bool" where
  "valid_key k = (validate_key k = None)"

subsection \<open>The file store\<close>

definition key_message :: "secret_key \<Rightarrow> string" where
  "key_message k = sk_service k @ [CHR 0x00] @ sk_account k"

definition secret_path :: "string \<Rightarrow> secret_key \<Rightarrow> goerr + string" where
  "secret_path dir k =
     (case validate_key k of
        Some e \<Rightarrow> Inl e
      | None \<Rightarrow>
          if trim_space dir = [] then Inl (MsgErr ''file secret directory is required'')
          else Inr (join_path [dir, hex_encode (sha256 (key_message k)) @ ''.secret'']))"

text \<open>\<open>ctx\<close> is what \<open>ctx.Err()\<close> reports when the operation starts.\<close>

definition file_put :: "string \<Rightarrow> goerr option \<Rightarrow> secret_key \<Rightarrow> string \<Rightarrow> unit io" where
  "file_put dir ctx k value w =
     (case ctx of
        Some e \<Rightarrow> (Inl e, w)
      | None \<Rightarrow>
     (case secret_path dir k of
        Inl e \<Rightarrow> (Inl e, w)
      | Inr path \<Rightarrow>
     (case write_secure_at dir (path_base path) value w of
        (Inl e, w1) \<Rightarrow> (Inl (WrapErr ''put file secret: '' e), w1)
      | (Inr _, w1) \<Rightarrow> (Inr (), w1))))"

definition file_get :: "string \<Rightarrow> goerr option \<Rightarrow> secret_key \<Rightarrow> string io" where
  "file_get dir ctx k w =
     (case ctx of
        Some e \<Rightarrow> (Inl e, w)
      | None \<Rightarrow>
     (case secret_path dir k of
        Inl e \<Rightarrow> (Inl e, w)
      | Inr path \<Rightarrow>
     (case read_secure_at dir (path_base path) w of
        (Inl e, w1) \<Rightarrow>
          if is_not_exist e then (Inl (Sentinel ErrNotFound), w1) else (Inl (WrapErr ''get file secret: '' e), w1)
      | (Inr value, w1) \<Rightarrow> (Inr value, w1))))"

definition file_delete :: "string \<Rightarrow> goerr option \<Rightarrow> secret_key \<Rightarrow> unit io" where
  "file_delete dir ctx k w =
     (case ctx of
        Some e \<Rightarrow> (Inl e, w)
      | None \<Rightarrow>
     (case secret_path dir k of
        Inl e \<Rightarrow> (Inl e, w)
      | Inr path \<Rightarrow>
     (case remove_secure_at dir (path_base path) w of
        (Inl e, w1) \<Rightarrow> if is_not_exist e then (Inr (), w1) else (Inl (WrapErr ''delete file secret: '' e), w1)
      | (Inr _, w1) \<Rightarrow> (Inr (), w1))))"

subsection \<open>The keychain store\<close>

text \<open>\<open>LegacyEncoding\<close> is an integer type with three constants; other values can occur.\<close>

definition LegacyRejectAmbiguous :: int where "LegacyRejectAmbiguous = 0"
definition LegacyPlain :: int where "LegacyPlain = 1"
definition LegacyBase64 :: int where "LegacyBase64 = 2"

text \<open>A command that did not end with status 0: an \<open>*exec.ExitError\<close> or another error.\<close>

datatype exec_error = ExitErr int | RunErr goerr

type_synonym 's command = "string \<Rightarrow> string list \<Rightarrow> string option \<Rightarrow> 's \<Rightarrow> (exec_error + string) \<times> 's"

record 's keychain =
  kc_policy :: int
  kc_executable :: string
  kc_command :: "'s command option"

text \<open>What the code asks of its host: the operating system's name and \<open>exec.CommandContext\<close>.\<close>

record 's host =
  host_os :: string
  host_exec :: "'s command"

fun exec_goerr :: "exec_error \<Rightarrow> goerr" where
  "exec_goerr (ExitErr n) = MsgErr (''exit status '' @ int_text n)"
| "exec_goerr (RunErr e) = e"

definition keychain_run :: "'s host \<Rightarrow> 's keychain \<Rightarrow> string option \<Rightarrow> string list \<Rightarrow> 's \<Rightarrow> (exec_error + string) \<times> 's" where
  "keychain_run h kc input args s =
     (let exe = trim_space (kc_executable kc)
      in if exe = [] \<and> host_os h \<noteq> ''darwin'' then (Inl (RunErr (Sentinel ErrUnsupported)), s)
         else (case kc_command kc of None \<Rightarrow> host_exec h | Some c \<Rightarrow> c) (if exe = [] then ''/usr/bin/security'' else exe) args input s)"

definition is_not_found_exit :: "exec_error \<Rightarrow> bool" where
  "is_not_found_exit e = (case e of ExitErr n \<Rightarrow> n = 44 | RunErr _ \<Rightarrow> False)"

definition encoded_prefix :: string where
  "encoded_prefix = ''b64:''"

definition encoded_kind :: string where
  "encoded_kind = ''credkit.base64.v1''"

definition has_encoded_kind :: "string \<Rightarrow> bool" where
  "has_encoded_kind metadata =
     list_ex (\<lambda>line. trim_space line = [CHR 0x22] @ ''desc'' @ [CHR 0x22] @ ''<blob>='' @ [CHR 0x22] @ encoded_kind @ [CHR 0x22])
       (split_on CHR 0x0A metadata)"

definition replace_char :: "char \<Rightarrow> string \<Rightarrow> string \<Rightarrow> string" where
  "replace_char c by s = concat (map (\<lambda>x. if x = c then by else [x]) s)"

definition quote_arg :: "string \<Rightarrow> string" where
  "quote_arg v =
     [CHR 0x22] @ replace_char CHR 0x22 [CHR 0x5C, CHR 0x22] (replace_char CHR 0x5C [CHR 0x5C, CHR 0x5C] v) @ [CHR 0x22]"

definition policy_ok :: "'s keychain \<Rightarrow> bool" where
  "policy_ok kc = (\<not> (kc_policy kc < LegacyRejectAmbiguous \<or> kc_policy kc > LegacyBase64))"

definition find_args :: "secret_key \<Rightarrow> string list" where
  "find_args k = [''find-generic-password'', ''-a'', sk_account k, ''-s'', sk_service k]"

text \<open>The stored bytes, read between two inspections of the item's metadata.\<close>

definition decode_item :: "int \<Rightarrow> bool \<Rightarrow> string \<Rightarrow> goerr + string" where
  "decode_item policy marked raw =
     (let value = trim_suffix raw [CHR 0x0A];
          (rest, prefixed) = cut_prefix value encoded_prefix
      in if marked \<or> prefixed \<and> policy = LegacyBase64 then
           (if \<not> prefixed then Inl (MsgErr ''get keychain secret: encoded item has no encoding prefix'')
            else case b64_decode rest of
              None \<Rightarrow> Inl (WrapErr ''get keychain secret: stored value is corrupt: '' (MsgErr ''base64''))
            | Some v \<Rightarrow> Inr v)
         else if prefixed \<and> policy = LegacyRejectAmbiguous then Inl (Sentinel ErrAmbiguousEncoding)
         else Inr value)"

definition keychain_error :: "string \<Rightarrow> exec_error \<Rightarrow> goerr" where
  "keychain_error prefix e = (if is_not_found_exit e then Sentinel ErrNotFound else WrapErr prefix (exec_goerr e))"

definition keychain_get :: "'s host \<Rightarrow> 's keychain \<Rightarrow> secret_key \<Rightarrow> 's \<Rightarrow> (goerr + string) \<times> 's" where
  "keychain_get h kc k s =
     (case validate_key k of
        Some e \<Rightarrow> (Inl e, s)
      | None \<Rightarrow>
          if \<not> policy_ok kc then (Inl (MsgErr ''invalid legacy encoding policy''), s)
          else
     (case keychain_run h kc None (find_args k) s of
        (Inl e, s1) \<Rightarrow> (Inl (keychain_error ''get keychain metadata: '' e), s1)
      | (Inr metadata, s1) \<Rightarrow>
     (case keychain_run h kc None (find_args k @ [''-w'']) s1 of
        (Inl e, s2) \<Rightarrow> (Inl (keychain_error ''get keychain secret: '' e), s2)
      | (Inr raw, s2) \<Rightarrow>
     (case keychain_run h kc None (find_args k) s2 of
        (Inl e, s3) \<Rightarrow> (Inl (keychain_error ''recheck keychain metadata: '' e), s3)
      | (Inr after, s3) \<Rightarrow>
          if has_encoded_kind after \<noteq> has_encoded_kind metadata
          then (Inl (MsgErr ''get keychain secret: encoding changed during read''), s3)
          else (decode_item (kc_policy kc) (has_encoded_kind metadata) raw, s3)))))"

definition put_script :: "secret_key \<Rightarrow> string \<Rightarrow> string" where
  "put_script k value =
     ''add-generic-password -a '' @ quote_arg (sk_account k) @ '' -s '' @ quote_arg (sk_service k) @
     '' -D '' @ encoded_kind @ '' -U -w '' @ encoded_prefix @ b64_std value @ [CHR 0x0A]"

definition keychain_put :: "'s host \<Rightarrow> 's keychain \<Rightarrow> secret_key \<Rightarrow> string \<Rightarrow> 's \<Rightarrow> (goerr + unit) \<times> 's" where
  "keychain_put h kc k value s =
     (if \<not> policy_ok kc then (Inl (MsgErr ''invalid legacy encoding policy''), s)
      else case validate_key k of
        Some e \<Rightarrow> (Inl e, s)
      | None \<Rightarrow>
     (case keychain_run h kc (Some (put_script k value)) [''-i''] s of
        (Inl e, s1) \<Rightarrow> (Inl (WrapErr ''put keychain secret: '' (exec_goerr e)), s1)
      | (Inr _, s1) \<Rightarrow>
          (case keychain_get h kc k s1 of
             (got, s2) \<Rightarrow>
               if got \<noteq> Inr value then (Inl (MsgErr ''put keychain secret: write could not be verified''), s2)
               else (Inr (), s2))))"

definition keychain_delete :: "'s host \<Rightarrow> 's keychain \<Rightarrow> secret_key \<Rightarrow> 's \<Rightarrow> (goerr + unit) \<times> 's" where
  "keychain_delete h kc k s =
     (case validate_key k of
        Some e \<Rightarrow> (Inl e, s)
      | None \<Rightarrow>
     (case keychain_run h kc None [''delete-generic-password'', ''-a'', sk_account k, ''-s'', sk_service k] s of
        (Inl e, s1) \<Rightarrow>
          if is_not_found_exit e then (Inr (), s1) else (Inl (WrapErr ''delete keychain secret: '' (exec_goerr e)), s1)
      | (Inr _, s1) \<Rightarrow> (Inr (), s1)))"

subsection \<open>Keys and their files\<close>

lemma valid_keyD:
  assumes "valid_key k"
  shows "CHR 0x00 \<notin> set (sk_service k)" "CHR 0x00 \<notin> set (sk_account k)"
    "CHR 0x0A \<notin> set (sk_service k)" "CHR 0x0A \<notin> set (sk_account k)"
    "CHR 0x0D \<notin> set (sk_service k)" "CHR 0x0D \<notin> set (sk_account k)"
  using assms by (auto simp: valid_key_def validate_key_def contains_any_def list_ex_iff split: if_splits)

lemma validate_key_cases:
  "valid_key k \<Longrightarrow> validate_key k = None" "\<not> valid_key k \<Longrightarrow> validate_key k = Some (Sentinel ErrInvalidKey)"
  by (auto simp: valid_key_def validate_key_def split: if_splits)

lemma append_sep_eq: "c \<notin> set a \<Longrightarrow> c \<notin> set b \<Longrightarrow> a @ c # s = b @ c # t \<longleftrightarrow> a = b \<and> s = t"
proof (induction a arbitrary: b)
  case Nil
  then show ?case by (cases b) auto
next
  case (Cons x a)
  then show ?case by (cases b) auto
qed

lemma key_message_inj: "valid_key k \<Longrightarrow> valid_key l \<Longrightarrow> key_message k = key_message l \<longleftrightarrow> k = l"
  by (auto simp: key_message_def append_sep_eq valid_keyD intro!: secret_key.equality)

definition secret_file :: "secret_key \<Rightarrow> string" where
  "secret_file k = hex_encode (sha256 (key_message k)) @ ''.secret''"

lemma secret_file_eq: "secret_file k = secret_file l \<longleftrightarrow> sha256 (key_message k) = sha256 (key_message l)"
  using hex_encode_inj by (auto simp: secret_file_def)

lemma secret_file_fname: "fname (secret_file k)"
proof -
  have no: "CHR ''/'' \<notin> set (hex_encode s)" "CHR ''.'' \<notin> set (hex_encode s)" for s
    using hex_encode_chars by (force simp: is_hex_def is_digit_def)+
  obtain c cs where h: "hex_encode (sha256 (key_message k)) = c # cs"
    by (metis length_sha256 length_hex_encode list.size(3) mult_eq_0_iff zero_neq_numeral list.exhaust)
  then have "c \<noteq> CHR ''.''" "CHR ''/'' \<notin> set (c # cs)" using no [of "sha256 (key_message k)"] by auto
  then show ?thesis by (auto simp: secret_file_def h fname_def plain_name_def has_prefix_def temp_prefix_def)
qed

lemma secret_path_cases:
  assumes "trim_space dir \<noteq> []" "valid_key k"
  obtains path where "secret_path dir k = Inr path" "path_base path = secret_file k"
proof
  show "secret_path dir k = Inr (join_path [dir, secret_file k])"
    using assms by (simp add: secret_path_def validate_key_cases secret_file_def)
  show "path_base (join_path [dir, secret_file k]) = secret_file k"
    using secret_file_fname by (simp add: fname_def)
qed

definition secret_layout :: layout where
  "secret_layout = \<lparr>lay_file = (\<lambda>n. \<exists>k. valid_key k \<and> n = secret_file k),
     lay_dir = (\<lambda>_. False), lay_sub = (\<lambda>_. False), lay_strict = True\<rparr>"

lemma secret_layout_valid: "valid_layout secret_layout"
  using secret_file_fname by (auto simp: valid_layout_def secret_layout_def)

lemma secret_managed: "valid_key k \<Longrightarrow> managed secret_layout (secret_file k)"
  by (auto simp: managed_def secret_layout_def)

subsection \<open>The interface \<open>Store\<close>\<close>

text \<open>
  What a client of any \<open>Store\<close> may rely on: the secrets form a map over slots, and an answer without
  an error, or \<open>ErrNotFound\<close>, tells the truth about it.  Nothing is said of what a failed change leaves behind.
\<close>

locale truthful_store =
  fixes ok :: "'w \<Rightarrow> bool"
    and good :: "secret_key \<Rightarrow> bool"
    and slot :: "secret_key \<Rightarrow> 'k"
    and secrets :: "'w \<Rightarrow> 'k \<Rightarrow> string option"
    and put :: "secret_key \<Rightarrow> string \<Rightarrow> 'w \<Rightarrow> (goerr + unit) \<times> 'w"
    and get :: "secret_key \<Rightarrow> 'w \<Rightarrow> (goerr + string) \<times> 'w"
    and del :: "secret_key \<Rightarrow> 'w \<Rightarrow> (goerr + unit) \<times> 'w"
  assumes put_told: "ok w \<Longrightarrow> good k \<Longrightarrow> put k v w = (Inr (), w') \<Longrightarrow> ok w' \<and> secrets w' (slot k) = Some v"
    and get_told: "ok w \<Longrightarrow> good k \<Longrightarrow> get k w = (got, w') \<Longrightarrow> ok w' \<and> secrets w' = secrets w \<and>
      (case got of Inr v \<Rightarrow> secrets w (slot k) = Some v | Inl e \<Rightarrow> e = Sentinel ErrNotFound \<longrightarrow> secrets w (slot k) = None)"
    and del_told: "ok w \<Longrightarrow> good k \<Longrightarrow> del k w = (Inr (), w') \<Longrightarrow> ok w' \<and> secrets w' (slot k) = None"
begin

lemma get_after_put:
  assumes "ok w" "good k" "good l" "slot l = slot k" "put k v w = (Inr (), w1)" "get l w1 = (got, w2)"
  shows "case got of Inr x \<Rightarrow> x = v | Inl e \<Rightarrow> e \<noteq> Sentinel ErrNotFound"
proof -
  note p = put_told [OF assms(1,2,5)]
  from get_told [OF _ assms(3,6)] p assms(4) show ?thesis by (auto split: sum.splits)
qed

lemma get_after_del:
  assumes "ok w" "good k" "good l" "slot l = slot k" "del k w = (Inr (), w1)" "get l w1 = (got, w2)"
  shows "\<exists>e. got = Inl e"
proof -
  note p = del_told [OF assms(1,2,5)]
  from get_told [OF _ assms(3,6)] p assms(4) show ?thesis by (auto split: sum.splits)
qed

end

text \<open>
  A store whose failures are clean: a failed change changes nothing.  \<open>ok b\<close> is a world whose system calls may fail
  only when \<open>b\<close> holds.
\<close>

locale secret_store =
  fixes ok :: "bool \<Rightarrow> 'w \<Rightarrow> bool"
    and good :: "secret_key \<Rightarrow> bool"
    and slot :: "secret_key \<Rightarrow> 'k"
    and secrets :: "'w \<Rightarrow> 'k \<Rightarrow> string option"
    and put :: "secret_key \<Rightarrow> string \<Rightarrow> 'w \<Rightarrow> (goerr + unit) \<times> 'w"
    and get :: "secret_key \<Rightarrow> 'w \<Rightarrow> (goerr + string) \<times> 'w"
    and del :: "secret_key \<Rightarrow> 'w \<Rightarrow> (goerr + unit) \<times> 'w"
  assumes put_law: "ok b w \<Longrightarrow> good k \<Longrightarrow> put k v w = (res, w') \<Longrightarrow>
      ok b w' \<and> (case res of Inr _ \<Rightarrow> secrets w' = (secrets w)(slot k \<mapsto> v) | Inl _ \<Rightarrow> b \<and> secrets w' = secrets w)"
    and get_law: "ok b w \<Longrightarrow> good k \<Longrightarrow> get k w = (got, w') \<Longrightarrow>
      ok b w' \<and> secrets w' = secrets w \<and>
      (case got of Inr v \<Rightarrow> secrets w (slot k) = Some v
       | Inl e \<Rightarrow> if e = Sentinel ErrNotFound then secrets w (slot k) = None else b)"
    and del_law: "ok b w \<Longrightarrow> good k \<Longrightarrow> del k w = (res, w') \<Longrightarrow>
      ok b w' \<and> (case res of Inr _ \<Rightarrow> secrets w' = (secrets w)(slot k := None) | Inl _ \<Rightarrow> b \<and> secrets w' = secrets w)"
begin

text \<open>Without faults the answer of \<open>Get\<close> is determined by the map.\<close>

lemma get_quiet:
  assumes "ok False w" "good k" "get k w = (got, w')"
  shows "got = (case secrets w (slot k) of Some v \<Rightarrow> Inr v | None \<Rightarrow> Inl (Sentinel ErrNotFound))"
  using get_law [OF assms] by (auto split: sum.splits if_splits)

lemma put_get:
  assumes "ok False w" "good k" "good l" "put k v w = (res, w1)" "get l w1 = (got, w2)" "get l w = (got0, w3)"
  shows "res = Inr () \<and> got = (if slot l = slot k then Inr v else got0)"
proof -
  note p = put_law [OF assms(1,2,4)]
  then have "res = Inr ()" "secrets w1 = (secrets w)(slot k \<mapsto> v)" "ok False w1" by (auto split: sum.splits)
  then show ?thesis using get_quiet [OF _ assms(3,5)] get_quiet [OF assms(1,3,6)] by simp
qed

lemma del_get:
  assumes "ok False w" "good k" "good l" "del k w = (res, w1)" "get l w1 = (got, w2)" "get l w = (got0, w3)"
  shows "res = Inr () \<and> got = (if slot l = slot k then Inl (Sentinel ErrNotFound) else got0)"
proof -
  note p = del_law [OF assms(1,2,4)]
  then have "res = Inr ()" "secrets w1 = (secrets w)(slot k := None)" "ok False w1" by (auto split: sum.splits)
  then show ?thesis using get_quiet [OF _ assms(3,5)] get_quiet [OF assms(1,3,6)] by simp
qed

text \<open>With faults a change happens in full or not at all, and only the slot of the key changes.\<close>

lemma put_atomic:
  assumes "ok b w" "good k" "put k v w = (res, w1)"
  shows "secrets w1 = (if res = Inr () then (secrets w)(slot k \<mapsto> v) else secrets w)"
  using put_law [OF assms] by (cases res) auto

lemma del_idempotent:
  assumes "ok False w" "good k" "del k w = (res, w1)" "del k w1 = (res', w2)"
  shows "res' = Inr () \<and> secrets w2 = secrets w1"
  using del_law [OF assms(1-3)] del_law [of False w1 k res' w2] assms(2,4) by (auto split: sum.splits)

end

sublocale secret_store \<subseteq> told: truthful_store "ok b" good slot secrets put get del for b
proof (unfold_locales, goal_cases)
  case (1 w k v w')
  then show ?case using put_law [OF 1] by simp
next
  case (2 w k got w')
  then show ?case using get_law [OF 2] by (auto split: sum.splits if_splits)
next
  case (3 w k w')
  then show ?case using del_law [OF 3] by simp
qed

subsection \<open>The file store is an instance\<close>

definition file_ok :: "string \<Rightarrow> ino \<Rightarrow> bool \<Rightarrow> world \<Rightarrow> bool" where
  "file_ok dir r b w = (trim_space dir \<noteq> [] \<and> store_ok secret_layout dir r b w)"

interpretation file_store: secret_store "file_ok dir r" valid_key secret_file "store_view secret_layout r"
    "file_put dir None" "file_get dir None" "file_delete dir None"
  for dir r
proof (unfold_locales, goal_cases)
  case (1 b w k v res w')
  obtain path where p: "secret_path dir k = Inr path" "path_base path = secret_file k"
    using secret_path_cases 1(1,2) unfolding file_ok_def by blast
  obtain x w1 where x: "write_secure_at dir (secret_file k) v w = (x, w1)" by fastforce
  from rooted.write_law [OF _ secret_managed [OF 1(2)] x] 1(1,3) p x show ?case
    by (auto simp: file_put_def file_ok_def split: sum.splits)
next
  case (2 b w k got w')
  obtain path where p: "secret_path dir k = Inr path" "path_base path = secret_file k"
    using secret_path_cases 2(1,2) unfolding file_ok_def by blast
  obtain x w1 where x: "read_secure_at dir (secret_file k) w = (x, w1)" by fastforce
  from rooted.read_law [OF _ secret_managed [OF 2(2)] x] 2(1,3) p x show ?case
    by (auto simp: file_get_def file_ok_def split: sum.splits if_splits)
next
  case (3 b w k res w')
  obtain path where p: "secret_path dir k = Inr path" "path_base path = secret_file k"
    using secret_path_cases 3(1,2) unfolding file_ok_def by blast
  obtain x w1 where x: "remove_secure_at dir (secret_file k) w = (x, w1)" by fastforce
  from rooted.remove_forgiving [OF _ secret_managed [OF 3(2)] x] rooted.remove_frame [OF _ secret_managed [OF 3(2)] x] 3(1,3) p x
  show ?case by (auto simp: file_delete_def file_ok_def split: sum.splits if_splits)
qed

subsection \<open>The script for \<open>security -i\<close>\<close>

lemma quote_arg_concat:
  "quote_arg v = [CHR 0x22] @ concat (map (\<lambda>c. if c = CHR 0x5C \<or> c = CHR 0x22 then [CHR 0x5C, c] else [c]) v) @ [CHR 0x22]"
proof -
  have "replace_char CHR 0x22 [CHR 0x5C, CHR 0x22] (replace_char CHR 0x5C [CHR 0x5C, CHR 0x5C] v) =
      concat (map (\<lambda>c. if c = CHR 0x5C \<or> c = CHR 0x22 then [CHR 0x5C, c] else [c]) v)"
    by (induction v) (auto simp: replace_char_def)
  then show ?thesis by (simp add: quote_arg_def)
qed

text \<open>A quoted value ends where its closing quote is, whatever follows: quoting is prefix-free.\<close>

lemma escaped_eq:
  "concat (map (\<lambda>c. if c = CHR 0x5C \<or> c = CHR 0x22 then [CHR 0x5C, c] else [c]) u) @ CHR 0x22 # x =
   concat (map (\<lambda>c. if c = CHR 0x5C \<or> c = CHR 0x22 then [CHR 0x5C, c] else [c]) v) @ CHR 0x22 # y \<longleftrightarrow> u = v \<and> x = y"
proof (induction u arbitrary: v)
  case Nil
  then show ?case by (cases v) auto
next
  case (Cons c u)
  then show ?case by (cases v) auto
qed

lemma quote_arg_eq: "quote_arg u @ x = quote_arg v @ y \<longleftrightarrow> u = v \<and> x = y"
  by (simp add: quote_arg_concat escaped_eq)

lemma b64_std_inj: "b64_std u = b64_std v \<longleftrightarrow> u = v"
  by (metis b64_decode_encode option.inject)

lemma put_script_eq: "put_script k v = put_script k' v' \<longleftrightarrow> k = k' \<and> v = v'"
  by (cases k; cases k') (auto simp: put_script_def quote_arg_eq b64_std_inj)

lemma b64_std_chars: "c \<in> set (b64_std v) \<Longrightarrow> c = CHR ''='' \<or> c \<in> set std_alphabet"
  using b64_encode_set [of std_alphabet True v] by (auto simp: b64_std_def alphabets)

lemma replace_char_set: "c \<in> set (replace_char d by s) \<Longrightarrow> c \<in> set s \<or> c \<in> set by"
  by (induction s) (auto simp: replace_char_def split: if_splits)

lemma put_script_line:
  assumes "valid_key k"
  obtains line where "put_script k v = line @ [CHR 0x0A]" "c \<in> {CHR 0x00, CHR 0x0A, CHR 0x0D} \<Longrightarrow> c \<notin> set line"
proof
  let ?line = "''add-generic-password -a '' @ quote_arg (sk_account k) @ '' -s '' @ quote_arg (sk_service k) @
     '' -D '' @ encoded_kind @ '' -U -w '' @ encoded_prefix @ b64_std v"
  show "put_script k v = ?line @ [CHR 0x0A]" by (simp add: put_script_def)
  assume c: "c \<in> {CHR 0x00, CHR 0x0A, CHR 0x0D}"
  have q: "c \<notin> set (quote_arg x)" if "c \<notin> set x" for x
    using that c by (auto simp: quote_arg_def dest!: replace_char_set)
  have "c \<notin> set std_alphabet" using c by (auto simp: std_alphabet_def)
  then have "c \<notin> set (b64_std v)" using b64_std_chars [of c v] c by auto
  moreover have "c \<notin> set (sk_account k)" "c \<notin> set (sk_service k)" using valid_keyD [OF assms] c by auto
  ultimately show "c \<notin> set ?line" using q c by (auto simp: encoded_kind_def encoded_prefix_def)
qed

subsection \<open>The runs of the program\<close>

text \<open>The store with a record of the program, the arguments and the input of every run.\<close>

type_synonym run = "string \<times> string list \<times> string option"

definition recorded :: "'s host \<Rightarrow> 's keychain \<Rightarrow> ('s \<times> run list) keychain" where
  "recorded h kc = \<lparr>kc_policy = kc_policy kc, kc_executable = kc_executable kc,
     kc_command = Some (\<lambda>exe args inp (s, l).
       case (case kc_command kc of None \<Rightarrow> host_exec h | Some c \<Rightarrow> c) exe args inp s of (r, s1) \<Rightarrow> (r, s1, l @ [(exe, args, inp)]))\<rparr>"

definition recorded_host :: "'s host \<Rightarrow> ('s \<times> run list) host" where
  "recorded_host h = \<lparr>host_os = host_os h,
     host_exec = (\<lambda>exe args inp (s, l). case host_exec h exe args inp s of (r, s1) \<Rightarrow> (r, s1, l @ [(exe, args, inp)]))\<rparr>"

definition program :: "'s keychain \<Rightarrow> string" where
  "program kc = (if trim_space (kc_executable kc) = [] then ''/usr/bin/security'' else trim_space (kc_executable kc))"

definition launches :: "'s host \<Rightarrow> 's keychain \<Rightarrow> bool" where
  "launches h kc = (trim_space (kc_executable kc) = [] \<longrightarrow> host_os h = ''darwin'')"

lemma recorded_run:
  "keychain_run (recorded_host h) (recorded h kc) inp args (s, l) =
    (case keychain_run h kc inp args s of (r, s1) \<Rightarrow> (r, s1, if launches h kc then l @ [(program kc, args, inp)] else l))"
  by (simp add: keychain_run_def recorded_def recorded_host_def program_def launches_def Let_def split: prod.split)

lemma recorded_policy: "policy_ok (recorded h kc) = policy_ok kc" "kc_policy (recorded h kc) = kc_policy kc"
  by (simp_all add: policy_ok_def recorded_def)

lemma not_launched: "\<not> launches h kc \<Longrightarrow> keychain_run h kc inp args s = (Inl (RunErr (Sentinel ErrUnsupported)), s)"
  by (simp add: keychain_run_def launches_def Let_def)

text \<open>The runs of a \<open>Get\<close>.\<close>

definition get_runs :: "'s keychain \<Rightarrow> secret_key \<Rightarrow> run list" where
  "get_runs kc k = [(program kc, find_args k, None), (program kc, find_args k @ [''-w''], None), (program kc, find_args k, None)]"

lemma get_recorded:
  assumes "keychain_get (recorded_host h) (recorded h kc) k (s, l) = (got, s', l')"
  shows "keychain_get h kc k s = (got, s')" "\<exists>n. l' = l @ take n (get_runs kc k)" "is_ok got \<Longrightarrow> l' = l @ get_runs kc k"
proof -
  obtain r1 s1 where 1: "keychain_run h kc None (find_args k) s = (r1, s1)" by fastforce
  obtain r2 s2 where 2: "keychain_run h kc None (find_args k @ [''-w'']) s1 = (r2, s2)" by fastforce
  obtain r3 s3 where 3: "keychain_run h kc None (find_args k) s2 = (r3, s3)" by fastforce
  have un: "r1 = Inl (RunErr (Sentinel ErrUnsupported)) \<and> s1 = s" if "\<not> launches h kc" using not_launched [OF that] 1 by simp
  note run = assms [unfolded keychain_get_def recorded_policy recorded_run]
  have "keychain_get h kc k s = (got, s') \<and> l' \<in> {l @ take n (get_runs kc k) | n. n \<le> 3} \<and> (is_ok got \<longrightarrow> l' = l @ get_runs kc k)"
  proof (cases "validate_key k = None \<and> policy_ok kc \<and> launches h kc")
    case True
    then show ?thesis
      using run unfolding keychain_get_def
      by (cases r1; cases r2; cases r3)
        (auto simp: 1 2 3 recorded_run get_runs_def split: if_splits intro: exI [of _ 1] exI [of _ 2] exI [of _ 3])
  next
    case False
    then show ?thesis using run un 1 unfolding keychain_get_def by (auto split: option.splits if_splits intro: exI [of _ 0])
  qed
  then show "keychain_get h kc k s = (got, s')" "\<exists>n. l' = l @ take n (get_runs kc k)" "is_ok got \<Longrightarrow> l' = l @ get_runs kc k"
    by auto
qed

lemma put_recorded:
  assumes "keychain_put (recorded_host h) (recorded h kc) k v (s, []) = (res, s', calls)"
  shows "keychain_put h kc k v s = (res, s')" "\<exists>n. calls = take n ((program kc, [''-i''], Some (put_script k v)) # get_runs kc k)"
    "calls \<noteq> [] \<Longrightarrow> valid_key k \<and> policy_ok kc"
    "res = Inr () \<Longrightarrow> calls = (program kc, [''-i''], Some (put_script k v)) # get_runs kc k"
proof -
  obtain r s1 where r: "keychain_run h kc (Some (put_script k v)) [''-i''] s = (r, s1)" by fastforce
  let ?first = "(program kc, [''-i''], Some (put_script k v))"
  note run = assms [unfolded keychain_put_def recorded_policy recorded_run]
  have "keychain_put h kc k v s = (res, s') \<and> (\<exists>n. calls = take n (?first # get_runs kc k)) \<and>
    (calls \<noteq> [] \<longrightarrow> valid_key k \<and> policy_ok kc) \<and> (res = Inr () \<longrightarrow> calls = ?first # get_runs kc k)"
  proof (cases "valid_key k \<and> policy_ok kc \<and> launches h kc \<and> is_ok r")
    case True
    then obtain u where u: "r = Inr u" by (cases r) auto
    obtain got s2 l where g: "keychain_get (recorded_host h) (recorded h kc) k (s1, [?first]) = (got, s2, l)" by (metis prod.exhaust)
    note G = get_recorded [OF g]
    have out: "(res, s', calls) = (if got \<noteq> Inr v then Inl (MsgErr ''put keychain secret: write could not be verified'') else Inr (), s2, l)"
      using run True r u g by (simp add: validate_key_cases split: if_splits)
    moreover have "\<exists>n. l = take n (?first # get_runs kc k)" using G(2) by (metis append_Cons append_Nil take_Suc_Cons)
    moreover have "keychain_put h kc k v s = (res, s')" "res = Inr () \<longrightarrow> calls = ?first # get_runs kc k"
      using calculation(1) G(1,3) True r u by (auto simp: keychain_put_def validate_key_cases split: if_splits)
    ultimately show ?thesis using True by simp
  next
    case False
    then show ?thesis
      using run r not_launched [of h kc] unfolding keychain_put_def
      by (cases r) (auto simp: valid_key_def split: option.splits if_splits intro: exI [of _ 0] exI [of _ 1])
  qed
  then show "keychain_put h kc k v s = (res, s')" "\<exists>n. calls = take n (?first # get_runs kc k)"
    "calls \<noteq> [] \<Longrightarrow> valid_key k \<and> policy_ok kc" "res = Inr () \<Longrightarrow> calls = ?first # get_runs kc k"
    by blast+
qed

subsection \<open>What the program reports\<close>

text \<open>
  The program over states with a map of items, each the attributes and the password it prints.  Only its reports are assumed
  true: what a search prints is the item, exit status 44 means that there is none, and a deletion
  that ends with status 0 took the item of that account and service away.  Every run may fail in any other way at any time (a locked keychain, a
  refused or cancelled access, a program that does not start), and of what the interactive mode does with a script, and with
  which status it ends, nothing is assumed.
\<close>

definition reports :: "(string option \<Rightarrow> string list \<Rightarrow> 's \<Rightarrow> (exec_error + string) \<times> 's) \<Rightarrow> ('s \<Rightarrow> string \<times> string \<Rightarrow> (string \<times> string) option) \<Rightarrow> bool" where
  "reports run items =
     ((\<forall>k s r s'. run None (find_args k) s = (r, s') \<longrightarrow> items s' = items s \<and>
        (case r of
           Inr out \<Rightarrow> map_option fst (items s (sk_account k, sk_service k)) = Some out
         | Inl e \<Rightarrow> is_not_found_exit e \<longrightarrow> items s (sk_account k, sk_service k) = None)) \<and>
      (\<forall>k s r s'. run None (find_args k @ [''-w'']) s = (r, s') \<longrightarrow> items s' = items s \<and>
        (case r of
           Inr out \<Rightarrow> map_option snd (items s (sk_account k, sk_service k)) = Some out
         | Inl e \<Rightarrow> is_not_found_exit e \<longrightarrow> items s (sk_account k, sk_service k) = None)) \<and>
      (\<forall>a b s r s'. run None [''delete-generic-password'', ''-a'', a, ''-s'', b] s = (r, s') \<longrightarrow>
        (case r of
           Inr _ \<Rightarrow> items s' = (items s)((a, b) := None)
         | Inl e \<Rightarrow> is_not_found_exit e \<longrightarrow> items s' = items s \<and> items s (a, b) = None)))"

definition keychain_slot :: "secret_key \<Rightarrow> string \<times> string" where
  "keychain_slot k = (sk_account k, sk_service k)"

text \<open>The secret an item stands for under a policy.\<close>

definition item_secret :: "int \<Rightarrow> (string \<times> string) option \<Rightarrow> string option" where
  "item_secret policy item =
     (case item of None \<Rightarrow> None
      | Some (attributes, password) \<Rightarrow>
          (case decode_item policy (has_encoded_kind attributes) password of Inl _ \<Rightarrow> None | Inr v \<Rightarrow> Some v))"

lemma get_reports:
  assumes "reports (keychain_run h kc) items" "keychain_get h kc k s = (got, s')"
  shows "items s' = items s" "got = Inr v \<Longrightarrow> item_secret (kc_policy kc) (items s (keychain_slot k)) = Some v"
    "got = Inl (Sentinel ErrNotFound) \<Longrightarrow> items s (keychain_slot k) = None"
proof -
  obtain r1 s1 where 1: "keychain_run h kc None (find_args k) s = (r1, s1)" by fastforce
  obtain r2 s2 where 2: "keychain_run h kc None (find_args k @ [''-w'']) s1 = (r2, s2)" by fastforce
  obtain r3 s3 where 3: "keychain_run h kc None (find_args k) s2 = (r3, s3)" by fastforce
  note R = assms(1) [unfolded reports_def]
  note t1 = R [THEN conjunct1, rule_format, OF 1] and t2 = R [THEN conjunct2, THEN conjunct1, rule_format, OF 2]
    and t3 = R [THEN conjunct1, rule_format, OF 3]
  have dec: "decode_item p m raw \<noteq> Inl (Sentinel ErrNotFound)" for p m raw
    by (simp add: decode_item_def Let_def split: prod.split option.split)
  have "items s' = items s \<and> (\<forall>v. got = Inr v \<longrightarrow> item_secret (kc_policy kc) (items s (keychain_slot k)) = Some v) \<and>
    (got = Inl (Sentinel ErrNotFound) \<longrightarrow> items s (keychain_slot k) = None)"
  proof (cases "valid_key k \<and> policy_ok kc")
    case False
    then show ?thesis using assms(2) by (auto simp: keychain_get_def validate_key_cases valid_key_def validate_key_def split: if_splits)
  next
    case True
    then show ?thesis
      using assms(2) t1 t2 t3 dec unfolding keychain_get_def
      by (cases r1; cases r2; cases r3)
        (auto simp: validate_key_cases 1 2 3 keychain_error_def keychain_slot_def item_secret_def split: if_splits)
  qed
  then show "items s' = items s" "got = Inr v \<Longrightarrow> item_secret (kc_policy kc) (items s (keychain_slot k)) = Some v"
    "got = Inl (Sentinel ErrNotFound) \<Longrightarrow> items s (keychain_slot k) = None" by blast+
qed

lemma put_reports:
  assumes "reports (keychain_run h kc) items" "keychain_put h kc k v s = (Inr (), s')"
  shows "item_secret (kc_policy kc) (items s' (keychain_slot k)) = Some v"
proof -
  obtain t where "keychain_get h kc k t = (Inr v, s')"
    using assms(2) by (auto simp: keychain_put_def split: if_splits option.splits sum.splits prod.splits)
  from get_reports(1,2) [OF assms(1) this] show ?thesis by simp
qed

lemma delete_reports:
  assumes "reports (keychain_run h kc) items" "keychain_delete h kc k s = (Inr (), s')"
  shows "items s' = (items s)(keychain_slot k := None)"
proof -
  obtain r t where run: "keychain_run h kc None [''delete-generic-password'', ''-a'', sk_account k, ''-s'', sk_service k] s = (r, t)"
    by fastforce
  note R = assms(1) [unfolded reports_def, THEN conjunct2, THEN conjunct2, rule_format, OF run]
  show ?thesis using assms(2) run R
    by (cases r) (auto simp: keychain_delete_def keychain_slot_def fun_upd_idem split: option.splits if_splits)
qed

interpretation keychain_store: truthful_store "\<lambda>s. reports (keychain_run h kc) items" "\<lambda>_. True" keychain_slot
    "\<lambda>s at. item_secret (kc_policy kc) (items s at)" "keychain_put h kc" "keychain_get h kc" "keychain_delete h kc"
  for h kc items
proof (unfold_locales, goal_cases)
  case (1 s k v s')
  then show ?case using put_reports [OF 1(1,3)] by simp
next
  case (2 s k got s')
  then show ?case using get_reports [OF 2(1,3)] by (auto simp: item_secret_def split: sum.splits)
next
  case (3 s k s')
  then show ?case using delete_reports [OF 3(1,3)] by (simp add: item_secret_def)
qed

text \<open>An item that was written as asked is verified, whatever bytes the value has.\<close>

definition desc_line :: string where
  "desc_line = ''    '' @ [CHR 0x22] @ ''desc'' @ [CHR 0x22] @ ''<blob>='' @ [CHR 0x22] @ encoded_kind @ [CHR 0x22]"

lemma has_encoded_kind_listed: "has_encoded_kind (before @ CHR 0x0A # desc_line @ CHR 0x0A # behind)"
proof -
  have "CHR 0x0A \<notin> set desc_line" by (simp add: desc_line_def encoded_kind_def)
  then have "split_on CHR 0x0A (before @ CHR 0x0A # desc_line @ CHR 0x0A # behind) =
      split_on CHR 0x0A before @ desc_line # split_on CHR 0x0A behind"
    by (simp add: split_on_mid split_on_no_sep)
  moreover have "trim_space desc_line = [CHR 0x22] @ ''desc'' @ [CHR 0x22] @ ''<blob>='' @ [CHR 0x22] @ encoded_kind @ [CHR 0x22]"
    by (simp add: desc_line_def trim_space_def encoded_kind_def trim_left.simps leading_space_def space_runes_def has_prefix_def)
  ultimately show ?thesis by (simp add: has_encoded_kind_def)
qed

lemma decode_written: "decode_item p True ((encoded_prefix @ b64_std v) @ [CHR 0x0A]) = Inr v"
  by (simp only: decode_item_def trim_suffix_append cut_prefix_append Let_def prod.case b64_decode_encode) simp

lemma put_written:
  assumes "valid_key k" "policy_ok kc" "keychain_run h kc (Some (put_script k v)) [''-i''] s = (Inr out, t)"
    and "keychain_run h kc None (find_args k) t = (Inr m, t)"
    and "keychain_run h kc None (find_args k @ [''-w'']) t = (Inr ((encoded_prefix @ b64_std v) @ [CHR 0x0A]), t)" "has_encoded_kind m"
  shows "keychain_put h kc k v s = (Inr (), t)"
  using assms decode_written [of "kc_policy kc" v] by (simp add: keychain_put_def keychain_get_def validate_key_cases del: append_assoc)

subsection \<open>Examples\<close>

definition demo_key :: secret_key where
  "demo_key = \<lparr>sk_service = ''svc'', sk_account = ''me''\<rparr>"

lemma demo_key_valid: "valid_key demo_key"
  by (simp add: valid_key_def validate_key_def demo_key_def contains_any_def trim_space_def trim_left.simps leading_space_def
      space_runes_def has_prefix_def)

lemma demo_file_ok: "list_all (calm b) evs \<Longrightarrow> file_ok ''/h'' 5 b (demo_world evs)"
  using demo_ok [OF secret_layout_valid]
  by (simp add: file_ok_def trim_space_def trim_left.simps leading_space_def space_runes_def has_prefix_def)

text \<open>A keychain program that carries out one script and ignores every other without a word.\<close>

definition demo_item :: "string \<times> string" where
  "demo_item = (''keychain'' @ CHR 0x0A # desc_line @ CHR 0x0A # [], (encoded_prefix @ b64_std ''a'') @ [CHR 0x0A])"

definition demo_security :: "(string \<times> string \<Rightarrow> (string \<times> string) option) command" where
  "demo_security exe args inp s =
     (if args = [''-i''] then (Inr [], if inp = Some (put_script demo_key ''a'') then s(keychain_slot demo_key \<mapsto> demo_item) else s)
      else case s (args ! 2, args ! 4) of
        None \<Rightarrow> (Inl (ExitErr 44), s)
      | Some (attributes, password) \<Rightarrow>
          if args ! 0 = ''delete-generic-password'' then (Inr [], s((args ! 2, args ! 4) := None))
          else if length args = 5 then (Inr attributes, s)
          else (Inr password, s))"

definition demo_host :: "(string \<times> string \<Rightarrow> (string \<times> string) option) host" where
  "demo_host = \<lparr>host_os = ''darwin'', host_exec = demo_security\<rparr>"

definition demo_keychain :: "'s keychain" where
  "demo_keychain = \<lparr>kc_policy = 0, kc_executable = [], kc_command = None\<rparr>"

lemma demo_keychain_run: "keychain_run demo_host demo_keychain inp args s = demo_security ''/usr/bin/security'' args inp s"
  by (simp add: keychain_run_def demo_host_def demo_keychain_def trim_space_def trim_left.simps leading_space_def Let_def
      find_None_iff space_runes_def has_prefix_def)

lemma demo_keychain_policy: "policy_ok demo_keychain"
  by (simp add: policy_ok_def demo_keychain_def LegacyRejectAmbiguous_def LegacyBase64_def)

lemma demo_reports: "reports (keychain_run demo_host demo_keychain) (\<lambda>s. s)"
  unfolding reports_def demo_keychain_run
  by (auto simp: demo_security_def find_args_def is_not_found_exit_def split: option.splits sum.splits)

lemma demo_find:
  "keychain_run demo_host demo_keychain None (find_args demo_key) s =
     (case s (keychain_slot demo_key) of None \<Rightarrow> Inl (ExitErr 44) | Some item \<Rightarrow> Inr (fst item), s)"
  "keychain_run demo_host demo_keychain None (find_args demo_key @ [''-w'']) s =
     (case s (keychain_slot demo_key) of None \<Rightarrow> Inl (ExitErr 44) | Some item \<Rightarrow> Inr (snd item), s)"
  by (auto simp: demo_keychain_run demo_security_def find_args_def keychain_slot_def split: option.split)

lemma demo_marked: "has_encoded_kind (fst demo_item)"
  using has_encoded_kind_listed [of "''keychain''" "[]"] by (simp add: demo_item_def)

lemma demo_put: "keychain_put demo_host demo_keychain demo_key ''a'' s = (Inr (), s(keychain_slot demo_key \<mapsto> demo_item))"
  by (rule put_written [OF demo_key_valid demo_keychain_policy, where m = "fst demo_item" and out = "[]"])
    (simp add: demo_keychain_run demo_security_def,
     simp_all add: demo_find demo_marked, simp add: demo_item_def)

lemma demo_get_absent:
  "keychain_get demo_host demo_keychain demo_key Map.empty = (Inl (Sentinel ErrNotFound), Map.empty)"
  using demo_key_valid demo_keychain_policy
  by (simp add: keychain_get_def validate_key_cases demo_find keychain_error_def is_not_found_exit_def)

subsection \<open>Properties\<close>

text \<open>C14: the key decides the file.  A valid key names one plain file of the directory, never a
  staging file; two valid keys share a file exactly when SHA-256 collides on their distinct
  messages, so moving characters between service and account never does; an invalid key is
  refused with \<open>ErrInvalidKey\<close> before a system call or a command, by both stores.\<close>

theorem secret_keys_separate:
  "(valid_key k \<and> valid_key l \<and> trim_space dir \<noteq> [] \<longrightarrow>
      (\<exists>p q. secret_path dir k = Inr p \<and> secret_path dir l = Inr q \<and> fname (path_base p) \<and> length (path_base p) = 71 \<and>
         (path_base p = path_base q \<longleftrightarrow> sha256 (key_message k) = sha256 (key_message l)) \<and>
         (key_message k = key_message l \<longleftrightarrow> k = l))) \<and>
   (\<not> valid_key k \<longrightarrow>
      file_put dir None k v w = (Inl (Sentinel ErrInvalidKey), w) \<and> file_get dir None k w = (Inl (Sentinel ErrInvalidKey), w) \<and>
      file_delete dir None k w = (Inl (Sentinel ErrInvalidKey), w) \<and>
      keychain_get h kc k s = (Inl (Sentinel ErrInvalidKey), s) \<and> keychain_delete h kc k s = (Inl (Sentinel ErrInvalidKey), s) \<and>
      (\<exists>e. keychain_put h kc k v s = (Inl e, s)))"
proof (intro conjI impI)
  assume a: "valid_key k \<and> valid_key l \<and> trim_space dir \<noteq> []"
  obtain p where p: "secret_path dir k = Inr p" "path_base p = secret_file k" using secret_path_cases a by blast
  obtain q where q: "secret_path dir l = Inr q" "path_base q = secret_file l" using secret_path_cases a by blast
  show "\<exists>p q. secret_path dir k = Inr p \<and> secret_path dir l = Inr q \<and> fname (path_base p) \<and> length (path_base p) = 71 \<and>
         (path_base p = path_base q \<longleftrightarrow> sha256 (key_message k) = sha256 (key_message l)) \<and>
         (key_message k = key_message l \<longleftrightarrow> k = l)"
    using p q secret_file_fname secret_file_eq key_message_inj a by (auto simp: secret_file_def)
qed (auto simp: validate_key_cases secret_path_def file_put_def file_get_def file_delete_def keychain_get_def keychain_delete_def keychain_put_def)

theorem secret_keys_separate_witness:
  "(\<exists>p. secret_path ''/h'' demo_key = Inr p \<and> fname (path_base p)) \<and>
   file_get ''/h'' None \<lparr>sk_service = [], sk_account = []\<rparr> (demo_world []) = (Inl (Sentinel ErrInvalidKey), demo_world [])"
proof -
  have "\<not> valid_key \<lparr>sk_service = [], sk_account = []\<rparr>"
    by (simp add: valid_key_def validate_key_def trim_space_def trim_left.simps leading_space_def space_runes_def has_prefix_def)
  moreover have "trim_space ''/h'' \<noteq> []" using demo_file_ok [of False "[]"] by (simp add: file_ok_def)
  ultimately show ?thesis
    using secret_keys_separate [of demo_key demo_key "''/h''" "[]" "demo_world []" demo_host demo_keychain Map.empty] demo_key_valid
      secret_keys_separate [of "\<lparr>sk_service = [], sk_account = []\<rparr>" demo_key "''/h''" "[]" "demo_world []" demo_host demo_keychain Map.empty]
    by blast
qed

text \<open>On an undisturbed disk the file store is a store.  After \<open>Put\<close>, \<open>Get\<close> returns the value
  for every key with the same file and what it returned before for every other key; after
  \<open>Delete\<close>, which also succeeds for an absent secret, \<open>Get\<close> reports \<open>ErrNotFound\<close>.\<close>

theorem file_secret_roundtrip:
  assumes "file_ok dir r False w" "valid_key k" "valid_key l" "file_get dir None l w = (got0, w0)"
    and "file_put dir None k v w = (res, w1)" "file_get dir None l w1 = (got, w2)"
    and "file_delete dir None k w = (res', w3)" "file_get dir None l w3 = (got', w4)"
  shows "res = Inr () \<and> got = (if sha256 (key_message l) = sha256 (key_message k) then Inr v else got0) \<and>
    res' = Inr () \<and> got' = (if sha256 (key_message l) = sha256 (key_message k) then Inl (Sentinel ErrNotFound) else got0)"
  using file_store.put_get [OF assms(1-3,5,6,4)] file_store.del_get [OF assms(1-3,7,8,4)] by (simp add: secret_file_eq)

theorem file_secret_roundtrip_witness:
  "\<exists>w1 w2. file_put ''/h'' None demo_key ''s3cret'' (demo_world []) = (Inr (), w1) \<and> file_get ''/h'' None demo_key w1 = (Inr ''s3cret'', w2)"
proof -
  obtain res w1 where 1: "file_put ''/h'' None demo_key ''s3cret'' (demo_world []) = (res, w1)" by fastforce
  obtain got w2 where 2: "file_get ''/h'' None demo_key w1 = (got, w2)" by fastforce
  obtain got0 w0 where 0: "file_get ''/h'' None demo_key (demo_world []) = (got0, w0)" by fastforce
  obtain res' w3 where 3: "file_delete ''/h'' None demo_key (demo_world []) = (res', w3)" by fastforce
  obtain got' w4 where 4: "file_get ''/h'' None demo_key w3 = (got', w4)" by fastforce
  have "file_ok ''/h'' 5 False (demo_world [])" by (rule demo_file_ok) simp
  from file_secret_roundtrip [OF this demo_key_valid demo_key_valid 0 1 2 3 4] 1 2 show ?thesis by simp
qed

text \<open>Whichever system call fails, \<open>Put\<close> and \<open>Delete\<close> happen in full or not at all, change the
  file of the key alone and report an error whenever nothing was changed; \<open>ErrNotFound\<close> is
  reported only for an absent file; and a cancelled context stops every operation first.\<close>

theorem file_secret_atomic:
  assumes "file_ok dir r b w" "valid_key k" "file_put dir ctx k v w = (res, w1)" "file_delete dir ctx k w = (res', w2)"
    and "file_get dir ctx k w = (got, w3)"
  shows "case ctx of
     Some e \<Rightarrow> (res, w1) = (Inl e, w) \<and> (res', w2) = (Inl e, w) \<and> (got, w3) = (Inl e, w)
   | None \<Rightarrow>
      store_view secret_layout r w1 = (if res = Inr () then (store_view secret_layout r w)(secret_file k \<mapsto> v) else store_view secret_layout r w) \<and>
      store_view secret_layout r w2 = (if res' = Inr () then (store_view secret_layout r w)(secret_file k := None) else store_view secret_layout r w) \<and>
      store_view secret_layout r w3 = store_view secret_layout r w \<and>
      (\<forall>x. got = Inr x \<longrightarrow> store_view secret_layout r w (secret_file k) = Some x) \<and>
      (got = Inl (Sentinel ErrNotFound) \<longrightarrow> store_view secret_layout r w (secret_file k) = None)"
proof (cases ctx)
  case None
  note 1 = file_store.put_atomic [OF assms(1,2,3) [unfolded None]]
  note 2 = file_store.del_law [OF assms(1,2,4) [unfolded None]]
  note 3 = file_store.get_law [OF assms(1,2,5) [unfolded None]]
  show ?thesis using 1 2 3 None by (auto split: sum.splits if_splits)
next
  case (Some e)
  then show ?thesis using assms by (simp add: file_put_def file_get_def file_delete_def)
qed

theorem file_secret_atomic_witness:
  "\<exists>res w1. file_put ''/h'' None demo_key ''s'' (demo_world [Fault EIO 0]) = (res, w1) \<and>
     (res = Inr () \<longleftrightarrow> store_view secret_layout 5 w1 (secret_file demo_key) = Some ''s'')"
proof -
  obtain res w1 where 1: "file_put ''/h'' None demo_key ''s'' (demo_world [Fault EIO 0]) = (res, w1)" by fastforce
  obtain res' w2 where 2: "file_delete ''/h'' None demo_key (demo_world [Fault EIO 0]) = (res', w2)" by fastforce
  obtain got w3 where 3: "file_get ''/h'' None demo_key (demo_world [Fault EIO 0]) = (got, w3)" by fastforce
  have "file_ok ''/h'' 5 True (demo_world [Fault EIO 0])" by (rule demo_file_ok) simp
  from file_secret_atomic [OF this demo_key_valid 1 2 3] 1 show ?thesis by (simp add: demo_view)
qed

text \<open>C9: what the keychain store says is true.  The program may fail at any run in any way, and its interactive mode may
  ignore or garble the script and still end with status 0; only what its searches and deletions report
  is assumed to be so.  Then a \<open>Put\<close> that returns nil has left an item for the key that reads back, under the store's policy,
  as exactly the bytes put; a \<open>Get\<close> changes no item, returns the value of the item, and reports \<open>ErrNotFound\<close>
  only if there is none; a \<open>Delete\<close> that returns nil has left no item for the key and every other item alone.  Of an operation that
  returned another error nothing is claimed: a failed \<open>Put\<close> may have changed the item.\<close>

theorem keychain_put_verified:
  assumes "reports (keychain_run h kc) items"
    and "keychain_put h kc k v s = (res, s1)" "keychain_get h kc k s = (got, s2)" "keychain_delete h kc k s = (res', s3)"
  shows "(res = Inr () \<longrightarrow> (\<exists>attributes password. items s1 (sk_account k, sk_service k) = Some (attributes, password) \<and>
       decode_item (kc_policy kc) (has_encoded_kind attributes) password = Inr v)) \<and>
    items s2 = items s \<and>
    (case got of
       Inr x \<Rightarrow> \<exists>attributes password. items s (sk_account k, sk_service k) = Some (attributes, password) \<and>
         decode_item (kc_policy kc) (has_encoded_kind attributes) password = Inr x
     | Inl e \<Rightarrow> e = Sentinel ErrNotFound \<longrightarrow> items s (sk_account k, sk_service k) = None) \<and>
    (res' = Inr () \<longrightarrow> items s3 = (items s)((sk_account k, sk_service k) := None))"
proof -
  have put: "res = Inr () \<Longrightarrow> item_secret (kc_policy kc) (items s1 (keychain_slot k)) = Some v"
    using keychain_store.put_told [OF assms(1)] assms(2) by simp
  show ?thesis
    using put get_reports [OF assms(1,3)] delete_reports [OF assms(1)] assms(4)
    by (auto simp: item_secret_def keychain_slot_def split: option.splits sum.splits)
qed

theorem keychain_put_verified_witness:
  "(\<exists>s1 item. keychain_put demo_host demo_keychain demo_key ''a'' Map.empty = (Inr (), s1) \<and> s1 (''me'', ''svc'') = Some item \<and>
      decode_item 0 (has_encoded_kind (fst item)) (snd item) = Inr ''a'') \<and>
   (\<exists>e s1. keychain_put demo_host demo_keychain demo_key ''b'' Map.empty = (Inl e, s1))"
proof -
  obtain got s2 where 2: "keychain_get demo_host demo_keychain demo_key Map.empty = (got, s2)" by fastforce
  obtain res' s3 where 3: "keychain_delete demo_host demo_keychain demo_key Map.empty = (res', s3)" by fastforce
  note first = keychain_put_verified [OF demo_reports demo_put 2 3]
  obtain res s1 where 1: "keychain_put demo_host demo_keychain demo_key ''b'' Map.empty = (res, s1)" by fastforce
  have "keychain_run demo_host demo_keychain (Some (put_script demo_key ''b'')) [''-i''] Map.empty = (Inr [], Map.empty)"
    by (simp add: demo_keychain_run demo_security_def put_script_eq)
  then have "s1 = Map.empty"
    using 1 demo_get_absent validate_key_cases(1) [OF demo_key_valid] by (simp add: keychain_put_def demo_keychain_policy)
  then have "res \<noteq> Inr ()" using keychain_put_verified [OF demo_reports 1 2 3] by auto
  then show ?thesis using first demo_put 1 by (cases res) (auto simp: demo_key_def demo_keychain_def keychain_slot_def)
qed

text \<open>C29: the secret reaches the program on its input alone.  A \<open>Put\<close> runs one program, with argument lists that the
  key fixes: first \<open>-i\<close> with the script as its input, then the three searches of a \<open>Get\<close> without input, up
  to the first that fails; all four when it returns nil, and none for a key or policy it refuses.  The
  script is one line, whatever the bytes of the value, and it is unambiguous: two scripts are equal
  only if key and value are, so no account or service can pass for another by its quotes and backslashes.\<close>

theorem keychain_secret_confined:
  assumes "keychain_put (recorded_host h) (recorded h kc) k v (s, []) = (res, s', calls)"
  shows "keychain_put h kc k v s = (res, s') \<and>
    (\<exists>n. calls = take n [(program kc, [''-i''], Some (put_script k v)),
       (program kc, [''find-generic-password'', ''-a'', sk_account k, ''-s'', sk_service k], None),
       (program kc, [''find-generic-password'', ''-a'', sk_account k, ''-s'', sk_service k, ''-w''], None),
       (program kc, [''find-generic-password'', ''-a'', sk_account k, ''-s'', sk_service k], None)] \<and> (res = Inr () \<longrightarrow> n = 4)) \<and>
    (calls \<noteq> [] \<longrightarrow> valid_key k \<and> policy_ok kc) \<and>
    (valid_key k \<longrightarrow> (\<exists>line. put_script k v = line @ [CHR 0x0A] \<and> CHR 0x00 \<notin> set line \<and> CHR 0x0A \<notin> set line \<and> CHR 0x0D \<notin> set line)) \<and>
    (put_script k v = put_script k' v' \<longleftrightarrow> k = k' \<and> v = v')"
proof -
  note P = put_recorded [OF assms]
  have runs: "get_runs kc k =
      [(program kc, [''find-generic-password'', ''-a'', sk_account k, ''-s'', sk_service k], None),
       (program kc, [''find-generic-password'', ''-a'', sk_account k, ''-s'', sk_service k, ''-w''], None),
       (program kc, [''find-generic-password'', ''-a'', sk_account k, ''-s'', sk_service k], None)]"
    by (simp add: get_runs_def find_args_def)
  have "\<exists>n. calls = take n ((program kc, [''-i''], Some (put_script k v)) # get_runs kc k) \<and> (res = Inr () \<longrightarrow> n = 4)"
    using P(2,4) by (cases "res = Inr ()") (auto simp: runs intro: exI [of _ 4])
  moreover have "\<exists>line. put_script k v = line @ [CHR 0x0A] \<and> CHR 0x00 \<notin> set line \<and> CHR 0x0A \<notin> set line \<and> CHR 0x0D \<notin> set line"
    if "valid_key k"
    using put_script_line [OF that, of v "CHR 0x00"] put_script_line [OF that, of v "CHR 0x0A"] put_script_line [OF that, of v "CHR 0x0D"]
    by (metis append1_eq_conv insertI1 insertI2)
  ultimately show ?thesis using P(1,3) put_script_eq unfolding runs by blast
qed

theorem keychain_secret_confined_witness:
  "\<exists>calls s1. keychain_put (recorded_host demo_host) (recorded demo_host demo_keychain) demo_key ''a'' (Map.empty, []) = (Inr (), s1, calls) \<and>
     length calls = 4 \<and> hd calls = (''/usr/bin/security'', [''-i''], Some (put_script demo_key ''a'')) \<and> list_all (\<lambda>(exe, args, inp). inp = None) (tl calls)"
proof -
  obtain res s1 calls where run:
    "keychain_put (recorded_host demo_host) (recorded demo_host demo_keychain) demo_key ''a'' (Map.empty, []) = (res, s1, calls)"
    by (metis prod.exhaust)
  note C = keychain_secret_confined [OF run, of demo_key "''a''"]
  have "res = Inr ()" using C demo_put [of Map.empty] by simp
  moreover have "program demo_keychain = ''/usr/bin/security''" 
    by (simp add: program_def demo_keychain_def trim_space_def trim_left.simps leading_space_def find_None_iff space_runes_def has_prefix_def)
  ultimately show ?thesis using C run by auto
qed

text \<open>The strict policy never guesses.  What \<open>Get\<close> returns under \<open>LegacyRejectAmbiguous\<close> it returns
  under every policy, errors included; the one exception is \<open>ErrAmbiguousEncoding\<close>, for an
  unmarked value with the prefix, which \<open>LegacyPlain\<close> returns as it is and \<open>LegacyBase64\<close> decodes.\<close>

theorem keychain_policy_conservative:
  assumes "kc_policy kc = LegacyRejectAmbiguous" "policy_ok (kc\<lparr>kc_policy := p\<rparr>)" "keychain_get h kc k s = (got, s')"
  shows "if got = Inl (Sentinel ErrAmbiguousEncoding)
    then \<exists>rest. keychain_get h (kc\<lparr>kc_policy := p\<rparr>) k s =
      (if p = LegacyPlain then Inr (encoded_prefix @ rest)
       else if p = LegacyBase64 then
         (case b64_decode rest of Some v \<Rightarrow> Inr v | None \<Rightarrow> Inl (WrapErr ''get keychain secret: stored value is corrupt: '' (MsgErr ''base64'')))
       else got, s')
    else keychain_get h (kc\<lparr>kc_policy := p\<rparr>) k s = (got, s')"
proof -
  have run: "keychain_run h (kc\<lparr>kc_policy := p\<rparr>) = keychain_run h kc" by (intro ext) (simp add: keychain_run_def Let_def)
  have pol: "policy_ok kc" "p = LegacyRejectAmbiguous \<or> p = LegacyPlain \<or> p = LegacyBase64"
    using assms(1,2) by (auto simp: policy_ok_def LegacyRejectAmbiguous_def LegacyBase64_def LegacyPlain_def)
  have dec: "if decode_item 0 m raw = Inl (Sentinel ErrAmbiguousEncoding)
    then \<exists>rest. decode_item p m raw =
      (if p = LegacyPlain then Inr (encoded_prefix @ rest)
       else if p = LegacyBase64 then
         (case b64_decode rest of Some v \<Rightarrow> Inr v | None \<Rightarrow> Inl (WrapErr ''get keychain secret: stored value is corrupt: '' (MsgErr ''base64'')))
       else Inl (Sentinel ErrAmbiguousEncoding))
    else decode_item p m raw = decode_item 0 m raw" for m raw
    using pol(2) by (auto simp: decode_item_def cut_prefix_def has_prefix_iff Let_def LegacyRejectAmbiguous_def LegacyBase64_def
        LegacyPlain_def split: option.splits)
  have err: "keychain_error x e \<noteq> Sentinel ErrAmbiguousEncoding" for x e by (simp add: keychain_error_def)
  show ?thesis
  proof (cases "\<exists>m raw. got = decode_item 0 m raw \<and> keychain_get h (kc\<lparr>kc_policy := p\<rparr>) k s = (decode_item p m raw, s')")
    case True
    then obtain m raw where g: "got = decode_item 0 m raw" "keychain_get h (kc\<lparr>kc_policy := p\<rparr>) k s = (decode_item p m raw, s')"
      by blast
    show ?thesis using dec [where m = m and raw = raw] unfolding g(2) g(1) [symmetric] by (simp only: prod.inject simp_thms split: if_splits) auto
  next
    case False
    obtain r1 s1 where 1: "keychain_run h kc None (find_args k) s = (r1, s1)" by fastforce
    obtain r2 s2 where 2: "keychain_run h kc None (find_args k @ [''-w'']) s1 = (r2, s2)" by fastforce
    obtain r3 s3 where 3: "keychain_run h kc None (find_args k) s2 = (r3, s3)" by fastforce
    have get: "keychain_get h (kc\<lparr>kc_policy := q\<rparr>) k s =
      (case validate_key k of Some e \<Rightarrow> (Inl e, s) | None \<Rightarrow>
       (case r1 of Inl e \<Rightarrow> (Inl (keychain_error ''get keychain metadata: '' e), s1) | Inr m \<Rightarrow>
       (case r2 of Inl e \<Rightarrow> (Inl (keychain_error ''get keychain secret: '' e), s2) | Inr raw \<Rightarrow>
       (case r3 of Inl e \<Rightarrow> (Inl (keychain_error ''recheck keychain metadata: '' e), s3) | Inr m' \<Rightarrow>
         if has_encoded_kind m' \<noteq> has_encoded_kind m
         then (Inl (MsgErr ''get keychain secret: encoding changed during read''), s3)
         else (decode_item q (has_encoded_kind m) raw, s3)))))"
      if "policy_ok (kc\<lparr>kc_policy := q\<rparr>)" "keychain_run h (kc\<lparr>kc_policy := q\<rparr>) = keychain_run h kc" for q
      using that 1 2 3 by (simp add: keychain_get_def split: option.split sum.split)
    have "kc\<lparr>kc_policy := 0\<rparr> = kc" using assms(1) by (simp add: LegacyRejectAmbiguous_def)
    from get [of 0] get [OF assms(2) run] this pol(1) assms(3) False err
    have "got \<noteq> Inl (Sentinel ErrAmbiguousEncoding) \<and> keychain_get h (kc\<lparr>kc_policy := p\<rparr>) k s = (got, s')"
      by (cases "validate_key k"; cases r1; cases r2; cases r3) (auto simp: validate_key_def split: if_splits)
    then show ?thesis by simp
  qed
qed

theorem keychain_policy_conservative_witness:
  "keychain_get demo_host (demo_keychain\<lparr>kc_policy := LegacyPlain\<rparr>) demo_key Map.empty = (Inl (Sentinel ErrNotFound), Map.empty)"
proof -
  from keychain_policy_conservative [OF _ _ demo_get_absent, of LegacyPlain] show ?thesis
    by (simp add: demo_keychain_def policy_ok_def LegacyRejectAmbiguous_def LegacyPlain_def LegacyBase64_def)
qed

end
