(* ===== verification/Sts.thy ===== *)
theory Sts
  imports Ledger Audit_Log
begin

text \<open>
  The package \<open>sts\<close> (\<open>types.go\<close>, \<open>provider.go\<close>, \<open>rotate.go\<close>, \<open>health.go\<close>): the rotation of a token
  through a provider with a record in the ledger and in the audit log, and the health report of
  the ledger.  A provider is a parameter, functions over a state \<open>'s\<close> of the outside world; so is
  the context, whose \<open>Err\<close> may change from one look to the next.
\<close>

subsection \<open>The provider contract\<close>

record issue_request =
  iq_name :: string
  iq_scope :: str_map
  iq_ttl :: duration
  iq_labels :: str_map
  iq_ips :: "string list"

record sts_token =
  tk_value :: string
  tk_name :: string
  tk_id :: string
  tk_provider :: string
  tk_scope :: str_map
  tk_issued :: gotime
  tk_expires :: "gotime option"

text \<open>The context a provider is called with: the caller's, or one detached from its cancellation
  and limited to a number of seconds.\<close>

datatype call_ctx = Caller | Detached int

record 's provider =
  pr_name :: string
  pr_issue :: "issue_request \<Rightarrow> 's \<Rightarrow> (goerr + sts_token option) \<times> 's"
  pr_revoke :: "call_ctx \<Rightarrow> string \<Rightarrow> 's \<Rightarrow> goerr option \<times> 's"
  pr_list :: "'s \<Rightarrow> (goerr + sts_token option list) \<times> 's"
  pr_validate :: "string \<Rightarrow> 's \<Rightarrow> goerr option \<times> 's"

text \<open>\<open>cx_err\<close> is \<open>ctx.Err()\<close>; \<open>cx_wait d\<close> waits for a timer or the context and tells whether the
  timer came first.\<close>

record 's goctx =
  cx_err :: "'s \<Rightarrow> goerr option \<times> 's"
  cx_wait :: "duration \<Rightarrow> 's \<Rightarrow> bool \<times> 's"

subsection \<open>Rotation\<close>

record rotate_result =
  rr_old :: sts_token
  rr_new :: "sts_token option"
  rr_new_validated :: bool
  rr_new_revoked :: bool
  rr_old_revoked :: bool
  rr_ledger_recorded :: bool
  rr_old_ledger_removed :: bool
  rr_audit_logged :: bool

record rotate_config =
  rc_transition :: duration
  rc_ledger :: "string option"
  rc_audit :: "string option"
  rc_source :: string

definition zero_config :: rotate_config where
  "zero_config = \<lparr>rc_transition = 0, rc_ledger = None, rc_audit = None, rc_source = []\<rparr>"

type_synonym rotate_option = "rotate_config \<Rightarrow> rotate_config"

definition with_transition :: "duration \<Rightarrow> rotate_option" where
  "with_transition d c = c\<lparr>rc_transition := d\<rparr>"

definition with_ledger :: "string option \<Rightarrow> rotate_option" where
  "with_ledger l c = c\<lparr>rc_ledger := l\<rparr>"

definition with_audit :: "string option \<Rightarrow> string \<Rightarrow> rotate_option" where
  "with_audit l source c = c\<lparr>rc_audit := l, rc_source := source\<rparr>"

definition apply_options :: "rotate_option option list \<Rightarrow> rotate_config" where
  "apply_options opts = foldl (\<lambda>c opt. case opt of None \<Rightarrow> c | Some f \<Rightarrow> f c) zero_config opts"

definition error_text :: "goerr option \<Rightarrow> string" where
  "error_text e = (case e of None \<Rightarrow> [] | Some x \<Rightarrow> err_text x)"

type_synonym 's outcome = "(rotate_result option \<times> goerr option) \<times> 's \<times> world"

definition rotate_finish :: "rotate_config \<Rightarrow> string \<Rightarrow> rotate_result option \<Rightarrow> string \<Rightarrow> string \<Rightarrow> goerr option \<Rightarrow> 's \<Rightarrow> world \<Rightarrow> 's outcome" where
  "rotate_finish cfg pname result action name cause s w =
     (case rc_audit cfg of
        None \<Rightarrow> ((result, cause), s, w)
      | Some path \<Rightarrow>
          (case audit_log path \<lparr>ae_time = zero_time, ae_action = action, ae_provider = pname, ae_token = name,
               ae_success = (cause = None), ae_error = error_text cause, ae_source = rc_source cfg\<rparr> w of
             (Inl e, w1) \<Rightarrow>
               ((result, Some (JoinErr ((case cause of None \<Rightarrow> [] | Some c \<Rightarrow> [c]) @ [WrapErr ''rotate: audit: '' e]))), s, w1)
           | (Inr _, w1) \<Rightarrow> ((map_option (\<lambda>r. r\<lparr>rr_audit_logged := True\<rparr>) result, cause), s, w1)))"

text \<open>The steps of \<open>Rotate\<close>, each ending in the next; \<open>t\<close> is the new token, \<open>r\<close> the result so far.\<close>

definition rotate_revoke :: "'s goctx \<Rightarrow> 's provider \<Rightarrow> rotate_config \<Rightarrow> string \<Rightarrow> sts_token \<Rightarrow> rotate_result \<Rightarrow> 's \<Rightarrow> world \<Rightarrow> 's outcome" where
  "rotate_revoke cx p cfg old t r s w =
     (let finish = rotate_finish cfg (pr_name p) in
      case cx_err cx s of
        (Some e, s1) \<Rightarrow> finish (Some r) ''rotate:transition'' (tk_name t) (Some e) s1 w
      | (None, s1) \<Rightarrow>
     (case pr_revoke p Caller old s1 of
        (Some e, s2) \<Rightarrow> finish (Some r) ''rotate:revoke'' old (Some (WrapErr ''rotate: revoke old token: '' e)) s2 w
      | (None, s2) \<Rightarrow>
          (let r1 = r\<lparr>rr_old_revoked := True\<rparr> in
           case rc_ledger cfg of
             None \<Rightarrow> finish (Some r1) ''rotate'' (tk_name t) None s2 w
           | Some path \<Rightarrow>
               (case ledger_remove_by_id path (pr_name p) old w of
                  (Inl e, w1) \<Rightarrow>
                    finish (Some r1) ''rotate:record'' (tk_name t) (Some (WrapErr ''rotate: remove old ledger entry: '' e)) s2 w1
                | (Inr _, w1) \<Rightarrow>
                    finish (Some (r1\<lparr>rr_old_ledger_removed := True\<rparr>)) ''rotate'' (tk_name t) None s2 w1))))"

definition rotate_wait :: "'s goctx \<Rightarrow> 's provider \<Rightarrow> rotate_config \<Rightarrow> string \<Rightarrow> sts_token \<Rightarrow> rotate_result \<Rightarrow> 's \<Rightarrow> world \<Rightarrow> 's outcome" where
  "rotate_wait cx p cfg old t r s w =
     (if 0 <s rc_transition cfg then
        (case cx_wait cx (rc_transition cfg) s of
           (True, s1) \<Rightarrow> rotate_revoke cx p cfg old t r s1 w
         | (False, s1) \<Rightarrow>
             (case cx_err cx s1 of
                (e, s2) \<Rightarrow> rotate_finish cfg (pr_name p) (Some r) ''rotate:transition'' (tk_name t) e s2 w))
      else rotate_revoke cx p cfg old t r s w)"

definition token_metadata :: "string \<Rightarrow> sts_token \<Rightarrow> string \<Rightarrow> metadata" where
  "token_metadata pname t source =
     \<lparr>md_provider = pname, md_name = tk_name t, md_id = tk_id t, md_issued = tk_issued t, md_expires = tk_expires t,
      md_scope = tk_scope t, md_master_key = [], md_source = source\<rparr>"

definition rotate_record :: "'s goctx \<Rightarrow> 's provider \<Rightarrow> rotate_config \<Rightarrow> string \<Rightarrow> sts_token \<Rightarrow> rotate_result \<Rightarrow> 's \<Rightarrow> world \<Rightarrow> 's outcome" where
  "rotate_record cx p cfg old t r s w =
     (case rc_ledger cfg of
        None \<Rightarrow> rotate_wait cx p cfg old t r s w
      | Some path \<Rightarrow>
          (case ledger_record path (token_metadata (pr_name p) t (rc_source cfg)) w of
             (Inl e, w1) \<Rightarrow>
               rotate_finish cfg (pr_name p) (Some r) ''rotate:record'' (tk_name t) (Some (WrapErr ''rotate: record replacement: '' e)) s w1
           | (Inr _, w1) \<Rightarrow> rotate_wait cx p cfg old t (r\<lparr>rr_ledger_recorded := True\<rparr>) s w1))"

definition rotate_validate :: "'s goctx \<Rightarrow> 's provider \<Rightarrow> rotate_config \<Rightarrow> string \<Rightarrow> sts_token \<Rightarrow> rotate_result \<Rightarrow> 's \<Rightarrow> world \<Rightarrow> 's outcome" where
  "rotate_validate cx p cfg old t r s w =
     (case pr_validate p (tk_value t) s of
        (Some e, s1) \<Rightarrow>
          (case pr_revoke p (Detached 5) (tk_id t) s1 of
             (rollback, s2) \<Rightarrow>
               (let cause = WrapErr ''rotate: new token failed validation: '' e in
                rotate_finish cfg (pr_name p) (Some (r\<lparr>rr_new_revoked := (rollback = None)\<rparr>)) ''rotate:validate'' (tk_name t)
                  (Some (case rollback of
                           None \<Rightarrow> cause
                         | Some x \<Rightarrow> JoinErr [cause, WrapErr ''rotate: revoke failed replacement: '' x])) s2 w))
      | (None, s1) \<Rightarrow> rotate_record cx p cfg old t (r\<lparr>rr_new_validated := True\<rparr>) s1 w)"

definition new_result :: "string \<Rightarrow> string \<Rightarrow> sts_token option \<Rightarrow> rotate_result" where
  "new_result old pname t =
     \<lparr>rr_old = \<lparr>tk_value = [], tk_name = old, tk_id = old, tk_provider = pname, tk_scope = [], tk_issued = zero_time, tk_expires = None\<rparr>,
      rr_new = t, rr_new_validated = False, rr_new_revoked = False, rr_old_revoked = False, rr_ledger_recorded = False,
      rr_old_ledger_removed = False, rr_audit_logged = False\<rparr>"

definition usable :: "string \<Rightarrow> sts_token \<Rightarrow> bool" where
  "usable old t = (\<not> (tk_id t = [] \<or> tk_value t = [] \<or> tk_id t = old))"

definition sts_rotate :: "'s goctx \<Rightarrow> 's provider option \<Rightarrow> string \<Rightarrow> issue_request option \<Rightarrow> rotate_option option list \<Rightarrow> 's \<Rightarrow> world \<Rightarrow> 's outcome" where
  "sts_rotate cx prov old request opts s w =
     (case (prov, request) of
        (Some p, Some req) \<Rightarrow>
          if old = [] then ((None, Some (MsgErr ''rotate: provider, request and old token ID are required'')), s, w)
          else (let cfg = apply_options opts in
          if rc_transition cfg <s 0 then ((None, Some (MsgErr ''rotate: transition must not be negative'')), s, w)
          else
     (case cx_err cx s of
        (Some e, s1) \<Rightarrow> ((None, Some e), s1, w)
      | (None, s1) \<Rightarrow>
     (case pr_issue p req s1 of
        (Inl e, s2) \<Rightarrow>
          rotate_finish cfg (pr_name p) None ''rotate:issue'' (iq_name req) (Some (WrapErr ''rotate: issue new token: '' e)) s2 w
      | (Inr new, s2) \<Rightarrow>
          (let r = new_result old (pr_name p) new;
               invalid = rotate_finish cfg (pr_name p) (Some r) ''rotate:issue'' (iq_name req)
                 (Some (MsgErr ''rotate: provider returned an invalid replacement token'')) s2 w
           in case new of
                None \<Rightarrow> invalid
              | Some t \<Rightarrow> if \<not> usable old t then invalid else rotate_validate cx p cfg old t r s2 w))))
      | _ \<Rightarrow> ((None, Some (MsgErr ''rotate: provider, request and old token ID are required'')), s, w))"

subsection \<open>Health\<close>

record token_status =
  st_name :: string
  st_id :: string
  st_error :: string

record health_report =
  hr_provider :: string
  hr_unknown :: "token_status list"
  hr_valid :: "token_status list"
  hr_invalid :: "token_status list"
  hr_expired :: "token_status list"
  hr_expiring :: "token_status list"

definition health_counts :: "health_report \<Rightarrow> nat \<times> nat \<times> nat \<times> nat \<times> nat" where
  "health_counts r =
     (let valid = length (hr_valid r); invalid = length (hr_invalid r); expired = length (hr_expired r); soon = length (hr_expiring r)
      in (valid + invalid + expired + soon + length (hr_unknown r), valid, invalid, expired, soon))"

fun health_loop :: "'s goctx \<Rightarrow> duration \<Rightarrow> metadata list \<Rightarrow> health_report \<Rightarrow> 's \<Rightarrow> world \<Rightarrow> (goerr + health_report) \<times> 's \<times> world" where
  "health_loop cx within [] r s w = (Inr r, s, w)"
| "health_loop cx within (e # es) r s w =
     (case cx_err cx s of
        (Some x, s1) \<Rightarrow> (Inl x, s1, w)
      | (None, s1) \<Rightarrow>
     (let status = \<lparr>st_name = md_name e, st_id = md_id e, st_error = []\<rparr> in
      case is_expired e w of
        (True, w1) \<Rightarrow> health_loop cx within es (r\<lparr>hr_expired := hr_expired r @ [status\<lparr>st_error := ''expired''\<rparr>]\<rparr>) s1 w1
      | (False, w1) \<Rightarrow>
     (case (if 0 <s within then expires_within e within w1 else (False, w1)) of
        (True, w2) \<Rightarrow>
          health_loop cx within es (r\<lparr>hr_expiring := hr_expiring r @ [status\<lparr>st_error := ''expiring soon''\<rparr>]\<rparr>) s1 w2
      | (False, w2) \<Rightarrow>
          health_loop cx within es (r\<lparr>hr_unknown := hr_unknown r @ [status\<lparr>st_error := ''not validated''\<rparr>]\<rparr>) s1 w2)))"

definition check_health :: "'s goctx \<Rightarrow> 's provider \<Rightarrow> string \<Rightarrow> duration \<Rightarrow> 's \<Rightarrow> world \<Rightarrow> (goerr + health_report) \<times> 's \<times> world" where
  "check_health cx p path within s w =
     (case cx_err cx s of
        (Some e, s1) \<Rightarrow> (Inl e, s1, w)
      | (None, s1) \<Rightarrow>
     (case ledger_list path (pr_name p) w of
        (Inl e, w1) \<Rightarrow> (Inl e, s1, w1)
      | (Inr es, w1) \<Rightarrow>
          health_loop cx within es \<lparr>hr_provider = pr_name p, hr_unknown = [], hr_valid = [], hr_invalid = [], hr_expired = [],
            hr_expiring = []\<rparr> s1 w1))"

subsection \<open>The calls a rotation makes\<close>

text \<open>A provider that keeps a record of the calls and of its answers, beside a context that sees through it.\<close>

datatype sts_call = CallIssue "goerr + sts_token option" | CallValidate string "goerr option" | CallRevoke call_ctx string "goerr option"

definition traced :: "'s provider \<Rightarrow> ('s \<times> sts_call list) provider" where
  "traced p = \<lparr>pr_name = pr_name p,
     pr_issue = (\<lambda>q (s, l). case pr_issue p q s of (x, s1) \<Rightarrow> (x, s1, l @ [CallIssue x])),
     pr_revoke = (\<lambda>c i (s, l). case pr_revoke p c i s of (x, s1) \<Rightarrow> (x, s1, l @ [CallRevoke c i x])),
     pr_list = (\<lambda>(s, l). case pr_list p s of (x, s1) \<Rightarrow> (x, s1, l)),
     pr_validate = (\<lambda>v (s, l). case pr_validate p v s of (x, s1) \<Rightarrow> (x, s1, l @ [CallValidate v x]))\<rparr>"

definition traced_ctx :: "'s goctx \<Rightarrow> ('s \<times> sts_call list) goctx" where
  "traced_ctx cx = \<lparr>cx_err = (\<lambda>(s, l). case cx_err cx s of (x, s1) \<Rightarrow> (x, s1, l)),
     cx_wait = (\<lambda>d (s, l). case cx_wait cx d s of (x, s1) \<Rightarrow> (x, s1, l))\<rparr>"

definition untrace :: "('s \<times> sts_call list) outcome \<Rightarrow> 's outcome" where
  "untrace out = (case out of (x, (s, l), w) \<Rightarrow> (x, s, w))"

lemma traced_simps [simp]:
  "pr_name (traced p) = pr_name p"
  "pr_issue (traced p) q (s, l) = (case pr_issue p q s of (x, s1) \<Rightarrow> (x, s1, l @ [CallIssue x]))"
  "pr_revoke (traced p) c i (s, l) = (case pr_revoke p c i s of (x, s1) \<Rightarrow> (x, s1, l @ [CallRevoke c i x]))"
  "pr_validate (traced p) v (s, l) = (case pr_validate p v s of (x, s1) \<Rightarrow> (x, s1, l @ [CallValidate v x]))"
  "cx_err (traced_ctx cx) (s, l) = (case cx_err cx s of (x, s1) \<Rightarrow> (x, s1, l))"
  "cx_wait (traced_ctx cx) d (s, l) = (case cx_wait cx d s of (x, s1) \<Rightarrow> (x, s1, l))"
  by (simp_all add: traced_def traced_ctx_def)

lemma untrace_simp [simp]: "untrace (x, (s, l), w) = (x, s, w)"
  by (simp add: untrace_def)

lemma finish_traced: "rotate_finish cfg n r a m c (s, l) w = (case rotate_finish cfg n r a m c s w of (x, s1, w1) \<Rightarrow> (x, (s1, l), w1))"
  by (simp add: rotate_finish_def split: option.split sum.split prod.split)

lemma finish_untrace [simp]: "untrace (rotate_finish cfg n r a m c (s, l) w) = rotate_finish cfg n r a m c s w"
  by (simp add: finish_traced split: prod.split)

lemma revoke_untrace [simp]:
  "untrace (rotate_revoke (traced_ctx cx) (traced p) cfg old t r (s, l) w) = rotate_revoke cx p cfg old t r s w"
  by (simp add: rotate_revoke_def Let_def split: option.split sum.split prod.split)

lemma wait_untrace [simp]:
  "untrace (rotate_wait (traced_ctx cx) (traced p) cfg old t r (s, l) w) = rotate_wait cx p cfg old t r s w"
  by (simp add: rotate_wait_def split: bool.split prod.split)

lemma record_untrace [simp]:
  "untrace (rotate_record (traced_ctx cx) (traced p) cfg old t r (s, l) w) = rotate_record cx p cfg old t r s w"
  by (simp add: rotate_record_def split: option.split sum.split prod.split)

lemma validate_untrace [simp]:
  "untrace (rotate_validate (traced_ctx cx) (traced p) cfg old t r (s, l) w) = rotate_validate cx p cfg old t r s w"
  by (simp add: rotate_validate_def Let_def split: option.split prod.split)

lemma rotate_untrace:
  "untrace (sts_rotate (traced_ctx cx) (map_option traced prov) old req opts (s, l) w) = sts_rotate cx prov old req opts s w"
  by (simp add: sts_rotate_def Let_def split: option.split sum.split prod.split)

text \<open>What a rotation has done by the time it returns, read off the calls and the result.\<close>

definition lawful :: "'s goctx \<Rightarrow> bool" where
  "lawful cx = (\<forall>d s. \<not> fst (cx_wait cx d s) \<longrightarrow> fst (cx_err cx (snd (cx_wait cx d s))) \<noteq> None)"

definition finished :: "rotate_config \<Rightarrow> rotate_result \<Rightarrow> bool" where
  "finished cfg r = (rr_old_revoked r \<and> (rc_ledger cfg \<noteq> None \<longrightarrow> rr_old_ledger_removed r) \<and> (rc_audit cfg \<noteq> None \<longrightarrow> rr_audit_logged r))"

definition same_new :: "rotate_result \<Rightarrow> rotate_result \<Rightarrow> bool" where
  "same_new r r' = (rr_old r' = rr_old r \<and> rr_new r' = rr_new r \<and> rr_new_validated r' = rr_new_validated r \<and>
     rr_new_revoked r' = rr_new_revoked r)"

lemma finish_cases:
  assumes "rotate_finish cfg n res a m cause s w = ((res', cause'), s', w')"
  obtains "rc_audit cfg = None" "res' = res" "cause' = cause" "s' = s"
  | path where "rc_audit cfg = Some path" "res' = res" "cause' \<noteq> None" "s' = s"
  | path where "rc_audit cfg = Some path" "res' = map_option (\<lambda>r. r\<lparr>rr_audit_logged := True\<rparr>) res" "cause' = cause" "s' = s"
  using assms by (auto simp: rotate_finish_def split: option.splits sum.splits prod.splits)

text \<open>The steps from the wait on call the provider at most once more: to revoke the old token.\<close>

definition last_steps :: "rotate_config \<Rightarrow> string \<Rightarrow> rotate_result \<Rightarrow> sts_call list \<Rightarrow> rotate_result option \<times> goerr option \<Rightarrow> sts_call list \<Rightarrow> bool" where
  "last_steps cfg old r l out l' =
     (\<exists>r'. fst out = Some r' \<and> same_new r r' \<and> rr_ledger_recorded r' = rr_ledger_recorded r \<and>
       (snd out = None \<longleftrightarrow> finished cfg r') \<and> (rr_old_ledger_removed r' \<longrightarrow> rr_old_revoked r' \<and> rc_ledger cfg \<noteq> None) \<and>
       (l' = l \<and> \<not> rr_old_revoked r' \<or> (\<exists>b. l' = l @ [CallRevoke Caller old b] \<and> (rr_old_revoked r' \<longleftrightarrow> b = None))))"

definition fresh :: "rotate_result \<Rightarrow> bool" where
  "fresh r = (\<not> rr_old_revoked r \<and> \<not> rr_old_ledger_removed r \<and> \<not> rr_audit_logged r)"

definition steps_ok :: "rotate_config \<Rightarrow> string \<Rightarrow> rotate_result \<Rightarrow> sts_call list \<Rightarrow> ('s \<times> sts_call list) outcome \<Rightarrow> bool" where
  "steps_ok cfg old r l res = (case res of (out, (s', l'), w') \<Rightarrow> last_steps cfg old r l out l')"

lemma finish_ok:
  assumes "\<not> rr_audit_logged r" "cause = None \<longleftrightarrow> rr_old_revoked r \<and> (rc_ledger cfg \<noteq> None \<longrightarrow> rr_old_ledger_removed r)"
    and "rr_old_ledger_removed r \<longrightarrow> rr_old_revoked r \<and> rc_ledger cfg \<noteq> None" "same_new r0 r"
    and "rr_ledger_recorded r = rr_ledger_recorded r0" "l = l0 \<and> \<not> rr_old_revoked r \<or> (\<exists>b. l = l0 @ [CallRevoke Caller old b] \<and> (rr_old_revoked r \<longleftrightarrow> b = None))"
  shows "steps_ok cfg old r0 l0 (rotate_finish cfg n (Some r) a m cause (s, l) w)"
proof -
  obtain res' cause' s' w' where f: "rotate_finish cfg n (Some r) a m cause (s, l) w = ((res', cause'), s', w')"
    by (metis prod.exhaust)
  then show ?thesis
  proof (cases rule: finish_cases)
    case 1
    then show ?thesis using assms f by (simp add: steps_ok_def last_steps_def finished_def)
  next
    case (2 path)
    then show ?thesis using assms f by (simp add: steps_ok_def last_steps_def finished_def)
  next
    case (3 path)
    then show ?thesis using assms f by (simp add: steps_ok_def last_steps_def finished_def same_new_def)
  qed
qed

lemma revoke_steps: "fresh r \<Longrightarrow> steps_ok cfg old r l (rotate_revoke (traced_ctx cx) (traced p) cfg old t r (s, l) w)"
  by (auto simp: rotate_revoke_def Let_def fresh_def same_new_def intro!: finish_ok split: prod.split option.split sum.split)

lemma wait_steps:
  assumes "fresh r" "lawful cx"
  shows "steps_ok cfg old r l (rotate_wait (traced_ctx cx) (traced p) cfg old t r (s, l) w)"
proof -
  obtain b s1 where 1: "cx_wait cx (rc_transition cfg) s = (b, s1)" by fastforce
  obtain e s2 where 2: "cx_err cx s1 = (e, s2)" by fastforce
  have "\<not> b \<Longrightarrow> e \<noteq> None" using assms(2) 1 2 unfolding lawful_def by (metis fst_conv snd_conv)
  then show ?thesis
    using assms(1) 1 2
    by (auto simp: rotate_wait_def fresh_def same_new_def intro!: revoke_steps [unfolded fresh_def] finish_ok split: bool.split)
qed

text \<open>The whole protocol, for a result that is there.\<close>

definition answered :: "rotate_config \<Rightarrow> string \<Rightarrow> rotate_result \<Rightarrow> sts_call list \<Rightarrow> bool" where
  "answered cfg old r calls =
     (if case rr_new r of None \<Rightarrow> True | Some t \<Rightarrow> \<not> usable old t then
        calls = [CallIssue (Inr (rr_new r))] \<and> \<not> rr_new_validated r \<and> \<not> rr_new_revoked r \<and> \<not> rr_old_revoked r
      else \<exists>t. rr_new r = Some t \<and>
        ((\<exists>e b. calls = [CallIssue (Inr (Some t)), CallValidate (tk_value t) (Some e), CallRevoke (Detached 5) (tk_id t) b] \<and>
            \<not> rr_new_validated r \<and> (rr_new_revoked r \<longleftrightarrow> b = None) \<and> \<not> rr_old_revoked r) \<or>
         (calls = [CallIssue (Inr (Some t)), CallValidate (tk_value t) None] \<and>
            rr_new_validated r \<and> \<not> rr_new_revoked r \<and> \<not> rr_old_revoked r) \<or>
         (\<exists>b. calls = [CallIssue (Inr (Some t)), CallValidate (tk_value t) None, CallRevoke Caller old b] \<and>
            rr_new_validated r \<and> \<not> rr_new_revoked r \<and> (rr_old_revoked r \<longleftrightarrow> b = None) \<and>
            (rc_ledger cfg \<noteq> None \<longrightarrow> rr_ledger_recorded r))))"

definition protocol :: "rotate_config \<Rightarrow> string \<Rightarrow> rotate_result \<Rightarrow> goerr option \<Rightarrow> sts_call list \<Rightarrow> bool" where
  "protocol cfg old r err calls =
     (answered cfg old r calls \<and> tk_id (rr_old r) = old \<and>
      (rr_ledger_recorded r \<longrightarrow> rr_new_validated r \<and> rc_ledger cfg \<noteq> None) \<and>
      (rr_old_ledger_removed r \<longrightarrow> rr_old_revoked r \<and> rr_ledger_recorded r) \<and>
      (err = None \<longleftrightarrow> finished cfg r))"

lemma answered_logged [simp]: "answered cfg old (r\<lparr>rr_audit_logged := b\<rparr>) calls = answered cfg old r calls"
  by (simp add: answered_def)

lemma finish_protocol:
  assumes "protocol cfg old r cause calls" "cause \<noteq> None" "\<not> rr_audit_logged r"
    and "\<not> rr_old_revoked r"
    and "rotate_finish cfg n (Some r) a m cause (s, calls) w = (out, (s', calls'), w')"
  shows "\<exists>r'. fst out = Some r' \<and> rr_new r' = rr_new r \<and> protocol cfg old r' (snd out) calls'"
proof -
  obtain res' cause' where out: "out = (res', cause')" by fastforce
  from assms(5) [unfolded out] show ?thesis
  proof (cases rule: finish_cases)
    case 1
    then show ?thesis using assms by (simp add: out)
  next
    case (2 path)
    then show ?thesis using assms by (simp add: out protocol_def finished_def)
  next
    case (3 path)
    then show ?thesis using assms by (simp add: out protocol_def finished_def)
  qed
qed

lemma record_protocol:
  assumes "rotate_record (traced_ctx cx) (traced p) cfg old t r (s, [CallIssue (Inr (Some t)), CallValidate (tk_value t) None]) w = (out, (s', calls), w')"
    and "lawful cx" "fresh r" "rr_new r = Some t" "usable old t" "rr_new_validated r" "\<not> rr_new_revoked r" "\<not> rr_ledger_recorded r" "tk_id (rr_old r) = old"
  shows "\<exists>r'. fst out = Some r' \<and> rr_new r' = Some t \<and> protocol cfg old r' (snd out) calls"
proof -
  have steps: ?thesis
    if "steps_ok cfg old r1 [CallIssue (Inr (Some t)), CallValidate (tk_value t) None] (out, (s', calls), w')"
      and "r1 = r\<lparr>rr_ledger_recorded := (rc_ledger cfg \<noteq> None)\<rparr>" for r1
    using that assms(3-) by (auto simp: steps_ok_def last_steps_def protocol_def answered_def same_new_def)
  show ?thesis
  proof (cases "rc_ledger cfg")
    case None
    have "r\<lparr>rr_ledger_recorded := False\<rparr> = r" using assms(8) by simp
    then show ?thesis
      using assms(1) None steps [of r] wait_steps [OF assms(3,2), where l = "[CallIssue (Inr (Some t)), CallValidate (tk_value t) None]"]
      by (simp add: rotate_record_def) metis
  next
    case (Some path)
    obtain x w1 where x: "ledger_record path (token_metadata (pr_name p) t (rc_source cfg)) w = (x, w1)" by fastforce
    show ?thesis
    proof (cases x)
      case (Inl e)
      let ?c = "Some (WrapErr ''rotate: record replacement: '' e)"
      have "protocol cfg old r ?c [CallIssue (Inr (Some t)), CallValidate (tk_value t) None]"
        using assms(3-) by (simp add: protocol_def answered_def fresh_def finished_def)
      moreover have "rotate_finish cfg (pr_name p) (Some r) ''rotate:record'' (tk_name t) ?c
          (s, [CallIssue (Inr (Some t)), CallValidate (tk_value t) None]) w1 = (out, (s', calls), w')"
        using assms(1) Some x Inl by (simp add: rotate_record_def)
      ultimately show ?thesis using finish_protocol assms(3,4) by (metis fresh_def option.discI)
    next
      case (Inr u)
      have "fresh (r\<lparr>rr_ledger_recorded := True\<rparr>)" using assms(3) by (simp add: fresh_def)
      from wait_steps [OF this assms(2), where l = "[CallIssue (Inr (Some t)), CallValidate (tk_value t) None]"] steps show ?thesis
        using assms(1) Some x Inr by (simp add: rotate_record_def) metis
    qed
  qed
qed

lemma validate_protocol:
  assumes "rotate_validate (traced_ctx cx) (traced p) cfg old t (new_result old n (Some t)) (s, [CallIssue (Inr (Some t))]) w = (out, (s', calls), w')"
    and "lawful cx" "usable old t"
  shows "\<exists>r'. fst out = Some r' \<and> rr_new r' = Some t \<and> protocol cfg old r' (snd out) calls"
proof -
  obtain e s1 where v: "pr_validate p (tk_value t) s = (e, s1)" by fastforce
  show ?thesis
  proof (cases e)
    case None
    then show ?thesis
      using assms v by (intro record_protocol [where r = "(new_result old n (Some t))\<lparr>rr_new_validated := True\<rparr>"])
        (auto simp: rotate_validate_def new_result_def fresh_def)
  next
    case (Some x)
    obtain b s2 where b: "pr_revoke p (Detached 5) (tk_id t) s1 = (b, s2)" by fastforce
    let ?r = "(new_result old n (Some t))\<lparr>rr_new_revoked := (b = None)\<rparr>"
    let ?calls = "[CallIssue (Inr (Some t)), CallValidate (tk_value t) (Some x), CallRevoke (Detached 5) (tk_id t) b]"
    obtain c a where "rotate_finish cfg (pr_name p) (Some ?r) a (tk_name t) (Some c) (s2, ?calls) w = (out, (s', calls), w')"
      using assms(1) v b Some by (simp add: rotate_validate_def Let_def)
    moreover have "protocol cfg old ?r (Some c) ?calls"
      using assms(3) by (simp add: protocol_def answered_def new_result_def finished_def)
    moreover have "\<not> rr_audit_logged ?r" "\<not> rr_old_revoked ?r" "rr_new ?r = Some t" by (simp_all add: new_result_def)
    ultimately show ?thesis using finish_protocol by (metis option.discI)
  qed
qed

lemma rotate_protocol:
  assumes "lawful cx" "sts_rotate (traced_ctx cx) (Some (traced p)) old (Some req) opts (s, []) w = ((res, err), (s', calls), w')"
  shows "case res of None \<Rightarrow> err \<noteq> None \<and> (calls = [] \<or> (\<exists>e. calls = [CallIssue (Inl e)])) | Some r \<Rightarrow> protocol (apply_options opts) old r err calls"
proof -
  let ?cfg = "apply_options opts"
  obtain e s1 where 1: "cx_err cx s = (e, s1)" by fastforce
  obtain i s2 where 2: "pr_issue p req s1 = (i, s2)" by fastforce
  consider "res = None" "err \<noteq> None" "calls = []"
    | x where "i = Inl x" "rotate_finish ?cfg (pr_name p) None ''rotate:issue'' (iq_name req) (Some (WrapErr ''rotate: issue new token: '' x))
        (s2, [CallIssue (Inl x)]) w = ((res, err), (s', calls), w')"
    | n x where "i = Inr n" "case_option True (\<lambda>t. \<not> usable old t) n"
        "rotate_finish ?cfg (pr_name p) (Some (new_result old (pr_name p) n)) ''rotate:issue'' (iq_name req) (Some x)
          (s2, [CallIssue (Inr n)]) w = ((res, err), (s', calls), w')"
    | t where "i = Inr (Some t)" "usable old t"
        "rotate_validate (traced_ctx cx) (traced p) ?cfg old t (new_result old (pr_name p) (Some t)) (s2, [CallIssue (Inr (Some t))]) w = ((res, err), (s', calls), w')"
    using assms(2) 1 2 by (auto simp: sts_rotate_def Let_def split: if_splits option.splits sum.splits)
  then show ?thesis
  proof cases
    case (2 x)
    from 2(2) show ?thesis by (cases rule: finish_cases) (use 2(2) finish_traced [of ?cfg "pr_name p" None _ _ _ s2 "[CallIssue (Inl x)]" w] in \<open>auto split: prod.splits\<close>)
  next
    case (3 n x)
    have "protocol ?cfg old (new_result old (pr_name p) n) (Some x) [CallIssue (Inr n)]"
      using 3(2) by (simp add: protocol_def answered_def new_result_def finished_def split: option.splits)
    from finish_protocol [OF this _ _ _ 3(3)] show ?thesis by (auto simp: new_result_def)
  next
    case (4 t)
    from validate_protocol [OF 4(3) assms(1) 4(2)] show ?thesis by auto
  qed simp
qed

subsection \<open>Auditing only observes\<close>

abbreviation unaudited :: "rotate_config \<Rightarrow> rotate_config" where
  "unaudited cfg \<equiv> cfg\<lparr>rc_audit := None\<rparr>"

text \<open>The action and the token name of the entry, read off the provider's answers and the flags of the ledger.\<close>

definition rotate_stage :: "rotate_config \<Rightarrow> string \<Rightarrow> issue_request \<Rightarrow> rotate_result option \<Rightarrow> sts_call list \<Rightarrow> string \<times> string" where
  "rotate_stage cfg old req res calls =
     (let recorded = (rc_ledger cfg = None \<or> (\<exists>r. res = Some r \<and> rr_ledger_recorded r));
          removed = (rc_ledger cfg = None \<or> (\<exists>r. res = Some r \<and> rr_old_ledger_removed r))
      in case calls of
           [CallIssue (Inr (Some t)), CallValidate v answer] \<Rightarrow> (if recorded then ''rotate:transition'' else ''rotate:record'', tk_name t)
         | [CallIssue (Inr (Some t)), CallValidate v (Some e), CallRevoke c i answer] \<Rightarrow> (''rotate:validate'', tk_name t)
         | [CallIssue (Inr (Some t)), CallValidate v None, CallRevoke c i (Some e)] \<Rightarrow> (''rotate:revoke'', old)
         | [CallIssue (Inr (Some t)), CallValidate v None, CallRevoke c i None] \<Rightarrow> (if removed then ''rotate'' else ''rotate:record'', tk_name t)
         | _ \<Rightarrow> (''rotate:issue'', iq_name req))"

definition audited :: "rotate_config \<Rightarrow> string \<Rightarrow> string \<times> string \<Rightarrow> 's outcome \<Rightarrow> 's outcome" where
  "audited cfg n stage out =
     (case out of ((res, err), s, w) \<Rightarrow>
      (case rc_audit cfg of
         None \<Rightarrow> ((res, err), s, w)
       | Some log \<Rightarrow>
           (case audit_log log \<lparr>ae_time = zero_time, ae_action = fst stage, ae_provider = n, ae_token = snd stage,
                ae_success = (err = None), ae_error = error_text err, ae_source = rc_source cfg\<rparr> w of
              (Inr _, w2) \<Rightarrow> ((map_option (\<lambda>r. r\<lparr>rr_audit_logged := True\<rparr>) res, err), s, w2)
            | (Inl e, w2) \<Rightarrow>
                ((res, Some (JoinErr (case err of None \<Rightarrow> [WrapErr ''rotate: audit: '' e] | Some c \<Rightarrow> [c, WrapErr ''rotate: audit: '' e]))), s, w2))))"

lemma finish_audited: "rotate_finish cfg n res a m err s w = audited cfg n (a, m) ((res, err), s, w)"
  by (auto simp: rotate_finish_def audited_def split: option.split sum.split prod.split)

definition observes :: "rotate_config \<Rightarrow> string \<Rightarrow> string \<Rightarrow> issue_request \<Rightarrow> 's outcome \<Rightarrow> ('s \<times> sts_call list) outcome \<Rightarrow> bool" where
  "observes cfg n old req out out0 =
     (case out0 of ((res, err), (s, calls), w) \<Rightarrow> out = audited cfg n (rotate_stage cfg old req res calls) ((res, err), s, w))"

lemma finish_observes:
  assumes "rotate_stage cfg old req res calls = (a, m)"
  shows "observes cfg n old req (rotate_finish cfg n res a m err s w) (rotate_finish (unaudited cfg) n res a m err (s, calls) w)"
proof -
  have "rotate_finish (unaudited cfg) n res a m err (s, calls) w = ((res, err), (s, calls), w)" by (simp add: rotate_finish_def)
  then show ?thesis by (simp add: observes_def assms finish_audited)
qed

lemma revoke_observes:
  assumes "rc_ledger cfg = None \<or> rr_ledger_recorded r" "\<not> rr_old_ledger_removed r"
  shows "observes cfg (pr_name p) old req (rotate_revoke cx p cfg old t r s w)
    (rotate_revoke (traced_ctx cx) (traced p) (unaudited cfg) old t r (s, [CallIssue (Inr (Some t)), CallValidate v None]) w)"
  using assms by (auto simp: rotate_revoke_def Let_def rotate_stage_def intro!: finish_observes split: option.split sum.split prod.split)

lemma wait_observes:
  assumes "rc_ledger cfg = None \<or> rr_ledger_recorded r" "\<not> rr_old_ledger_removed r"
  shows "observes cfg (pr_name p) old req (rotate_wait cx p cfg old t r s w)
    (rotate_wait (traced_ctx cx) (traced p) (unaudited cfg) old t r (s, [CallIssue (Inr (Some t)), CallValidate v None]) w)"
  using assms by (auto simp: rotate_wait_def rotate_stage_def intro!: finish_observes revoke_observes split: bool.split prod.split)

lemma record_observes:
  assumes "\<not> rr_ledger_recorded r" "\<not> rr_old_ledger_removed r"
  shows "observes cfg (pr_name p) old req (rotate_record cx p cfg old t r s w)
    (rotate_record (traced_ctx cx) (traced p) (unaudited cfg) old t r (s, [CallIssue (Inr (Some t)), CallValidate v None]) w)"
  using assms by (auto simp: rotate_record_def rotate_stage_def intro!: finish_observes wait_observes split: option.split sum.split prod.split)

lemma validate_observes:
  assumes "\<not> rr_ledger_recorded r" "\<not> rr_old_ledger_removed r"
  shows "observes cfg (pr_name p) old req (rotate_validate cx p cfg old t r s w)
    (rotate_validate (traced_ctx cx) (traced p) (unaudited cfg) old t r (s, [CallIssue (Inr (Some t))]) w)"
  using assms by (auto simp: rotate_validate_def Let_def rotate_stage_def intro!: finish_observes record_observes split: option.split prod.split)

abbreviation no_audit :: "rotate_option option" where
  "no_audit \<equiv> Some (\<lambda>c. c\<lparr>rc_audit := None\<rparr>)"

definition refused :: "'s goctx \<Rightarrow> string \<Rightarrow> rotate_option option list \<Rightarrow> 's \<Rightarrow> bool" where
  "refused cx old opts s = (old = [] \<or> rc_transition (apply_options opts) <s 0 \<or> fst (cx_err cx s) \<noteq> None)"

lemma no_audit: "apply_options (opts @ [no_audit]) = unaudited (apply_options opts)"
  by (simp add: apply_options_def)

lemma rotate_observes:
  assumes "\<not> refused cx old opts s"
  shows "observes (apply_options opts) (pr_name p) old req (sts_rotate cx (Some p) old (Some req) opts s w)
    (sts_rotate (traced_ctx cx) (Some (traced p)) old (Some req) (opts @ [no_audit]) (s, []) w)"
  using assms unfolding sts_rotate_def no_audit refused_def
  by (auto simp: Let_def rotate_stage_def new_result_def intro!: finish_observes validate_observes split: option.split sum.split prod.split)

lemma rotate_refused:
  assumes "refused cx old opts s"
  shows "\<exists>e s'. sts_rotate cx (Some p) old (Some req) opts s w = ((None, Some e), s', w) \<and>
    sts_rotate (traced_ctx cx) (Some (traced p)) old (Some req) (opts @ [no_audit]) (s, l) w = ((None, Some e), (s', l), w)"
proof -
  obtain x s1 where "cx_err cx s = (x, s1)" by fastforce
  then show ?thesis using assms by (cases x) (auto simp: sts_rotate_def no_audit refused_def Let_def)
qed

subsection \<open>The ledger under a rotation\<close>

definition ledger_after :: "string \<Rightarrow> string \<Rightarrow> string \<Rightarrow> rotate_result \<Rightarrow> metadata list \<Rightarrow> metadata list" where
  "ledger_after pname old source r es =
     (let es1 = (case rr_new r of Some t \<Rightarrow> if rr_ledger_recorded r then es @ [token_metadata pname t source] else es | None \<Rightarrow> es)
      in if rr_old_ledger_removed r then filter (\<lambda>e. \<not> (md_provider e = pname \<and> md_id e = old)) es1 else es1)"

lemma finish_unaudited: "rc_audit cfg = None \<Longrightarrow> rotate_finish cfg n r a m c s w = ((r, c), s, w)"
  by (simp add: rotate_finish_def)

lemma revoke_new:
  "rotate_revoke cx p cfg old t r s w = ((Some r', err), s', w') \<Longrightarrow> rc_audit cfg = None \<Longrightarrow> rr_new r' = rr_new r"
  by (auto simp: rotate_revoke_def Let_def finish_unaudited split: prod.splits option.splits sum.splits)

lemma revoke_ledger:
  assumes "rotate_revoke cx p cfg old t r s w = ((Some r', err), s', w')" "rc_audit cfg = None" "rc_ledger cfg = Some path"
    and "path_ok path i b w" "ledger_state path i w = Some es" "good_entries es" "fresh r"
  shows "path_ok path i b w' \<and> rr_new r' = rr_new r \<and> rr_ledger_recorded r' = rr_ledger_recorded r \<and>
    ledger_state path i w' =
      Some (if rr_old_ledger_removed r' then filter (\<lambda>e. \<not> (md_provider e = pr_name p \<and> md_id e = old)) es else es)"
proof -
  obtain x w1 where x: "ledger_remove_by_id path (pr_name p) old w = (x, w1)" by fastforce
  note law = file_ledger.drop_law [OF assms(4) x]
  show ?thesis
    using assms x law
    by (auto simp: rotate_revoke_def Let_def finish_unaudited fresh_def split: prod.splits option.splits sum.splits)
qed

lemma wait_shape:
  obtains s1 where "rotate_wait cx p cfg old t r s w = rotate_revoke cx p cfg old t r s1 w"
  | e s1 where "rotate_wait cx p cfg old t r s w = rotate_finish cfg (pr_name p) (Some r) ''rotate:transition'' (tk_name t) e s1 w"
proof (cases "0 <s rc_transition cfg")
  case True
  obtain v s1 where 1: "cx_wait cx (rc_transition cfg) s = (v, s1)" by fastforce
  obtain e s2 where 2: "cx_err cx s1 = (e, s2)" by fastforce
  show ?thesis
  proof (cases v)
    case v: True
    have "rotate_wait cx p cfg old t r s w = rotate_revoke cx p cfg old t r s1 w" using True 1 v by (simp add: rotate_wait_def)
    then show ?thesis by (rule that(1))
  next
    case v: False
    have "rotate_wait cx p cfg old t r s w = rotate_finish cfg (pr_name p) (Some r) ''rotate:transition'' (tk_name t) e s2 w"
      using True 1 2 v by (simp add: rotate_wait_def)
    then show ?thesis by (rule that(2))
  qed
next
  case False
  then have "rotate_wait cx p cfg old t r s w = rotate_revoke cx p cfg old t r s w" by (simp add: rotate_wait_def)
  then show ?thesis by (rule that(1))
qed

lemma wait_new:
  assumes "rotate_wait cx p cfg old t r s w = ((Some r', err), s', w')" "rc_audit cfg = None"
  shows "rr_new r' = rr_new r"
proof (rule wait_shape [of cx p cfg old t r s w])
  fix s1 assume "rotate_wait cx p cfg old t r s w = rotate_revoke cx p cfg old t r s1 w"
  with assms(1) have "rotate_revoke cx p cfg old t r s1 w = ((Some r', err), s', w')" by simp
  then show ?thesis by (rule revoke_new [OF _ assms(2)])
qed (use assms in \<open>simp add: finish_unaudited\<close>)

lemma record_new:
  "rotate_record cx p cfg old t r s w = ((Some r', err), s', w') \<Longrightarrow> rc_audit cfg = None \<Longrightarrow> rr_new r' = rr_new r"
  by (auto simp: rotate_record_def finish_unaudited split: option.splits sum.splits prod.splits dest: wait_new)

lemma wait_ledger:
  assumes "rotate_wait cx p cfg old t r s w = ((Some r', err), s', w')" "rc_audit cfg = None" "rc_ledger cfg = Some path"
    and "path_ok path i b w" "ledger_state path i w = Some es" "good_entries es" "fresh r"
  shows "path_ok path i b w' \<and> rr_new r' = rr_new r \<and> rr_ledger_recorded r' = rr_ledger_recorded r \<and>
    ledger_state path i w' =
      Some (if rr_old_ledger_removed r' then filter (\<lambda>e. \<not> (md_provider e = pr_name p \<and> md_id e = old)) es else es)"
proof -
  consider s1 where "rotate_revoke cx p cfg old t r s1 w = ((Some r', err), s', w')"
    | e s1 where "rotate_finish cfg (pr_name p) (Some r) ''rotate:transition'' (tk_name t) e s1 w = ((Some r', err), s', w')"
    using wait_shape assms(1) by metis
  then show ?thesis
  proof cases
    case (1 s1)
    then show ?thesis by (rule revoke_ledger [OF _ assms(2-)])
  next
    case (2 e s1)
    then show ?thesis using assms by (auto simp: finish_unaudited fresh_def)
  qed
qed

lemma record_ledger:
  assumes "rotate_record cx p cfg old t r s w = ((Some r', err), s', w')" "rc_audit cfg = None" "rc_ledger cfg = Some path"
    and "path_ok path i b w" "ledger_state path i w = Some es" "good_entries (es @ [token_metadata (pr_name p) t (rc_source cfg)])"
    and "fresh r" "\<not> rr_ledger_recorded r" "rr_new r = Some t"
  shows "path_ok path i b w' \<and> ledger_state path i w' = Some (ledger_after (pr_name p) old (rc_source cfg) r' es)"
proof -
  obtain x w1 where x: "ledger_record path (token_metadata (pr_name p) t (rc_source cfg)) w = (x, w1)" by fastforce
  note law = file_ledger.record_law [OF assms(4) x]
  show ?thesis
  proof (cases x)
    case (Inl e)
    then show ?thesis
      using assms x law by (auto simp: rotate_record_def finish_unaudited ledger_after_def fresh_def)
  next
    case (Inr u)
    let ?es = "es @ [token_metadata (pr_name p) t (rc_source cfg)]"
    have "ledger_state path i w1 = Some ?es" "path_ok path i b w1" using law Inr assms(5,6) by auto
    moreover have "rotate_wait cx p cfg old t (r\<lparr>rr_ledger_recorded := True\<rparr>) s w1 = ((Some r', err), s', w')"
      using assms(1,3) x Inr by (simp add: rotate_record_def)
    moreover have "fresh (r\<lparr>rr_ledger_recorded := True\<rparr>)" using assms(7) by (simp add: fresh_def)
    ultimately show ?thesis
      using wait_ledger [of cx p cfg old t "r\<lparr>rr_ledger_recorded := True\<rparr>" s w1 r' err s' w' path i b ?es] assms(2,3,6,9)
      by (simp add: ledger_after_def)
  qed
qed

lemma rotate_reaches:
  assumes "sts_rotate cx (Some p) old (Some req) opts s w = ((Some r, err), s', w')" "rc_audit (apply_options opts) = None"
  obtains "w' = w" "\<not> rr_ledger_recorded r" "\<not> rr_old_ledger_removed r"
  | t s3 where "rotate_record cx p (apply_options opts) old t ((new_result old (pr_name p) (Some t))\<lparr>rr_new_validated := True\<rparr>) s3 w =
      ((Some r, err), s', w')"
proof -
  let ?cfg = "apply_options opts"
  note F = finish_unaudited [OF assms(2)]
  obtain e s1 where 1: "cx_err cx s = (e, s1)" by fastforce
  obtain n s2 where 2: "pr_issue p req s1 = (n, s2)" by fastforce
  show thesis
  proof (cases "\<exists>t. rotate_validate cx p ?cfg old t (new_result old (pr_name p) (Some t)) s2 w = ((Some r, err), s', w')")
    case True
    then obtain t where t: "rotate_validate cx p ?cfg old t (new_result old (pr_name p) (Some t)) s2 w = ((Some r, err), s', w')" by blast
    obtain v s3 where v: "pr_validate p (tk_value t) s2 = (v, s3)" by fastforce
    show thesis
    proof (cases v)
      case None
      then show thesis using t v that(2) by (simp add: rotate_validate_def)
    next
      case (Some x)
      then show thesis using t v that(1) by (auto simp: rotate_validate_def Let_def F new_result_def split: prod.splits)
    qed
  next
    case False
    then have "w' = w \<and> \<not> rr_ledger_recorded r \<and> \<not> rr_old_ledger_removed r"
      using assms(1) 1 2 by (auto simp: sts_rotate_def Let_def F new_result_def split: if_splits option.splits sum.splits)
    then show thesis using that(1) by blast
  qed
qed

lemma rotate_ledger_unaudited:
  assumes "sts_rotate cx (Some p) old (Some req) opts s w = ((Some r, err), s', w')"
    and "rc_audit (apply_options opts) = None" "rc_ledger (apply_options opts) = Some path"
    and "path_ok path i b w" "ledger_state path i w = Some es" "good_entries es"
    and "\<And>t. rr_new r = Some t \<Longrightarrow> good_metadata (token_metadata (pr_name p) t (rc_source (apply_options opts)))"
  shows "path_ok path i b w' \<and>
    ledger_state path i w' = Some (ledger_after (pr_name p) old (rc_source (apply_options opts)) r es)"
proof (rule rotate_reaches [OF assms(1,2)])
  let ?cfg = "apply_options opts"
  assume "w' = w" "\<not> rr_ledger_recorded r" "\<not> rr_old_ledger_removed r"
  then show ?thesis using assms(4,5) by (simp add: ledger_after_def split: option.split)
next
  fix t s3
  assume t: "rotate_record cx p (apply_options opts) old t ((new_result old (pr_name p) (Some t))\<lparr>rr_new_validated := True\<rparr>) s3 w =
      ((Some r, err), s', w')"
  have "rr_new r = Some t" using record_new [OF t assms(2)] by (simp add: new_result_def)
  then have "good_entries (es @ [token_metadata (pr_name p) t (rc_source (apply_options opts))])"
    using assms(6,7) by (simp add: good_entries_def)
  from record_ledger [OF t assms(2-5) this] show ?thesis by (simp add: fresh_def new_result_def)
qed

text \<open>All a rotation without an audit log does to the world are the two operations on the ledger.\<close>

definition ledger_keeps :: "(world \<Rightarrow> bool) \<Rightarrow> rotate_config \<Rightarrow> string \<Rightarrow> string \<Rightarrow> bool" where
  "ledger_keeps P cfg n old = (\<forall>path v x v'. rc_ledger cfg = Some path \<longrightarrow> P v \<longrightarrow>
     (ledger_remove_by_id path n old v = (x, v') \<or> (\<exists>m. ledger_record path m v = (x, v'))) \<longrightarrow> P v')"

lemma ledger_keepsD:
  assumes "ledger_keeps P cfg n old" "rc_ledger cfg = Some path" "P v"
  shows "ledger_remove_by_id path n old v = (x, v') \<Longrightarrow> P v'" "ledger_record path m v = (x, v') \<Longrightarrow> P v'"
  using assms unfolding ledger_keeps_def by blast+

lemma revoke_keeps:
  assumes "rotate_revoke cx p cfg old t r s w = (out, s', w')" "rc_audit cfg = None" "P w" "ledger_keeps P cfg (pr_name p) old"
  shows "P w'"
  using assms(1-3)
  by (auto simp: rotate_revoke_def Let_def finish_unaudited split: prod.splits option.splits sum.splits dest: ledger_keepsD(1) [OF assms(4)])

lemma wait_keeps:
  assumes "rotate_wait cx p cfg old t r s w = (out, s', w')" "rc_audit cfg = None" "P w" "ledger_keeps P cfg (pr_name p) old"
  shows "P w'"
proof (rule wait_shape [of cx p cfg old t r s w])
  fix s1 assume "rotate_wait cx p cfg old t r s w = rotate_revoke cx p cfg old t r s1 w"
  then show ?thesis using revoke_keeps [of cx p cfg old t r s1 w out s' w' P] assms by simp
qed (use assms in \<open>simp add: finish_unaudited\<close>)

lemma record_keeps:
  assumes "rotate_record cx p cfg old t r s w = (out, s', w')" "rc_audit cfg = None" "P w" "ledger_keeps P cfg (pr_name p) old"
  shows "P w'"
proof (cases "rc_ledger cfg")
  case None
  then have "rotate_wait cx p cfg old t r s w = (out, s', w')" using assms(1) by (simp add: rotate_record_def)
  then show ?thesis by (rule wait_keeps [OF _ assms(2-4)])
next
  case (Some path)
  obtain x w1 where x: "ledger_record path (token_metadata (pr_name p) t (rc_source cfg)) w = (x, w1)" by fastforce
  have P: "P w1" by (rule ledger_keepsD(2) [OF assms(4) Some assms(3) x])
  show ?thesis
  proof (cases x)
    case (Inl e)
    then show ?thesis using assms(1,2) Some x P by (simp add: rotate_record_def finish_unaudited)
  next
    case (Inr u)
    then have "rotate_wait cx p cfg old t (r\<lparr>rr_ledger_recorded := True\<rparr>) s w1 = (out, s', w')"
      using assms(1) Some x by (simp add: rotate_record_def)
    then show ?thesis by (rule wait_keeps [OF _ assms(2) P assms(4)])
  qed
qed

lemma ledger_beside:
  assumes "beside path log i b w"
  shows "ledger_record path m w = (x, w') \<Longrightarrow> beside path log i b w' \<and> file_content log i w' = file_content log i w"
    "ledger_remove_by_id path n old w = (x, w') \<Longrightarrow> beside path log i b w' \<and> file_content log i w' = file_content log i w"
proof -
  obtain l w1 where l: "load_locked path w = (l, w1)" by fastforce
  obtain d where "read_secure path w = (d, w1)"
    using l by (auto simp: load_locked_def split: prod.splits sum.splits option.splits if_splits)
  from read_beside [OF assms this] have w1: "beside path log i b w1" "file_content log i w1 = file_content log i w"
    by (simp_all add: file_content_file)
  have sv: "beside path log i b w' \<and> file_content log i w' = file_content log i w" if "save_locked path es w1 = (x, w')" for es
    using that w1 write_beside [OF w1(1), of _ x w'] by (auto simp: save_locked_def split: option.splits)
  show "ledger_record path m w = (x, w') \<Longrightarrow> beside path log i b w' \<and> file_content log i w' = file_content log i w"
    using l w1 sv by (auto simp: ledger_record_def split: sum.splits)
  show "ledger_remove_by_id path n old w = (x, w') \<Longrightarrow> beside path log i b w' \<and> file_content log i w' = file_content log i w"
    using l w1 sv assms by (auto simp: ledger_remove_by_id_def ledger_remove_where_def split: sum.splits if_splits)
qed

lemma rotate_beside:
  assumes "sts_rotate cx (Some p) old (Some req) opts s w = ((Some r, err), s', w')"
    and "rc_audit (apply_options opts) = None" "rc_ledger (apply_options opts) = Some path" "beside path log i b w"
  shows "beside path log i b w' \<and> file_content log i w' = file_content log i w"
proof (rule rotate_reaches [OF assms(1,2)])
  fix t s3
  assume t: "rotate_record cx p (apply_options opts) old t ((new_result old (pr_name p) (Some t))\<lparr>rr_new_validated := True\<rparr>) s3 w =
      ((Some r, err), s', w')"
  let ?P = "\<lambda>v. beside path log i b v \<and> file_content log i v = file_content log i w"
  have "ledger_keeps ?P (apply_options opts) (pr_name p) old"
    unfolding ledger_keeps_def using assms(3) ledger_beside by (metis option.inject)
  then show ?thesis using record_keeps [where P = ?P, OF t assms(2)] assms(4) by simp
qed (use assms(4) in simp)

text \<open>What \<open>Log\<close> writes starts with a brace, torn or not, and is no ledger; nor is an empty file.\<close>

lemma log_no_ledger: "parse_ledger [] = None" "parse_ledger (CHR ''{'' # s) = None"
proof -
  show "parse_ledger [] = None" by (simp add: parse_ledger_def json_parse_def skip_ws_def)
  have "v \<in> range JObj" if "parse_val (Suc n) (CHR ''{'' # s) = Some (v, y)" for v y n
    using that by (auto simp: skip_ws_def is_ws_def simp del: parse_members.simps split: list.splits if_splits)
  then have "v \<in> range JObj" if "json_parse (CHR ''{'' # s) = Some v" for v
    using that unfolding json_parse_def add_2_eq_Suc' by (auto simp del: parse_val.simps split: option.splits if_splits)
  then show "parse_ledger (CHR ''{'' # s) = None"
    by (auto simp: parse_ledger_def split: option.split)
qed

text \<open>The audited rotation is the other one and one call of \<open>Log\<close>.\<close>

lemma rotate_then_log:
  assumes "sts_rotate cx (Some p) old (Some req) opts s w = ((Some r, err), s', w')" "rc_audit (apply_options opts) = Some log"
  obtains r0 err0 w0 e x where "sts_rotate cx (Some p) old (Some req) (opts @ [no_audit]) s w = ((Some r0, err0), s', w0)"
    "audit_log log e w0 = (x, w')" "r\<lparr>rr_audit_logged := b\<rparr> = r0\<lparr>rr_audit_logged := b\<rparr>"
proof -
  have nr: "\<not> refused cx old opts s" using rotate_refused [of cx old opts s p req w "[]"] assms(1) by auto
  obtain res0 err0 s0 calls w0 where out0:
    "sts_rotate (traced_ctx cx) (Some (traced p)) old (Some req) (opts @ [no_audit]) (s, []) w = ((res0, err0), (s0, calls), w0)"
    by (metis prod.exhaust)
  have run: "sts_rotate cx (Some p) old (Some req) (opts @ [no_audit]) s w = ((res0, err0), s0, w0)"
    using rotate_untrace [of cx "Some p" old "Some req" "opts @ [no_audit]" s "[]" w] out0 by simp
  obtain stage where "((Some r, err), s', w') = audited (apply_options opts) (pr_name p) stage ((res0, err0), s0, w0)"
    using rotate_observes [OF nr, of p req w] out0 assms(1) by (simp add: observes_def)
  then obtain e x where x: "audit_log log e w0 = (x, w')" and s0: "s0 = s'"
    and r: "res0 = Some r \<or> Some r = map_option (\<lambda>r. r\<lparr>rr_audit_logged := True\<rparr>) res0"
    using assms(2) by (auto simp: audited_def split: prod.splits sum.splits)
  then obtain r0 where "res0 = Some r0" "r\<lparr>rr_audit_logged := b\<rparr> = r0\<lparr>rr_audit_logged := b\<rparr>" by (cases res0) auto
  then show thesis using that [of r0 err0 w0 e x] run x s0 by simp
qed

subsection \<open>An undisturbed rotation\<close>

lemma record_quiet:
  assumes "path_ok path i False w" "ledger_state path i w = Some es" "storable (es @ [m])" "ledger_record path m w = (res, w')"
  shows "res = Inr ()" "path_ok path i False w'" "ledger_state path i w' = Some (es @ [m])"
proof -
  obtain l w1 where l: "load_locked path w = (l, w1)" by fastforce
  note L = load_quiet [OF assms(1,2) l]
  have "save_locked path (es @ [m]) w1 = (res, w')" using assms(4) l L(1) by (simp add: ledger_record_def)
  from save_quiet [OF L(2) assms(3) this] show "res = Inr ()" "path_ok path i False w'" "ledger_state path i w' = Some (es @ [m])" by simp_all
qed

lemma remove_quiet:
  assumes "path_ok path i False w" "ledger_state path i w = Some es" "storable es" "old \<noteq> []" "ledger_remove_by_id path n old w = (res, w')"
  shows "res = Inr ()" "ledger_state path i w' = Some (filter (\<lambda>e. \<not> (md_provider e = n \<and> md_id e = old)) es)"
proof -
  obtain l w1 where l: "load_locked path w = (l, w1)" by fastforce
  note L = load_quiet [OF assms(1,2) l]
  have "save_locked path (filter (\<lambda>e. \<not> (md_provider e = n \<and> md_id e = old)) es) w1 = (res, w')"
    using assms(4,5) l L(1) by (simp add: ledger_remove_by_id_def ledger_remove_where_def)
  from save_quiet [OF L(2) storable_filter [OF assms(3)] this]
  show "res = Inr ()" "ledger_state path i w' = Some (filter (\<lambda>e. \<not> (md_provider e = n \<and> md_id e = old)) es)" by simp_all
qed

subsection \<open>Health without disturbance\<close>

definition status_of :: "string \<Rightarrow> metadata \<Rightarrow> token_status" where
  "status_of verdict e = \<lparr>st_name = md_name e, st_id = md_id e, st_error = verdict\<rparr>"

definition soon_at :: "gotime \<Rightarrow> duration \<Rightarrow> metadata \<Rightarrow> bool" where
  "soon_at t d e = (\<not> expired_at t e \<and> 0 <s d \<and> expired_at (t_add t d) e)"

lemma health_loop_still:
  assumes "ticks w = []" "\<And>s. fst (cx_err cx s) = None"
  shows "\<exists>s'. health_loop cx d es r s w =
    (Inr (r\<lparr>hr_expired := hr_expired r @ map (status_of ''expired'') (filter (expired_at (now w)) es),
            hr_expiring := hr_expiring r @ map (status_of ''expiring soon'') (filter (soon_at (now w) d) es),
            hr_unknown := hr_unknown r @ map (status_of ''not validated'')
              (filter (\<lambda>e. \<not> expired_at (now w) e \<and> \<not> soon_at (now w) d e) es)\<rparr>), s', w)"
proof (induction es arbitrary: r s)
  case (Cons e es)
  obtain s1 where s1: "cx_err cx s = (None, s1)" using assms(2) [of s] by (metis prod.collapse)
  let ?r = "if expired_at (now w) e then r\<lparr>hr_expired := hr_expired r @ [status_of ''expired'' e]\<rparr>
       else if soon_at (now w) d e then r\<lparr>hr_expiring := hr_expiring r @ [status_of ''expiring soon'' e]\<rparr>
       else r\<lparr>hr_unknown := hr_unknown r @ [status_of ''not validated'' e]\<rparr>"
  have "health_loop cx d (e # es) r s w = health_loop cx d es ?r s1 w"
    using s1 by (simp add: is_expired_still [OF assms(1)] expires_within_still [OF assms(1)] soon_at_def status_of_def)
  moreover have "\<not> soon_at (now w) d e" if "expired_at (now w) e" using that by (simp add: soon_at_def)
  ultimately show ?case
    using Cons.IH [of ?r s1] by (cases "expired_at (now w) e"; cases "soon_at (now w) d e") simp_all
qed simp

subsection \<open>An example provider\<close>

definition demo_token :: sts_token where
  "demo_token = \<lparr>tk_value = ''v'', tk_name = ''n'', tk_id = ''b'', tk_provider = ''p'', tk_scope = [], tk_issued = zero_time, tk_expires = None\<rparr>"

definition demo_provider :: "unit provider" where
  "demo_provider = \<lparr>pr_name = ''p'', pr_issue = (\<lambda>q s. (Inr (Some demo_token), s)), pr_revoke = (\<lambda>c i s. (None, s)),
     pr_list = (\<lambda>s. (Inr [], s)), pr_validate = (\<lambda>v s. (None, s))\<rparr>"

definition demo_ctx :: "'s goctx" where
  "demo_ctx = \<lparr>cx_err = (\<lambda>s. (None, s)), cx_wait = (\<lambda>d s. (True, s))\<rparr>"

definition demo_request :: issue_request where
  "demo_request = \<lparr>iq_name = ''n'', iq_scope = [], iq_ttl = 0, iq_labels = [], iq_ips = []\<rparr>"

text \<open>A provider that validates nothing and revokes nothing.\<close>

definition refusing_provider :: "unit provider" where
  "refusing_provider = demo_provider\<lparr>pr_revoke := (\<lambda>c i s. (Some (MsgErr ''down''), s)), pr_validate := (\<lambda>v s. (Some (MsgErr ''bad''), s))\<rparr>"

definition demo_calls :: "sts_call list" where
  "demo_calls = [CallIssue (Inr (Some demo_token)), CallValidate ''v'' None, CallRevoke Caller ''a'' None]"

definition refused_calls :: "sts_call list" where
  "refused_calls = [CallIssue (Inr (Some demo_token)), CallValidate ''v'' (Some (MsgErr ''bad'')), CallRevoke (Detached 5) ''b'' (Some (MsgErr ''down''))]"

lemmas demo_sts = demo_token_def demo_provider_def demo_ctx_def demo_request_def

lemma demo_lawful: "lawful demo_ctx"
  by (simp add: lawful_def demo_ctx_def)

lemma demo_token_storable: "storable [token_metadata ''p'' demo_token src]" if "valid_utf8 src"
proof -
  have "marshal_time zero_time \<noteq> None" by (rule demo_times)
  then show ?thesis
    using that by (auto simp: storable_def good_entries_def good_metadata_def token_metadata_def demo_token_def map_ok_def enc_metadata_def
        enc_time_def enc_time_ptr_def split: option.splits)
qed

lemma demo_validated:
  "rc_transition cfg = 0 \<Longrightarrow> \<exists>r. fst (fst (rotate_validate demo_ctx demo_provider cfg ''a'' demo_token q () w)) = Some r \<and> rr_new r = rr_new q"
  by (simp add: rotate_validate_def rotate_record_def rotate_wait_def rotate_revoke_def rotate_finish_def demo_ctx_def demo_provider_def Let_def
      split: option.split sum.split prod.split)

text \<open>A log beside the ledger of the example.\<close>

lemma demo_log_beside:
  "path_ok ''/h/a.log'' 5 True (demo_world [Fault EIO 0])" "path_dir ''/h/a.log'' = path_dir ''/h/t.json''"
  "path_base ''/h/a.log'' \<noteq> path_base ''/h/t.json''" "parse_ledger (text_of (file_content ''/h/a.log'' 5 (demo_world [Fault EIO 0]))) = None"
proof -
  have p: "path_dir ''/h/a.log'' = ''/h''" "path_base ''/h/a.log'' = ''a.log''"
    by (simp_all add: path_dir_def path_base_def upto_last_slash_def after_last_slash_def Let_def clean_def is_abs_def has_prefix_def)
  show "path_dir ''/h/a.log'' = path_dir ''/h/t.json''" "path_base ''/h/a.log'' \<noteq> path_base ''/h/t.json''"
    by (simp_all add: p demo_dir)
  show "path_ok ''/h/a.log'' 5 True (demo_world [Fault EIO 0])"
    unfolding path_ok_def p(1) by (rule demo_ok [OF lone_valid]) (simp_all add: p plain_name_def has_prefix_def temp_prefix_def)
  show "parse_ledger (text_of (file_content ''/h/a.log'' 5 (demo_world [Fault EIO 0]))) = None"
    by (simp add: file_content_def path_view_def demo_view log_no_ledger)
qed

text \<open>The entry a rotation leaves in the log.\<close>

definition demo_rotation :: audit_entry where
  "demo_rotation = \<lparr>ae_time = \<lparr>tns = 0, tzone = 0\<rparr>, ae_action = ''rotate'', ae_provider = ''p'', ae_token = ''n'', ae_success = True,
     ae_error = [], ae_source = ''cli''\<rparr>"

lemma demo_rotation_text:
  obtains j where "enc_audit demo_rotation = Some j" "length (print_compact j) \<le> max_entry_size"
    "log_text [demo_rotation] = Some (print_compact j @ [CHR 0x0A])"
proof -
  have g: "good_audit demo_rotation" by (simp add: good_audit_def demo_rotation_def valid_utf8_def utf8_len_ascii)
  have "marshal_time \<lparr>tns = 0, tzone = 0\<rparr> \<noteq> None"
    by (simp add: marshal_time_def local_day_def civil_of_days_def year_of_def epoch_day_def days_before_def split_beta)
  then obtain m where m: "marshal_time \<lparr>tns = 0, tzone = 0\<rparr> = Some m" by blast
  have esc: "escape ''rotate'' = ''rotate''" "escape ''p'' = ''p''" "escape ''n'' = ''n''" "escape ''cli'' = ''cli''"
    by (simp_all add: esc_ascii_def)
  obtain j where j: "enc_audit demo_rotation = Some j" "length (print_compact j) \<le> max_entry_size"
    using marshal_short [OF m]
    by (simp add: enc_audit_def enc_time_def demo_rotation_def m print_compact_def quoted_def enc_string_def
        esc max_entry_size_def omit_def del: escape.simps(2))
  then show thesis using g that by simp
qed

lemma demo_rotation_logged:
  assumes "audit_log ''/h/t.json'' (demo_rotation\<lparr>ae_time := zero_time\<rparr>) (demo_world []) = (x, w)"
  shows "x = Inr ()" "log_text [demo_rotation] = Some (text_of (file_content ''/h/t.json'' 5 w))"
proof -
  obtain j where j: "enc_audit demo_rotation = Some j" "length (print_compact j) \<le> max_entry_size"
    "log_text [demo_rotation] = Some (print_compact j @ [CHR 0x0A])" by (rule demo_rotation_text)
  have st: "stamp (demo_rotation\<lparr>ae_time := zero_time\<rparr>) (demo_world []) = (demo_rotation, demo_world [])"
    by (simp add: stamp_def is_zero_time_def time_now_def demo_rotation_def t_utc_def zero_time_def)
  have ok: "log_ok ''/h/t.json'' 5 False (demo_world [])" by (rule demo_log_ok) simp
  note law = audit_log_law [OF ok assms, unfolded st fst_conv demo_log_content]
  show "x = Inr ()" using law j by (cases x) auto
  then show "log_text [demo_rotation] = Some (text_of (file_content ''/h/t.json'' 5 w))" using law j by auto
qed

subsection \<open>Properties\<close>

text \<open>C4: the protocol of a rotation, by the provider's own answers.  Whatever the provider answers,
  wherever the context is cancelled and whichever system call fails, the calls are an issue, then a
  validation of the issued token, then at most one revocation.  \<open>NewValidated\<close> is set exactly
  when \<open>Validate\<close> answered nil.  When it answered an error the new token is revoked, under a context of its own,
  \<open>NewRevoked\<close> is set exactly when that revocation answered nil, and the old token is not touched.  The old token is revoked
  only after \<open>Validate\<close> answered nil and, with a ledger, the new one was recorded, and \<open>OldRevoked\<close> is set exactly when that
  revocation answered nil.  The error is nil exactly when every step is done; and there is a result, with the
  token \<open>Issue\<close> answered, exactly when \<open>Issue\<close> was called and answered no error.\<close>

theorem rotate_call_protocol:
  assumes "lawful cx" "sts_rotate (traced_ctx cx) (Some (traced p)) old (Some req) opts (s, []) w = ((res, err), (s', calls), w')"
  shows "sts_rotate cx (Some p) old (Some req) opts s w = ((res, err), s', w') \<and>
    (case res of None \<Rightarrow> err \<noteq> None \<and> (calls = [] \<or> (\<exists>e. calls = [CallIssue (Inl e)]))
     | Some r \<Rightarrow> protocol (apply_options opts) old r err calls)"
  using rotate_protocol [OF assms] rotate_untrace [of cx "Some p" old "Some req" opts s "[]" w] assms(2) by simp

theorem rotate_call_protocol_witness:
  "(\<exists>r. sts_rotate (traced_ctx demo_ctx) (Some (traced demo_provider)) ''a'' (Some demo_request) [] ((), []) (demo_world []) =
      ((Some r, None), ((), demo_calls), demo_world []) \<and> protocol zero_config ''a'' r None demo_calls) \<and>
   (\<exists>r e. sts_rotate (traced_ctx demo_ctx) (Some (traced refusing_provider)) ''a'' (Some demo_request) [] ((), []) (demo_world []) =
      ((Some r, Some e), ((), refused_calls), demo_world []) \<and> protocol zero_config ''a'' r (Some e) refused_calls \<and> \<not> rr_new_revoked r)"
proof -
  note defs = sts_rotate_def apply_options_def zero_config_def demo_sts usable_def rotate_validate_def rotate_record_def rotate_wait_def
    rotate_revoke_def rotate_finish_def Let_def refusing_provider_def demo_calls_def refused_calls_def new_result_def
  have "\<exists>r. sts_rotate (traced_ctx demo_ctx) (Some (traced demo_provider)) ''a'' (Some demo_request) [] ((), []) (demo_world []) =
      ((Some r, None), ((), demo_calls), demo_world [])"
    by (simp add: defs)
  then obtain r where r: "sts_rotate (traced_ctx demo_ctx) (Some (traced demo_provider)) ''a'' (Some demo_request) [] ((), []) (demo_world []) =
      ((Some r, None), ((), demo_calls), demo_world [])" by blast
  have "\<exists>r e. sts_rotate (traced_ctx demo_ctx) (Some (traced refusing_provider)) ''a'' (Some demo_request) [] ((), []) (demo_world []) =
      ((Some r, Some e), ((), refused_calls), demo_world []) \<and> \<not> rr_new_revoked r"
    by (simp add: defs)
  then obtain q e where q: "sts_rotate (traced_ctx demo_ctx) (Some (traced refusing_provider)) ''a'' (Some demo_request) [] ((), []) (demo_world []) =
      ((Some q, Some e), ((), refused_calls), demo_world [])" "\<not> rr_new_revoked q" by blast
  from rotate_call_protocol [OF demo_lawful r] rotate_call_protocol [OF demo_lawful q(1)] r q show ?thesis by (simp add: apply_options_def)
qed

text \<open>C10: the ledger after a rotation is what the result says, with and without an audit log.  Whichever step failed, the
  entry in the audit log included, a ledger that held some entries holds them still, with the new token's entry
  added exactly when it is reported as recorded and the old token's entries gone exactly when they are
  reported as removed.  The audit log, if there is one, is another file of the ledger's directory, private like it, that holds no
  ledger (a log that is absent, empty or of objects holds none).\<close>

theorem rotate_ledger_truthful:
  assumes "sts_rotate cx (Some p) old (Some req) opts s w = ((Some r, err), s', w')"
    and "rc_ledger (apply_options opts) = Some path"
    and "path_ok path i b w" "ledger_state path i w = Some es" "good_entries es"
    and "\<And>t. rr_new r = Some t \<Longrightarrow> good_metadata (token_metadata (pr_name p) t (rc_source (apply_options opts)))"
    and "\<And>log. rc_audit (apply_options opts) = Some log \<Longrightarrow>
      path_ok log i b w \<and> path_dir log = path_dir path \<and> path_base log \<noteq> path_base path \<and>
      parse_ledger (text_of (file_content log i w)) = None"
  shows "path_ok path i b w' \<and>
    ledger_state path i w' = Some (ledger_after (pr_name p) old (rc_source (apply_options opts)) r es)"
proof (cases "rc_audit (apply_options opts)")
  case None
  show ?thesis by (rule rotate_ledger_unaudited [OF assms(1) None assms(2-6)])
next
  case (Some log)
  have bs: "beside path log i b w" using assms(3,7) Some by (auto simp: beside_def)
  obtain r0 err0 w0 e x where run: "sts_rotate cx (Some p) old (Some req) (opts @ [no_audit]) s w = ((Some r0, err0), s', w0)"
    and log: "audit_log log e w0 = (x, w')" and r: "r\<lparr>rr_audit_logged := False\<rparr> = r0\<lparr>rr_audit_logged := False\<rparr>"
    by (rule rotate_then_log [OF assms(1) Some])
  have same: "ledger_after n m src (q\<lparr>rr_audit_logged := False\<rparr>) es = ledger_after n m src q es" for n m src q
    by (simp add: ledger_after_def Let_def split: option.split)
  have opts: "rc_audit (apply_options (opts @ [no_audit])) = None" "rc_ledger (apply_options (opts @ [no_audit])) = Some path"
    "rc_source (apply_options (opts @ [no_audit])) = rc_source (apply_options opts)"
    using assms(2) by (simp_all add: no_audit)
  have "rr_new r0 = rr_new r" using arg_cong [OF r, of rr_new] by simp
  with rotate_ledger_unaudited [OF run opts(1,2) assms(3-5)] assms(6) opts(3)
  have 0: "path_ok path i b w0" "ledger_state path i w0 = Some (ledger_after (pr_name p) old (rc_source (apply_options opts)) r es)"
    using same [of _ _ _ r] same [of _ _ _ r0] by (simp_all add: r)
  note B = rotate_beside [OF run opts(1,2) bs]
  have "c \<noteq> text_of (file_content log i w0)" if "file_content path i w0 = Some c" for c
    using that 0(2) B assms(7) [OF Some] by (auto simp: ledger_state_def file_content_def)
  with audit_beside [OF _ log, of path i b] B 0 show ?thesis
    by (auto simp: beside_def ledger_state_def file_content_def)
qed

theorem rotate_ledger_truthful_witness:
  "\<exists>r err s' w'. sts_rotate demo_ctx (Some demo_provider) ''a'' (Some demo_request)
      [Some (with_ledger (Some ''/h/t.json'')), Some (with_audit (Some ''/h/a.log'') ''cli'')] () (demo_world [Fault EIO 0]) =
      ((Some r, err), s', w') \<and> ledger_state ''/h/t.json'' 5 w' = Some (ledger_after ''p'' ''a'' ''cli'' r [])"
proof -
  let ?opts = "[Some (with_ledger (Some ''/h/t.json'')), Some (with_audit (Some ''/h/a.log'') ''cli'')]"
  let ?w = "demo_world [Fault EIO 0]"
  obtain res err s' w' where rot: "sts_rotate demo_ctx (Some demo_provider) ''a'' (Some demo_request) ?opts () ?w = ((res, err), s', w')"
    by (metis prod.exhaust)
  have "rc_transition (apply_options ?opts) = 0"
    by (simp add: apply_options_def zero_config_def with_ledger_def with_audit_def)
  from demo_validated [OF this, of "new_result ''a'' ''p'' (Some demo_token)" ?w]
  obtain r where r: "res = Some r" "rr_new r = Some demo_token"
    using rot
    by (auto simp: sts_rotate_def apply_options_def zero_config_def with_ledger_def with_audit_def demo_sts usable_def new_result_def Let_def)
  have opts: "rc_audit (apply_options ?opts) = Some ''/h/a.log''" "rc_ledger (apply_options ?opts) = Some ''/h/t.json''"
    "rc_source (apply_options ?opts) = ''cli''"
    by (simp_all add: apply_options_def zero_config_def with_ledger_def with_audit_def)
  have ok: "path_ok ''/h/t.json'' 5 True ?w" by (rule demo_path_ok) simp
  have "good_metadata (token_metadata ''p'' demo_token ''cli'')"
    using demo_token_storable [of "''cli''"] by (simp add: storable_def good_entries_def valid_utf8_def utf8_len_ascii)
  then show ?thesis
    using rotate_ledger_truthful [OF rot [unfolded r(1)] opts(2) ok demo_ledger] rot r opts demo_log_beside
    by (auto simp: demo_provider_def good_entries_def)
qed

text \<open>C30: auditing only observes, and it observes exactly once.  Take the rotation without the audit log,
  with its result \<open>res\<close>, its error \<open>err\<close> and the provider's answers.  The rotation with the log does the same and then
  logs one entry: its action is the step that ended the rotation, as the answers and the
  ledger flags show it, its token is the new token's name, the requested one before there is a token and the old id for a failed revocation,
  its success and error are those of \<open>err\<close>, its provider and source are the configured ones.  When the entry was written
  \<open>AuditLogged\<close> is set and nothing else changes; when it was not, the error joins \<open>err\<close> and
  the failure, and the result stays.  A rotation refused before \<open>Issue\<close> logs nothing.\<close>

theorem rotate_audit_observes:
  assumes "sts_rotate (traced_ctx cx) (Some (traced p)) old (Some req) (opts @ [Some (\<lambda>c. c\<lparr>rc_audit := None\<rparr>)]) (s, []) w =
      ((res, err), (s', calls), w')"
  shows "sts_rotate cx (Some p) old (Some req) opts s w =
    (if old = [] \<or> rc_transition (apply_options opts) <s 0 \<or> fst (cx_err cx s) \<noteq> None then ((res, err), s', w')
     else case rc_audit (apply_options opts) of
       None \<Rightarrow> ((res, err), s', w')
     | Some log \<Rightarrow>
         (case rotate_stage (apply_options opts) old req res calls of (action, name) \<Rightarrow>
          case audit_log log \<lparr>ae_time = zero_time, ae_action = action, ae_provider = pr_name p, ae_token = name,
              ae_success = (err = None), ae_error = error_text err, ae_source = rc_source (apply_options opts)\<rparr> w' of
            (Inr _, w2) \<Rightarrow> ((map_option (\<lambda>r. r\<lparr>rr_audit_logged := True\<rparr>) res, err), s', w2)
          | (Inl e, w2) \<Rightarrow>
              ((res, Some (JoinErr (case err of None \<Rightarrow> [WrapErr ''rotate: audit: '' e] | Some c \<Rightarrow> [c, WrapErr ''rotate: audit: '' e]))), s', w2)))"
proof (cases "refused cx old opts s")
  case True
  from rotate_refused [OF this, of p req w "[]"] assms show ?thesis using True by (auto simp: refused_def)
next
  case False
  obtain action name where "rotate_stage (apply_options opts) old req res calls = (action, name)" by fastforce
  with rotate_observes [OF False, of p req w] assms False show ?thesis
    by (simp add: observes_def audited_def refused_def split: option.split)
qed

theorem rotate_audit_observes_witness:
  "\<exists>r w2. sts_rotate demo_ctx (Some demo_provider) ''a'' (Some demo_request) [Some (with_audit (Some ''/h/t.json'') ''cli'')] () (demo_world []) =
      ((Some r, None), (), w2) \<and> rr_audit_logged r \<and> log_text [demo_rotation] = Some (text_of (file_content ''/h/t.json'' 5 w2))"
proof -
  let ?opts = "[Some (with_audit (Some ''/h/t.json'') ''cli'')]"
  let ?r = "(new_result ''a'' ''p'' (Some demo_token))\<lparr>rr_new_validated := True, rr_old_revoked := True\<rparr>"
  have run: "sts_rotate (traced_ctx demo_ctx) (Some (traced demo_provider)) ''a'' (Some demo_request) (?opts @ [Some (\<lambda>c. c\<lparr>rc_audit := None\<rparr>)])
      ((), []) (demo_world []) = ((Some ?r, None), ((), demo_calls), demo_world [])"
    by (simp add: sts_rotate_def apply_options_def zero_config_def demo_sts usable_def rotate_validate_def rotate_record_def rotate_wait_def
        rotate_revoke_def rotate_finish_def with_audit_def demo_calls_def Let_def)
  obtain x w2 where l: "audit_log ''/h/t.json'' (demo_rotation\<lparr>ae_time := zero_time\<rparr>) (demo_world []) = (x, w2)" by fastforce
  have stage: "rotate_stage (apply_options ?opts) ''a'' demo_request (Some ?r) demo_calls = (''rotate'', ''n'')"
    by (simp add: rotate_stage_def demo_calls_def apply_options_def zero_config_def with_audit_def demo_token_def)
  have opts: "rc_audit (apply_options ?opts) = Some ''/h/t.json''" "rc_source (apply_options ?opts) = ''cli''"
    "\<not> rc_transition (apply_options ?opts) <s 0"
    by (simp_all add: apply_options_def zero_config_def with_audit_def)
  show ?thesis
    using rotate_audit_observes [OF run, unfolded opts stage] opts l demo_rotation_logged [OF l]
    by (simp add: demo_ctx_def demo_provider_def error_text_def demo_rotation_def)
qed

text \<open>C31: nothing in the way, nothing left undone.  With a provider that issues a usable token,
  validates it and revokes, a context that is not cancelled, and a working ledger, a rotation returns
  without error and complete: the new token's entry is in the ledger and the old one's is not.\<close>

theorem rotate_completes:
  assumes "old \<noteq> []" "\<not> rc_transition (apply_options opts) <s 0" "rc_audit (apply_options opts) = None"
    and "rc_ledger (apply_options opts) = Some path" "\<And>s. fst (cx_err cx s) = None" "\<And>d s. fst (cx_wait cx d s)"
    and "\<And>s. fst (pr_issue p req s) = Inr (Some t)" "usable old t" "\<And>s. fst (pr_validate p (tk_value t) s) = None"
    and "\<And>s. fst (pr_revoke p Caller old s) = None" "path_ok path i False w" "ledger_state path i w = Some es"
    and "storable (es @ [token_metadata (pr_name p) t (rc_source (apply_options opts))])"
  shows "\<exists>r s' w'. sts_rotate cx (Some p) old (Some req) opts s w = ((Some r, None), s', w') \<and> rr_new r = Some t \<and>
    finished (apply_options opts) r \<and>
    ledger_state path i w' = Some (filter (\<lambda>e. \<not> (md_provider e = pr_name p \<and> md_id e = old))
      (es @ [token_metadata (pr_name p) t (rc_source (apply_options opts))]))"
proof -
  let ?cfg = "apply_options opts" and ?m = "token_metadata (pr_name p) t (rc_source (apply_options opts))"
  have step: "\<exists>s1. cx_err cx s = (None, s1)" "\<exists>s1. cx_wait cx d s = (True, s1)" "\<exists>s1. pr_issue p req s = (Inr (Some t), s1)"
    "\<exists>s1. pr_validate p (tk_value t) s = (None, s1)" "\<exists>s1. pr_revoke p Caller old s = (None, s1)" for s d
    using assms(5) [of s] assms(6) [of d s] assms(7) [of s] assms(9) [of s] assms(10) [of s] by (simp_all add: prod_eq_iff)
  obtain x w1 where 1: "ledger_record path ?m w = (x, w1)" by fastforce
  note R = record_quiet [OF assms(11,12,13) 1]
  obtain y w2 where 2: "ledger_remove_by_id path (pr_name p) old w1 = (y, w2)" by fastforce
  note D = remove_quiet [OF R(2,3) assms(13,1) 2]
  have revoke: "\<exists>r' s'. rotate_revoke cx p ?cfg old t r s w1 = ((Some r', None), s', w2) \<and> rr_new r' = rr_new r \<and> finished ?cfg r'" for r s
  proof -
    obtain s1 where c: "cx_err cx s = (None, s1)" using step(1) by blast
    obtain s2 where v: "pr_revoke p Caller old s1 = (None, s2)" using step(5) by blast
    show ?thesis using c v 2 D(1) assms(3,4) by (simp add: rotate_revoke_def finish_unaudited finished_def Let_def)
  qed
  have wait: "\<exists>s1. rotate_wait cx p ?cfg old t r s w1 = rotate_revoke cx p ?cfg old t r s1 w1" for r s
  proof -
    obtain s1 where "cx_wait cx (rc_transition ?cfg) s = (True, s1)" using step(2) by blast
    then show ?thesis by (auto simp: rotate_wait_def)
  qed
  obtain s1 where s1: "cx_err cx s = (None, s1)" using step(1) by blast
  obtain s2 where s2: "pr_issue p req s1 = (Inr (Some t), s2)" using step(3) by blast
  obtain s3 where s3: "pr_validate p (tk_value t) s2 = (None, s3)" using step(4) by blast
  let ?r = "(new_result old (pr_name p) (Some t))\<lparr>rr_new_validated := True, rr_ledger_recorded := True\<rparr>"
  have "sts_rotate cx (Some p) old (Some req) opts s w = rotate_wait cx p ?cfg old t ?r s3 w1"
    using assms(1,2,4,8) s1 s2 s3 1 R(1) by (simp add: sts_rotate_def rotate_validate_def rotate_record_def Let_def)
  moreover obtain s4 where "rotate_wait cx p ?cfg old t ?r s3 w1 = rotate_revoke cx p ?cfg old t ?r s4 w1" using wait by blast
  ultimately show ?thesis using revoke [of ?r s4] D(2) by (auto simp: new_result_def)
qed

theorem rotate_completes_witness:
  "\<exists>r s' w'. sts_rotate demo_ctx (Some demo_provider) ''a'' (Some demo_request) [Some (with_ledger (Some ''/h/t.json''))] () (demo_world []) =
      ((Some r, None), s', w') \<and> ledger_state ''/h/t.json'' 5 w' = Some [token_metadata ''p'' demo_token []]"
proof -
  let ?opts = "[Some (with_ledger (Some ''/h/t.json''))]"
  have opts: "\<not> rc_transition (apply_options ?opts) <s 0" "rc_audit (apply_options ?opts) = None"
    "rc_ledger (apply_options ?opts) = Some ''/h/t.json''" "rc_source (apply_options ?opts) = []"
    by (simp_all add: apply_options_def zero_config_def with_ledger_def)
  have ok: "path_ok ''/h/t.json'' 5 False (demo_world [])" by (rule demo_path_ok) simp
  have "storable ([] @ [token_metadata (pr_name demo_provider) demo_token (rc_source (apply_options ?opts))])"
    using demo_token_storable [of "[]"] opts(4) by (simp add: demo_provider_def)
  from rotate_completes [OF _ opts(1-3) _ _ _ _ _ _ ok demo_ledger this, of "''a''" demo_ctx demo_request "()"]
  have "\<exists>r s' w'. sts_rotate demo_ctx (Some demo_provider) ''a'' (Some demo_request) ?opts () (demo_world []) = ((Some r, None), s', w') \<and>
      ledger_state ''/h/t.json'' 5 w' = Some (filter (\<lambda>e. \<not> (md_provider e = ''p'' \<and> md_id e = ''a'')) [token_metadata ''p'' demo_token []])"
    by (auto simp: demo_ctx_def demo_provider_def usable_def demo_token_def opts(4))
  then show ?thesis by (simp add: token_metadata_def demo_token_def)
qed

text \<open>The health report sorts the ledger.  Every entry of the provider is in exactly one of
  three lists, in the order of the ledger: expired, else expiring within the window, else unknown.
  Nothing is ever reported as valid or invalid, and the counts add up to the number of entries.\<close>

theorem health_partition:
  assumes "path_ok path i False w" "ledger_state path i w = Some es" "ticks w = []" "\<And>s. fst (cx_err cx s) = None"
    and "check_health cx p path d s w = (res, s', w')"
  shows "\<exists>r. let mine = (if pr_name p = [] then es else filter (\<lambda>e. md_provider e = pr_name p) es) in
    res = Inr r \<and> hr_provider r = pr_name p \<and> hr_valid r = [] \<and> hr_invalid r = [] \<and>
    hr_expired r = map (status_of ''expired'') (filter (expired_at (now w)) mine) \<and>
    hr_expiring r = map (status_of ''expiring soon'') (filter (soon_at (now w) d) mine) \<and>
    hr_unknown r = map (status_of ''not validated'') (filter (\<lambda>e. \<not> expired_at (now w) e \<and> \<not> soon_at (now w) d e) mine) \<and>
    health_counts r = (length mine, 0, 0, length (hr_expired r), length (hr_expiring r))"
proof -
  define mine where "mine = (if pr_name p = [] then es else filter (\<lambda>e. md_provider e = pr_name p) es)"
  obtain l w1 where l: "load_locked path w = (l, w1)" by fastforce
  note L = load_quiet [OF assms(1,2) l]
  have w1: "ticks w1 = []" "now w1 = now w" using L(3) assms(3) now_same_env by (auto simp: same_env_def)
  obtain s1 where s1: "cx_err cx s = (None, s1)" using assms(4) [of s] by (metis prod.collapse)
  have "check_health cx p path d s w = health_loop cx d mine \<lparr>hr_provider = pr_name p, hr_unknown = [], hr_valid = [], hr_invalid = [],
      hr_expired = [], hr_expiring = []\<rparr> s1 w1"
    using s1 l L(1) by (simp add: check_health_def ledger_list_def mine_def)
  moreover have split: "length (filter (expired_at t) xs) + length (filter (soon_at t d) xs) +
      length (filter (\<lambda>e. \<not> expired_at t e \<and> \<not> soon_at t d e) xs) = length xs" for t xs
    by (induction xs) (auto simp: soon_at_def)
  moreover obtain s2 where "health_loop cx d mine \<lparr>hr_provider = pr_name p, hr_unknown = [], hr_valid = [], hr_invalid = [],
      hr_expired = [], hr_expiring = []\<rparr> s1 w1 =
    (Inr \<lparr>hr_provider = pr_name p,
       hr_unknown = map (status_of ''not validated'') (filter (\<lambda>e. \<not> expired_at (now w) e \<and> \<not> soon_at (now w) d e) mine),
       hr_valid = [], hr_invalid = [], hr_expired = map (status_of ''expired'') (filter (expired_at (now w)) mine),
       hr_expiring = map (status_of ''expiring soon'') (filter (soon_at (now w) d) mine)\<rparr>, s2, w1)"
    using health_loop_still [OF w1(1) assms(4), of d mine "\<lparr>hr_provider = pr_name p, hr_unknown = [], hr_valid = [], hr_invalid = [],
      hr_expired = [], hr_expiring = []\<rparr>" s1] by (auto simp: w1(2))
  ultimately show ?thesis
    using assms(5) unfolding mine_def [symmetric] Let_def by (auto simp: health_counts_def Let_def)
qed

theorem health_partition_witness:
  "\<exists>r s' w'. check_health demo_ctx demo_provider ''/h/t.json'' 1 () demo_ledger_world = (Inr r, s', w') \<and>
     hr_expired r = [\<lparr>st_name = ''n'', st_id = ''a'', st_error = ''expired''\<rparr>]"
proof -
  obtain res s' w' where c: "check_health demo_ctx demo_provider ''/h/t.json'' 1 () demo_ledger_world = (res, s', w')" by (metis prod.exhaust)
  have "fst (cx_err demo_ctx s) = None" for s :: unit by (simp add: demo_ctx_def)
  from health_partition [OF demo_ledger_ok(1-3) this c] c show ?thesis
    by (auto simp: Let_def demo_provider_def demo_meta_def zero_metadata_def demo_ledger_ok(4) expired_at_def t_after_def status_of_def)
qed

end
