(* ===== verification/Resolve.thy ===== *)
theory Resolve
  imports Store_Interface
begin

text \<open>
  The package \<open>resolve\<close> (\<open>resolve.go\<close>): a chain of steps that look for a credential.  A step is a
  name and a function over a state; the steps of the package work on the world and a terminal.
  Terminal detection and the reading of a password belong to \<open>golang.org/x/term\<close> and are parameters.
\<close>

subsection \<open>Chains\<close>

record 's cred_step =
  cs_name :: string
  cs_resolve :: "'s \<Rightarrow> (string \<times> bool) \<times> 's"

record cred_result =
  cr_value :: string
  cr_source :: string

fun chain_resolve :: "'s cred_step list \<Rightarrow> 's \<Rightarrow> (goerr + cred_result) \<times> 's" where
  "chain_resolve [] s = (Inl (Sentinel ErrNoCredential), s)"
| "chain_resolve (st # sts) s =
     (case cs_resolve st s of
        ((v, ok), s1) \<Rightarrow>
          if ok \<and> v \<noteq> [] then (Inr \<lparr>cr_value = v, cr_source = cs_name st\<rparr>, s1) else chain_resolve sts s1)"

subsection \<open>Steps over the world and a terminal\<close>

text \<open>A terminal's input is what its reads return one after the other; its output is a text.\<close>

record tty =
  tty_reads :: "string list"
  tty_out :: string

record terminal =
  tm_fd :: int
  tm_is_terminal :: "int \<Rightarrow> bool"
  tm_read_password :: "int \<Rightarrow> tty \<Rightarrow> (goerr + string) \<times> tty"

type_synonym rstate = "world \<times> tty"

definition flag_step :: "string \<Rightarrow> 's cred_step" where
  "flag_step value = \<lparr>cs_name = ''flag'', cs_resolve = (\<lambda>s. ((value, value \<noteq> []), s))\<rparr>"

fun env_lookup :: "world \<Rightarrow> string list \<Rightarrow> string \<times> bool" where
  "env_lookup w [] = ([], False)"
| "env_lookup w (n # ns) = (let v = getenv w n in if v \<noteq> [] then (v, True) else env_lookup w ns)"

definition env_step :: "string list \<Rightarrow> rstate cred_step" where
  "env_step names = \<lparr>cs_name = ''env:'' @ join_with '','' names, cs_resolve = (\<lambda>(w, t). (env_lookup w names, w, t))\<rparr>"

definition os_read_file :: "string \<Rightarrow> string io" where
  "os_read_file path w = (case os_open path w of (Inl e, w1) \<Rightarrow> (Inl e, w1) | (Inr f, w1) \<Rightarrow> f_read_all f w1)"

definition file_step :: "string \<Rightarrow> string \<Rightarrow> rstate cred_step" where
  "file_step name path = \<lparr>cs_name = name, cs_resolve = (\<lambda>(w, t).
     (case os_read_file path w of
        (Inl e, w1) \<Rightarrow> (([], False), w1, t)
      | (Inr data, w1) \<Rightarrow> (let v = trim_space data in ((v, v \<noteq> []), w1, t))))\<rparr>"

definition func_step :: "string \<Rightarrow> ('s \<Rightarrow> (string \<times> bool) \<times> 's) \<Rightarrow> 's cred_step" where
  "func_step name fn = \<lparr>cs_name = name, cs_resolve = fn\<rparr>"

definition say :: "string \<Rightarrow> tty \<Rightarrow> tty" where
  "say text t = t\<lparr>tty_out := tty_out t @ text\<rparr>"

definition prompt_step_with :: "string \<Rightarrow> terminal \<Rightarrow> rstate cred_step" where
  "prompt_step_with prompt tm = \<lparr>cs_name = ''prompt:secure'', cs_resolve = (\<lambda>(w, t).
     if \<not> tm_is_terminal tm (tm_fd tm) then (([], False), w, t)
     else case tm_read_password tm (tm_fd tm) (say prompt t) of
       (Inl e, t1) \<Rightarrow> (([], False), w, say [CHR 0x0A] t1)
     | (Inr password, t1) \<Rightarrow> (let v = trim_space password in ((v, v \<noteq> []), w, say [CHR 0x0A] t1)))\<rparr>"

text \<open>\<open>bufio.Reader.ReadString\<close> with a new reader: reads until one holds the delimiter; what that read
  had beyond it stays in the reader, which is dropped.\<close>

fun read_string :: "char \<Rightarrow> string \<Rightarrow> string list \<Rightarrow> (string \<times> bool) \<times> string list" where
  "read_string d acc [] = ((acc, False), [])"
| "read_string d acc (c # cs) =
     (if d \<in> set c then ((acc @ takeWhile (\<lambda>x. x \<noteq> d) c @ [d], True), cs) else read_string d (acc @ c) cs)"

definition prompt_plain_step_with :: "string \<Rightarrow> terminal \<Rightarrow> rstate cred_step" where
  "prompt_plain_step_with prompt tm = \<lparr>cs_name = ''prompt:plain'', cs_resolve = (\<lambda>(w, t).
     if \<not> tm_is_terminal tm (tm_fd tm) then (([], False), w, t)
     else case read_string CHR 0x0A [] (tty_reads t) of
       ((line, ended), rest) \<Rightarrow>
         (let t1 = (say prompt t)\<lparr>tty_reads := rest\<rparr>
          in if \<not> ended then (([], False), w, t1)
             else (let v = trim_space line in ((v, v \<noteq> []), w, t1))))\<rparr>"

text \<open>The terminal of the process: standard input, with the two functions of \<open>x/term\<close>.\<close>

definition default_terminal :: "(int \<Rightarrow> bool) \<Rightarrow> (int \<Rightarrow> tty \<Rightarrow> (goerr + string) \<times> tty) \<Rightarrow> terminal" where
  "default_terminal is_terminal read_password = \<lparr>tm_fd = 0, tm_is_terminal = is_terminal, tm_read_password = read_password\<rparr>"

definition prompt_step :: "(int \<Rightarrow> bool) \<Rightarrow> (int \<Rightarrow> tty \<Rightarrow> (goerr + string) \<times> tty) \<Rightarrow> string \<Rightarrow> rstate cred_step" where
  "prompt_step is_terminal read_password prompt = prompt_step_with prompt (default_terminal is_terminal read_password)"

definition prompt_plain_step :: "(int \<Rightarrow> bool) \<Rightarrow> (int \<Rightarrow> tty \<Rightarrow> (goerr + string) \<times> tty) \<Rightarrow> string \<Rightarrow> rstate cred_step" where
  "prompt_plain_step is_terminal read_password prompt = prompt_plain_step_with prompt (default_terminal is_terminal read_password)"

subsection \<open>Skipped steps\<close>

text \<open>\<open>skipped sts s s'\<close>: each step runs once, in order, from \<open>s\<close> to \<open>s'\<close>, and none yields a value.\<close>

inductive skipped :: "'s cred_step list \<Rightarrow> 's \<Rightarrow> 's \<Rightarrow> bool" where
  none: "skipped [] s s"
| skip: "cs_resolve st s = ((v, ok), s1) \<Longrightarrow> \<not> (ok \<and> v \<noteq> []) \<Longrightarrow> skipped sts s1 s2 \<Longrightarrow> skipped (st # sts) s s2"

code_pred (modes: i \<Rightarrow> i \<Rightarrow> o \<Rightarrow> bool as skip_all) skipped .

inductive_cases skipped_consE: "skipped (st # sts) s s2"
inductive_simps skipped_simps [simp]: "skipped [] s s2"

lemma chain_skipped: "skipped pre s s1 \<Longrightarrow> chain_resolve (pre @ sts) s = chain_resolve sts s1"
  by (induction rule: skipped.induct) auto

lemma chain_resolve_cases:
  assumes "chain_resolve sts s = (res, s')"
  obtains "res = Inl (Sentinel ErrNoCredential)" "skipped sts s s'"
  | pre st post v s1 where "sts = pre @ st # post" "skipped pre s s1" "cs_resolve st s1 = ((v, True), s')" "v \<noteq> []"
      "res = Inr \<lparr>cr_value = v, cr_source = cs_name st\<rparr>"
  using assms
proof (induction sts arbitrary: s thesis)
  case Nil
  then show ?case by simp
next
  case (Cons st sts)
  obtain v ok s1 where r: "cs_resolve st s = ((v, ok), s1)" by (metis prod.exhaust)
  show ?case
  proof (cases "ok \<and> v \<noteq> []")
    case True
    then show ?thesis using Cons.prems(2) [of "[]" st sts s v] Cons.prems(3) r by (auto intro: skipped.none)
  next
    case False
    then have "chain_resolve sts s1 = (res, s')" using Cons.prems(3) r by auto
    then show ?thesis
    proof (rule Cons.IH [rotated 2])
      assume "res = Inl (Sentinel ErrNoCredential)" "skipped sts s1 s'"
      then show ?thesis using Cons.prems(1) skipped.skip [OF r False] by blast
    next
      fix pre x post u s2
      assume "sts = pre @ x # post" "skipped pre s1 s2" "cs_resolve x s2 = ((u, True), s')" "u \<noteq> []"
        "res = Inr \<lparr>cr_value = u, cr_source = cs_name x\<rparr>"
      then show ?thesis using Cons.prems(2) [of "st # pre" x post s2 u] skipped.skip [OF r False] by simp
    qed
  qed
qed

subsection \<open>Trimmed values\<close>

lemma leading_space_prefix:
  assumes "leading_space rs (u @ v) = None"
  shows "leading_space rs u = None"
proof -
  have "\<not> has_prefix u r" if "r \<in> set rs" "r \<noteq> []" for r
    using assms that by (auto simp: leading_space_def find_None_iff has_prefix_iff)
  then show ?thesis by (auto simp: leading_space_def find_None_iff)
qed

lemma trim_space_idem: "trim_space (trim_space s) = trim_space s"
proof -
  let ?a = "trim_left space_runes s" and ?R = "map rev space_runes"
  obtain t where t: "rev ?a = t @ trim_left ?R (rev ?a)" using trim_left_suffix by blast
  then have "?a = rev (trim_left ?R (rev ?a)) @ rev t" by (metis rev_append rev_rev_ident)
  then have "leading_space space_runes (trim_space s) = None"
    using leading_space_prefix [of space_runes _ "rev t"] trim_left_stops [of space_runes s] by (simp add: trim_space_def)
  then show ?thesis
    using trim_left_stops [of ?R "rev ?a"] by (simp add: trim_space_def trim_left_no_space)
qed

lemma env_lookup_find:
  "env_lookup w names = (case find (\<lambda>n. getenv w n \<noteq> []) names of Some n \<Rightarrow> (getenv w n, True) | None \<Rightarrow> ([], False))"
  by (induction names) (simp_all add: Let_def)

subsection \<open>Properties\<close>

text \<open>C32: a chain returns the first match.  It succeeds exactly with the value of the first step, in
  order, that has one, under that step's name; the steps before it have run once each and the steps
  after it have not run, so more steps change nothing; otherwise every step has run once, the error
  is \<open>ErrNoCredential\<close>, and more steps take over from there.\<close>

theorem resolve_first_match:
  assumes "chain_resolve sts s = (res, s')"
  shows "case res of
      Inl e \<Rightarrow> e = Sentinel ErrNoCredential \<and> skipped sts s s' \<and> chain_resolve (sts @ extra) s = chain_resolve extra s'
    | Inr r \<Rightarrow> cr_value r \<noteq> [] \<and> chain_resolve (sts @ extra) s = (res, s') \<and>
        (\<exists>pre st post s1. sts = pre @ st # post \<and> cr_source r = cs_name st \<and> skipped pre s s1 \<and>
           cs_resolve st s1 = ((cr_value r, True), s'))"
  using assms
proof (cases rule: chain_resolve_cases)
  case 1
  then show ?thesis using chain_skipped by auto
next
  case (2 pre st post v s1)
  have "chain_resolve (pre @ st # post @ extra) s = (res, s')" using chain_skipped [OF 2(2)] 2(3-5) by simp
  then show ?thesis using 2 by auto
qed

theorem resolve_first_match_witness:
  "\<exists>pre st post. [flag_step [], flag_step ''x'', flag_step ''y''] = pre @ st # post \<and> cs_resolve st () = ((''x'', True), ()) \<and>
     skipped pre () ()"
proof -
  have "chain_resolve [flag_step [], flag_step ''x'', flag_step ''y''] () = (Inr \<lparr>cr_value = ''x'', cr_source = ''flag''\<rparr>, ())"
    by (simp add: flag_step_def)
  from resolve_first_match [OF this, of "[]"] show ?thesis by auto
qed

text \<open>What the package's own steps do.  The environment step takes the first variable that is
  set; a value from a file or a prompt is free of surrounding white space and not empty; and a prompt
  is skipped silently without a terminal, while with one the secure prompt writes exactly the prompt
  before the password is read and a line end after it.\<close>

theorem resolve_steps_honest:
  "cs_resolve (env_step names) (w, t) =
     (case find (\<lambda>n. getenv w n \<noteq> []) names of Some n \<Rightarrow> (getenv w n, True) | None \<Rightarrow> ([], False), w, t) \<and>
   (\<forall>st \<in> {file_step name path, prompt_step_with prompt tm, prompt_plain_step_with prompt tm}. \<forall>v st'.
      cs_resolve st (w, t) = ((v, True), st') \<longrightarrow> v \<noteq> [] \<and> trim_space v = v) \<and>
   (\<forall>st \<in> {prompt_step_with prompt tm, prompt_plain_step_with prompt tm}.
      \<not> tm_is_terminal tm (tm_fd tm) \<longrightarrow> cs_resolve st (w, t) = (([], False), w, t)) \<and>
   (tm_is_terminal tm (tm_fd tm) \<longrightarrow>
      snd (cs_resolve (prompt_step_with prompt tm) (w, t)) =
        (w, say [CHR 0x0A] (snd (tm_read_password tm (tm_fd tm) (t\<lparr>tty_out := tty_out t @ prompt\<rparr>)))))"
  by (auto simp: env_step_def env_lookup_find file_step_def prompt_step_with_def prompt_plain_step_with_def say_def trim_space_idem Let_def
      split: option.splits sum.splits prod.splits if_splits)

theorem resolve_steps_honest_witness:
  "cs_resolve (prompt_step_with ''p'' \<lparr>tm_fd = 0, tm_is_terminal = (\<lambda>_. False), tm_read_password = (\<lambda>_ t. (Inr [], t))\<rparr>)
     (demo_world [], \<lparr>tty_reads = [], tty_out = []\<rparr>) = (([], False), demo_world [], \<lparr>tty_reads = [], tty_out = []\<rparr>)"
  using resolve_steps_honest [of "[]" "demo_world []" "\<lparr>tty_reads = [], tty_out = []\<rparr>" "[]" "[]" "''p''"
      "\<lparr>tm_fd = 0, tm_is_terminal = (\<lambda>_. False), tm_read_password = (\<lambda>_ t. (Inr [], t))\<rparr>"]
  by simp

end
