(* ===== verification/Oauth_Pkce.thy ===== *)
theory Oauth_Pkce
  imports Go_Crypto Go_Quote Store_Interface
begin

text \<open>
  The files \<open>pkce.go\<close> and \<open>state.go\<close> of the package \<open>oauth\<close>: the code verifier and its challenge,
  and the state parameter with its constant-time comparison.
\<close>

subsection \<open>PKCE\<close>

definition MethodS256 :: string where "MethodS256 = ''S256''"
definition MethodPlain :: string where "MethodPlain = ''plain''"

record pkce =
  pk_verifier :: string
  pk_challenge :: string
  pk_method :: string

definition pkce_verifier_bytes :: nat where
  "pkce_verifier_bytes = 32"

definition new_verifier :: "string io" where
  "new_verifier w =
     (case rand_read pkce_verifier_bytes w of
        (Inl e, w1) \<Rightarrow> (Inl (WrapErr ''pkce: read random: '' e), w1)
      | (Inr b, w1) \<Rightarrow> (Inr (b64_rawurl b), w1))"

definition challenge :: "string \<Rightarrow> string \<Rightarrow> goerr + string" where
  "challenge verifier meth =
     (if meth = MethodS256 then Inr (b64_rawurl (sha256 verifier))
      else if meth = MethodPlain then Inl (MsgErr (''pkce: MethodPlain is deprecated by RFC 7636 '' @ [CHR 0xC2, CHR 0xA7] @ ''7.2; use MethodS256''))
      else Inl (MsgErr (''pkce: unknown method '' @ go_quote meth)))"

definition new_pkce :: "pkce io" where
  "new_pkce w =
     (case new_verifier w of
        (Inl e, w1) \<Rightarrow> (Inl e, w1)
      | (Inr v, w1) \<Rightarrow>
          (case challenge v MethodS256 of
             Inl e \<Rightarrow> (Inl e, w1)
           | Inr c \<Rightarrow> (Inr \<lparr>pk_verifier = v, pk_challenge = c, pk_method = MethodS256\<rparr>, w1)))"

subsection \<open>The state parameter\<close>

definition state_bytes :: nat where
  "state_bytes = 32"

definition new_state :: "string io" where
  "new_state w =
     (case rand_read state_bytes w of
        (Inl e, w1) \<Rightarrow> (Inl (WrapErr ''oauth: read random: '' e), w1)
      | (Inr b, w1) \<Rightarrow> (Inr (b64_rawurl b), w1))"

text \<open>\<open>subtle.ConstantTimeCompare\<close>: the differences of all bytes are collected, and only the test of
  the result for zero, itself without a branch, decides.\<close>

definition ct_byte_eq :: "8 word \<Rightarrow> 8 word \<Rightarrow> int" where
  "ct_byte_eq x y = uint (drop_bit 31 ((ucast (x XOR y) :: 32 word) - 1))"

definition ct_compare :: "string \<Rightarrow> string \<Rightarrow> int" where
  "ct_compare x y =
     (if length x \<noteq> length y then 0
      else ct_byte_eq (fold (\<lambda>(a, b) v. v OR (of_nat (byte a) XOR of_nat (byte b))) (zip x y) 0) 0)"

definition verify_state :: "string \<Rightarrow> string \<Rightarrow> goerr option" where
  "verify_state expected got =
     (if expected = [] then Some (MsgErr ''oauth: expected state is empty (caller did not track state)'')
      else if ct_compare expected got \<noteq> 1 then Some (MsgErr ''oauth: state mismatch (possible CSRF)'')
      else None)"

subsection \<open>Lemmas\<close>

lemma ct_byte_eq: "ct_byte_eq v 0 = (if v = 0 then 1 else 0)"
proof (cases "v = 0")
  case True
  have "drop_bit 31 (- 1 :: 32 word) = 1" by (simp add: drop_bit_eq_div)
  then show ?thesis using True by (simp add: ct_byte_eq_def)
next
  case False
  then have v: "0 < uint v" "uint v < 256" using uint_bounded [of v] by (simp_all add: word_neq_0_conv word_less_def)
  have "uint (ucast v - 1 :: 32 word) = (uint v - 1) mod 2 ^ 32"
    by (simp add: uint_word_ariths uint_up_ucast is_up)
  also have "\<dots> = uint v - 1" using v by simp
  finally have "uint (drop_bit 31 (ucast v - 1 :: 32 word)) = (uint v - 1) div 2 ^ 31"
    by (simp add: drop_bit_eq_div uint_div)
  also have "\<dots> = 0" using v by simp
  finally show ?thesis using False by (simp add: ct_byte_eq_def)
qed

lemma xor_eq_0: "a XOR b = 0 \<longleftrightarrow> a = b" for a b :: "8 word"
proof
  assume "a XOR b = 0"
  then have "(a XOR b) XOR b = b" by simp
  then show "a = b" by (simp add: xor.assoc)
qed simp

lemma fold_or:
  "fold (\<lambda>(a, b) v. v OR (of_nat (byte a) XOR of_nat (byte b) :: 8 word)) ps v = 0 \<longleftrightarrow> v = 0 \<and> (\<forall>(a, b) \<in> set ps. a = b)"
proof (induction ps arbitrary: v)
  case (Cons p ps)
  obtain a b where p: "p = (a, b)" by fastforce
  have "of_nat (byte a) = (of_nat (byte b) :: 8 word) \<longleftrightarrow> a = b"
  proof
    have u: "unat (of_nat (byte c) :: 8 word) = byte c" for c :: char
      using nat_of_char_less_256 [of c] by (simp add: unat_of_nat take_bit_eq_mod)
    assume "of_nat (byte a) = (of_nat (byte b) :: 8 word)"
    then have "byte a = byte b" using u by metis
    then show "a = b" by simp
  qed simp
  then show ?case using Cons p by (auto simp: or_eq_0_iff xor_eq_0)
qed simp

lemma ct_compare_eq: "ct_compare x y = (if x = y then 1 else 0)"
proof (cases "length x = length y")
  case True
  then have "(\<forall>(a, b) \<in> set (zip x y). a = b) \<longleftrightarrow> x = y"
    by (induction x y rule: list_induct2) auto
  then show ?thesis using True by (auto simp: ct_compare_def ct_byte_eq fold_or)
next
  case False
  then show ?thesis by (auto simp: ct_compare_def)
qed

lemma rand_read_Inr: "rand_read n w = (Inr (map (entropy w) [0..<n]), w\<lparr>entropy := (\<lambda>i. entropy w (n + i))\<rparr>)"
  by (simp add: rand_read_def)

lemma token43: "length b = 32 \<Longrightarrow> length (b64_rawurl b) = 43"
  by (simp add: length_rawurl)

subsection \<open>Properties\<close>

text \<open>C39: a fresh PKCE pair is what RFC 7636 asks for.  The verifier has 43 characters of the unpadded
  URL alphabet and depends on all of its 32 random bytes: two generations agree only if every byte
  did.  The challenge is the encoded SHA-256 digest of the verifier, the method is S256, and no
  other method yields a challenge.\<close>

theorem pkce_wellformed:
  assumes "new_pkce w = (res, w')" "new_pkce v = (res2, v')"
  shows "\<exists>p q. res = Inr p \<and> res2 = Inr q \<and> length (pk_verifier p) = 43 \<and> set (pk_verifier p) \<subseteq> set url_alphabet \<and>
    length (pk_challenge p) = 43 \<and> set (pk_challenge p) \<subseteq> set url_alphabet \<and> pk_method p = MethodS256 \<and>
    pk_challenge p = b64_rawurl (sha256 (pk_verifier p)) \<and>
    (pk_verifier p = pk_verifier q \<longrightarrow> (\<forall>i < 32. entropy w i = entropy v i)) \<and>
    (\<forall>m. m \<noteq> MethodS256 \<longrightarrow> \<not> is_ok (challenge (pk_verifier p) m))"
proof -
  have n: "new_pkce u = (Inr \<lparr>pk_verifier = b64_rawurl (map (entropy u) [0..<32]),
      pk_challenge = b64_rawurl (sha256 (b64_rawurl (map (entropy u) [0..<32]))), pk_method = MethodS256\<rparr>,
      u\<lparr>entropy := (\<lambda>i. entropy u (32 + i))\<rparr>)" for u
    by (simp add: new_pkce_def new_verifier_def rand_read_Inr pkce_verifier_bytes_def challenge_def)
  have "\<forall>i < 32. entropy w i = entropy v i"
    if "b64_rawurl (map (entropy w) [0..<32]) = b64_rawurl (map (entropy v) [0..<32])"
    using b64_rawurl_inj [OF _ that] by (simp add: list_eq_iff_nth_eq)
  then show ?thesis
    using assms n [of w] n [of v] b64_rawurl_set by (auto simp: token43 length_rawurl challenge_def MethodS256_def)
qed

theorem pkce_wellformed_witness:
  "\<exists>p w'. new_pkce (demo_world []) = (Inr p, w') \<and> length (pk_verifier p) = 43 \<and> pk_method p = ''S256''"
proof -
  obtain res w' where r: "new_pkce (demo_world []) = (res, w')" by fastforce
  from pkce_wellformed [OF r r] r show ?thesis by (auto simp: MethodS256_def)
qed

text \<open>The state comparison is exact.  \<open>VerifyState\<close> accepts exactly the non-empty expected value
  itself, although it compares without branching on the bytes; a fresh state has 43 characters, so
  it is accepted back and nothing else is.\<close>

theorem verify_state_exact:
  "(verify_state expected got = None \<longleftrightarrow> expected \<noteq> [] \<and> got = expected) \<and>
   (\<exists>s w'. new_state w = (Inr s, w') \<and> length s = 43 \<and> set s \<subseteq> set url_alphabet \<and> (verify_state s got = None \<longleftrightarrow> got = s))"
  using b64_rawurl_set [of "map (entropy w) [0..<32]"]
  by (auto simp: verify_state_def ct_compare_eq new_state_def rand_read_Inr state_bytes_def token43)
     (metis length_rawurl list.size(3) token43 zero_neq_numeral length_map diff_zero length_upt)+

end
