(* ===== verification/Go_Url.thy ===== *)
theory Go_Url
  imports Go_Codec "HOL-Library.Multiset"
begin

text \<open>
  The queries of \<open>net/url\<close>: escaping, the map \<open>Values\<close>, \<open>Encode\<close> and \<open>ParseQuery\<close>, with the theorem
  that what \<open>Encode\<close> writes \<open>ParseQuery\<close> reads back, for arbitrary bytes.
\<close>

subsection \<open>Escaping\<close>

definition unreserved :: "char \<Rightarrow> bool" where
  "unreserved c = (is_digit c \<or> (97 \<le> byte c \<and> byte c \<le> 122) \<or> (65 \<le> byte c \<and> byte c \<le> 90) \<or>
     c = CHR ''-'' \<or> c = CHR ''_'' \<or> c = CHR ''.'' \<or> c = CHR ''~'')"

definition upper_hex :: "nat \<Rightarrow> char" where
  "upper_hex n = (if n < 10 then char_of (48 + n) else char_of (55 + n))"

definition escape_byte :: "char \<Rightarrow> string" where
  "escape_byte c =
     (if unreserved c then [c] else if c = CHR '' '' then ''+''
      else [CHR ''%'', upper_hex (byte c div 16), upper_hex (byte c mod 16)])"

definition query_escape :: "string \<Rightarrow> string" where
  "query_escape s = concat (map escape_byte s)"

text \<open>\<open>unescape\<close> stops with an error at a percent sign without two hexadecimal digits.\<close>

fun query_unescape :: "string \<Rightarrow> string option" where
  "query_unescape [] = Some []"
| "query_unescape (c # s) =
     (if c = CHR ''%'' then
        (case s of
           h1 # h2 # r \<Rightarrow>
             if is_hex h1 \<and> is_hex h2 then map_option ((#) (char_of (hex_val h1 * 16 + hex_val h2))) (query_unescape r) else None
         | _ \<Rightarrow> None)
      else map_option ((#) (if c = CHR ''+'' then CHR '' '' else c)) (query_unescape s))"

lemma upper_hex_props:
  assumes "n < 16"
  shows "is_hex (upper_hex n)" "hex_val (upper_hex n) = n" "unreserved (upper_hex n)"
proof -
  have "byte (upper_hex n) = (if n < 10 then 48 + n else 55 + n)" using assms by (simp add: upper_hex_def)
  with assms show "is_hex (upper_hex n)" "hex_val (upper_hex n) = n" "unreserved (upper_hex n)"
    by (auto simp: is_hex_def hex_val_def is_digit_def unreserved_def)
qed

lemma byte_halves: "byte c div 16 < 16" "byte c mod 16 < 16"
  using nat_of_char_less_256 [of c] by (simp_all add: less_mult_imp_div_less)

text \<open>No separator occurs in escaped text.\<close>

definition url_safe :: "char \<Rightarrow> bool" where
  "url_safe c = (unreserved c \<or> c = CHR ''+'' \<or> c = CHR ''%'')"

lemma not_unreserved: "\<not> unreserved CHR ''&''" "\<not> unreserved CHR '';''" "\<not> unreserved CHR ''=''" "\<not> unreserved CHR ''%''"
  "\<not> unreserved CHR ''+''"
  by (simp_all add: unreserved_def is_digit_def)

lemma escape_safe: "c \<in> set (query_escape s) \<Longrightarrow> url_safe c"
  using upper_hex_props(3) byte_halves by (auto simp: query_escape_def escape_byte_def url_safe_def split: if_splits)

lemma escape_no_sep: "CHR ''&'' \<notin> set (query_escape s)" "CHR '';'' \<notin> set (query_escape s)" "CHR ''='' \<notin> set (query_escape s)"
  using escape_safe [of _ s] not_unreserved by (auto simp: url_safe_def)

lemma unescape_byte: "query_unescape (escape_byte c @ s) = map_option ((#) c) (query_unescape s)"
proof -
  note u = upper_hex_props(1,2) [OF byte_halves(1)] upper_hex_props(1,2) [OF byte_halves(2)]
  have "char_of (byte c div 16 * 16 + byte c mod 16) = c" by (simp only: div_mult_mod_eq) simp
  moreover have "unreserved c \<Longrightarrow> c \<noteq> CHR ''%'' \<and> c \<noteq> CHR ''+''" using not_unreserved by auto
  ultimately show ?thesis by (auto simp: escape_byte_def u)
qed

theorem unescape_escape: "query_unescape (query_escape s) = Some s"
proof (induction s)
  case (Cons c s)
  have "query_escape (c # s) = escape_byte c @ query_escape s" by (simp add: query_escape_def)
  then show ?case using Cons by (simp add: unescape_byte del: query_unescape.simps)
qed (simp add: query_escape_def)

subsection \<open>Values\<close>

type_synonym url_values = "(string \<times> string list) list"

definition values_get :: "url_values \<Rightarrow> string \<Rightarrow> string" where
  "values_get m k = (case map_of m k of Some (v # _) \<Rightarrow> v | _ \<Rightarrow> [])"

definition values_set :: "string \<Rightarrow> string \<Rightarrow> url_values \<Rightarrow> url_values" where
  "values_set k v m = AList.update k [v] m"

definition values_del :: "string \<Rightarrow> url_values \<Rightarrow> url_values" where
  "values_del k m = AList.delete k m"

definition pair_text :: "string \<Rightarrow> string \<Rightarrow> string" where
  "pair_text k v = query_escape k @ CHR ''='' # query_escape v"

definition pair_texts :: "url_values \<Rightarrow> string list" where
  "pair_texts m = concat (map (\<lambda>(k, vs). map (pair_text k) vs) m)"

definition values_encode :: "url_values \<Rightarrow> string" where
  "values_encode m = join_with ''&'' (pair_texts (sort_key fst m))"

definition values_add :: "string \<Rightarrow> string \<Rightarrow> url_values \<Rightarrow> url_values" where
  "values_add k v m = AList.update k (case map_of m k of None \<Rightarrow> [v] | Some vs \<Rightarrow> vs @ [v]) m"

definition str_cut :: "char \<Rightarrow> string \<Rightarrow> string \<times> string" where
  "str_cut d s = (takeWhile (\<lambda>c. c \<noteq> d) s, drop 1 (dropWhile (\<lambda>c. c \<noteq> d) s))"

text \<open>One setting of a query: the map and whether an error has been seen.\<close>

definition parse_setting :: "string \<Rightarrow> url_values \<times> bool \<Rightarrow> url_values \<times> bool" where
  "parse_setting key r =
     (case r of (m, bad) \<Rightarrow>
        if CHR '';'' \<in> set key then (m, True)
        else if key = [] then (m, bad)
        else (case str_cut CHR ''='' key of (k, v) \<Rightarrow>
          (case query_unescape k of
             None \<Rightarrow> (m, True)
           | Some k' \<Rightarrow>
               (case query_unescape v of
                  None \<Rightarrow> (m, True)
                | Some v' \<Rightarrow> (values_add k' v' m, bad)))))"

text \<open>The limit on the number of settings is the default of the library.\<close>

definition max_params :: nat where
  "max_params = 10000"

definition parse_query :: "string \<Rightarrow> url_values \<times> bool" where
  "parse_query q =
     (let settings = split_on CHR ''&'' q
      in if length settings > max_params then ([], True) else fold parse_setting settings ([], False))"

lemma split_join:
  "ps \<noteq> [] \<Longrightarrow> \<forall>p \<in> set ps. d \<notin> set p \<Longrightarrow> split_on d (join_with [d] ps) = ps"
proof (induction "[d]" ps rule: join_with.induct)
  case (3 x y ys)
  then show ?case by (simp add: split_on_append)
qed (simp_all add: split_on_no_sep)

lemma cut_pair: "str_cut CHR ''='' (pair_text k v) = (query_escape k, query_escape v)"
proof -
  have "takeWhile (\<lambda>c. c \<noteq> CHR ''='') (query_escape k @ CHR ''='' # x) = query_escape k"
    "dropWhile (\<lambda>c. c \<noteq> CHR ''='') (query_escape k @ CHR ''='' # x) = CHR ''='' # x" for x
    using escape_no_sep(3) [of k] by (auto simp: takeWhile_append dropWhile_append dropWhile_eq_Nil_conv takeWhile_eq_all_conv)
  then show ?thesis by (simp add: str_cut_def pair_text_def)
qed

lemma parse_pair: "parse_setting (pair_text k v) (m, bad) = (values_add k v m, bad)"
proof -
  have "CHR '';'' \<notin> set (pair_text k v)" "pair_text k v \<noteq> []" using escape_no_sep by (auto simp: pair_text_def)
  then show ?thesis by (simp add: parse_setting_def cut_pair unescape_escape)
qed

lemma fold_pairs:
  "vs \<noteq> [] \<Longrightarrow> k \<notin> fst ` set m \<Longrightarrow> fold parse_setting (map (pair_text k) vs) (m, bad) = (m @ [(k, vs)], bad)"
proof (induction vs rule: rev_induct)
  case (snoc v vs)
  show ?case
  proof (cases "vs = []")
    case True
    then show ?thesis using snoc.prems by (simp add: parse_pair values_add_def update_notin map_of_eq_None_iff [THEN iffD2])
  next
    case False
    have "map_of m k = None" using snoc.prems(2) by (simp add: map_of_eq_None_iff)
    then have "map_of (m @ [(k, vs)]) k = Some vs" by (simp add: map_add_def)
    moreover have "AList.update k u (m @ [(k, vs)]) = m @ [(k, u)]" for u
      using snoc.prems(2) by (induction m) auto
    ultimately show ?thesis using snoc False by (simp add: parse_pair values_add_def)
  qed
qed simp

lemma fold_pair_texts:
  "distinct (map fst m) \<Longrightarrow> \<forall>p \<in> set m. snd p \<noteq> [] \<Longrightarrow> fst ` set m \<inter> fst ` set n = {} \<Longrightarrow>
    fold parse_setting (pair_texts m) (n, bad) = (n @ m, bad)"
proof (induction m arbitrary: n)
  case Nil
  then show ?case by (simp add: pair_texts_def)
next
  case (Cons p m)
  obtain k vs where p: "p = (k, vs)" by fastforce
  have "fold parse_setting (pair_texts (p # m)) (n, bad) = fold parse_setting (pair_texts m) (fold parse_setting (map (pair_text k) vs) (n, bad))"
    by (simp add: pair_texts_def p)
  also have "fold parse_setting (map (pair_text k) vs) (n, bad) = (n @ [(k, vs)], bad)"
    using Cons.prems p by (intro fold_pairs) auto
  also have "fold parse_setting (pair_texts m) (n @ [(k, vs)], bad) = ((n @ [(k, vs)]) @ m, bad)"
    using Cons.prems p by (intro Cons.IH) auto
  finally show ?case by (simp add: p)
qed

text \<open>A query that \<open>Encode\<close> wrote reads back as the same values, its keys in order.\<close>

theorem parse_encode:
  assumes "distinct (map fst m)" "\<forall>p \<in> set m. snd p \<noteq> []" "length (pair_texts m) \<le> max_params"
  shows "parse_query (values_encode m) = (sort_key fst m, False)"
proof (cases "m = []")
  case True
  then show ?thesis by (simp add: values_encode_def pair_texts_def parse_query_def parse_setting_def max_params_def)
next
  case False
  let ?m = "sort_key fst m"
  have m: "distinct (map fst ?m)" "\<forall>p \<in> set ?m. snd p \<noteq> []" "?m \<noteq> []"
    using assms(1,2) False by (simp_all add: distinct_map set_empty [symmetric] del: set_empty)
  have "length (pair_texts n) = sum_list (map (length \<circ> snd) n)" for n
    by (induction n) (auto simp: pair_texts_def)
  then have len: "length (pair_texts ?m) = length (pair_texts m)"
    by (metis mset_map mset_sort sum_mset_sum_list [symmetric])
  obtain k vs n where "?m = (k, vs) # n" "vs \<noteq> []" using m(2,3) by (cases ?m) auto
  then have "pair_texts ?m \<noteq> []" by (simp add: pair_texts_def)
  moreover have "\<forall>t \<in> set (pair_texts ?m). CHR ''&'' \<notin> set t" using escape_no_sep by (auto simp: pair_texts_def pair_text_def)
  ultimately have "split_on CHR ''&'' (values_encode m) = pair_texts ?m" by (simp add: values_encode_def split_join)
  then show ?thesis using fold_pair_texts [OF m(1,2), of "[]" False] assms(3) len by (simp add: parse_query_def)
qed

lemma values_get_of: "map_of m k = Some [v] \<Longrightarrow> values_get m k = v"
  by (simp add: values_get_def)

subsection \<open>Well-formed values\<close>

definition good_values :: "url_values \<Rightarrow> bool" where
  "good_values m = (distinct (map fst m) \<and> (\<forall>p \<in> set m. snd p \<noteq> []))"

lemma good_update: "good_values m \<Longrightarrow> vs \<noteq> [] \<Longrightarrow> good_values (AList.update k vs m)"
proof -
  have "\<forall>p \<in> set m. snd p \<noteq> [] \<Longrightarrow> vs \<noteq> [] \<Longrightarrow> \<forall>p \<in> set (AList.update k vs m). snd p \<noteq> []"
    by (induction m) auto
  then show "good_values m \<Longrightarrow> vs \<noteq> [] \<Longrightarrow> good_values (AList.update k vs m)"
    by (simp add: good_values_def distinct_update)
qed

lemma good_values_simps [simp]:
  "good_values []" "good_values m \<Longrightarrow> good_values (values_set k v m)" "good_values m \<Longrightarrow> good_values (values_del k m)"
  "good_values m \<Longrightarrow> good_values (values_add k v m)"
proof -
  show "good_values m \<Longrightarrow> good_values (values_del k m)"
    using distinct_delete [of m k] by (simp add: good_values_def values_del_def) (simp add: AList.delete_eq)
  show "good_values []" by (simp add: good_values_def)
qed (auto simp: values_set_def values_add_def good_update split: option.split)

lemma map_of_values [simp]:
  "map_of (values_set k v m) = (map_of m)(k \<mapsto> [v])" "map_of (values_del k m) = (map_of m)(k := None)"
  by (simp_all add: values_set_def values_del_def)

lemma parse_setting_good: "good_values (fst r) \<Longrightarrow> good_values (fst (parse_setting key r))"
  by (auto simp: parse_setting_def split: prod.split option.split)

lemma parse_query_good: "good_values (fst (parse_query q))"
proof -
  have "good_values (fst r) \<Longrightarrow> good_values (fst (fold parse_setting ks r))" for ks r
    by (induction ks arbitrary: r) (auto simp: parse_setting_good)
  then show ?thesis by (simp add: parse_query_def Let_def)
qed

text \<open>The number of settings.\<close>

lemma pairs_update: "length (pair_texts (AList.update k vs m)) \<le> length (pair_texts m) + length vs"
  by (induction m) (auto simp: pair_texts_def)

lemma pairs_add: "length (pair_texts (values_add k v m)) \<le> length (pair_texts m) + 1"
  by (induction m) (auto simp: pair_texts_def values_add_def split: option.splits)

lemma pairs_del: "length (pair_texts (values_del k m)) \<le> length (pair_texts m)"
  by (induction m) (auto simp: pair_texts_def values_del_def)

lemma pairs_set: "length (pair_texts (values_set k v m)) \<le> length (pair_texts m) + 1"
  using pairs_update [of k "[v]" m] by (simp add: values_set_def)

lemma pairs_parse: "length (pair_texts (fst (parse_query q))) \<le> length (split_on CHR ''&'' q)"
proof -
  have step: "length (pair_texts (fst (parse_setting k r))) \<le> length (pair_texts (fst r)) + 1" for k r
    using pairs_add le_SucI by (auto simp: parse_setting_def split: prod.split option.split)
  have "length (pair_texts (fst (fold parse_setting ks r))) \<le> length (pair_texts (fst r)) + length ks" for ks r
  proof (induction ks arbitrary: r)
    case (Cons k ks)
    from Cons.IH [of "parse_setting k r"] step [of k r] show ?case by simp
  qed simp
  from this [of "split_on CHR ''&'' q" "([], False)"] show ?thesis
    by (simp add: parse_query_def Let_def) (simp add: pair_texts_def)
qed

text \<open>Reading back what was encoded, as maps.\<close>

lemma parse_encode_map:
  assumes "good_values m" "length (pair_texts m) \<le> max_params"
  obtains n where "parse_query (values_encode m) = (n, False)" "map_of n = map_of m"
proof
  show "parse_query (values_encode m) = (sort_key fst m, False)"
    using assms by (intro parse_encode) (simp_all add: good_values_def)
  have "distinct (map fst (sort_key fst m))" using assms(1) by (simp add: good_values_def distinct_map)
  then show "map_of (sort_key fst m) = map_of m"
    using assms(1) by (subst map_of_inject_set) (simp_all add: good_values_def)
qed

end
