(* ===== verification/Oauth_Token.thy ===== *)
theory Oauth_Token
  imports Oauth_Pkce Go_Url
begin

text \<open>
  The files \<open>token.go\<close> and \<open>authcode.go\<close> of the package \<open>oauth\<close>: tokens and their JSON form, the
  token endpoint, and the authorization URL.  The HTTP client and the parser of absolute URLs are
  parameters; queries and form bodies are modelled in \<open>Go_Url\<close>.
\<close>

subsection \<open>Tokens\<close>

text \<open>\<open>ot_extra\<close> keeps the JSON value of each remaining member: numbers as they are spelled.\<close>

record oauth_token =
  ot_access :: string
  ot_refresh :: string
  ot_type :: string
  ot_scope :: string
  ot_expires :: gotime
  ot_extra :: "(string \<times> json) list"

definition zero_token :: oauth_token where
  "zero_token = \<lparr>ot_access = [], ot_refresh = [], ot_type = [], ot_scope = [], ot_expires = zero_time, ot_extra = []\<rparr>"

definition token_expired :: "oauth_token \<Rightarrow> world \<Rightarrow> bool \<times> world" where
  "token_expired t w =
     (if is_zero_time (ot_expires t) then (False, w) else (case time_now w of (n, w1) \<Rightarrow> (t_after n (ot_expires t), w1)))"

record token_wire =
  tw_access :: string
  tw_refresh :: string
  tw_type :: string
  tw_scope :: string
  tw_expires_in :: int64

definition zero_wire :: token_wire where
  "zero_wire = \<lparr>tw_access = [], tw_refresh = [], tw_type = [], tw_scope = [], tw_expires_in = 0\<rparr>"

definition wire_fields :: "token_wire fields" where
  "wire_fields =
     [(''access_token'', dec_field dec_string tw_access (\<lambda>v t. t\<lparr>tw_access := v\<rparr>)),
      (''refresh_token'', dec_field dec_string tw_refresh (\<lambda>v t. t\<lparr>tw_refresh := v\<rparr>)),
      (''token_type'', dec_field dec_string tw_type (\<lambda>v t. t\<lparr>tw_type := v\<rparr>)),
      (''scope'', dec_field dec_string tw_scope (\<lambda>v t. t\<lparr>tw_scope := v\<rparr>)),
      (''expires_in'', dec_field dec_int64 tw_expires_in (\<lambda>v t. t\<lparr>tw_expires_in := v\<rparr>))]"

text \<open>
  \<open>json.Unmarshal\<close> into \<open>map[string]any\<close>.  A number becomes a \<open>float64\<close>, so one that rounds beyond
  the largest is an error; \<open>num_fits\<close> decides that exactly, on the decimal spelling.
\<close>

definition float_limit :: int where
  "float_limit = 2 ^ 1024 - 2 ^ 970"

definition exponent_of :: "string \<Rightarrow> int" where
  "exponent_of s =
     (case s of [] \<Rightarrow> 0 | _ # r \<Rightarrow>
        (case r of [] \<Rightarrow> 0 | c # ds \<Rightarrow>
           if c = CHR ''-'' then - case_option 0 id (digits_val 0 ds)
           else if c = CHR ''+'' then case_option 0 id (digits_val 0 ds)
           else case_option 0 id (digits_val 0 r)))"

definition num_fits :: "string \<Rightarrow> bool" where
  "num_fits raw =
     (case scan_int (case raw of c # r \<Rightarrow> if c = CHR ''-'' then r else raw | [] \<Rightarrow> raw) of
        None \<Rightarrow> True
      | Some (ip, s) \<Rightarrow>
     (case scan_frac s of
        None \<Rightarrow> True
      | Some (fp, ep) \<Rightarrow>
          (let m = case_option 0 id (digits_val 0 (ip @ drop 1 fp)); e = exponent_of ep - int (length (drop 1 fp))
           in if 0 \<le> e then m * 10 ^ nat e < float_limit else m < float_limit * 10 ^ nat (- e))))"

fun any_fits :: "json \<Rightarrow> bool" where
  "any_fits (JNum raw) = num_fits raw"
| "any_fits (JArr vs) = list_all any_fits vs"
| "any_fits (JObj ms) = list_all (\<lambda>m. any_fits (snd m)) ms"
| "any_fits _ = True"

definition put_member :: "string \<times> json \<Rightarrow> (string \<times> json) list \<Rightarrow> (string \<times> json) list" where
  "put_member m all = AList.update (unquote (fst m)) (snd m) all"

fun any_map :: "json \<Rightarrow> (string \<times> json) list option" where
  "any_map JNull = Some []"
| "any_map (JObj ms) = (if list_all (\<lambda>m. any_fits (snd m)) ms then Some (fold put_member ms []) else None)"
| "any_map _ = None"

definition standard_keys :: "string list" where
  "standard_keys = [''access_token'', ''refresh_token'', ''token_type'', ''scope'', ''expires_in'']"

definition max_expires_in :: int64 where
  "max_expires_in = div64 0x7FFFFFFFFFFFFFFF second"

definition token_unmarshal :: "string \<Rightarrow> oauth_token \<Rightarrow> world \<Rightarrow> (goerr option \<times> oauth_token) \<times> world" where
  "token_unmarshal data t w =
     (case json_parse data of
        None \<Rightarrow> ((Some (WrapErr ''oauth: unmarshal token: '' (MsgErr ''json'')), t), w)
      | Some j \<Rightarrow>
     (case dec_struct wire_fields j zero_wire of
        None \<Rightarrow> ((Some (WrapErr ''oauth: unmarshal token: '' (MsgErr ''json'')), t), w)
      | Some wire \<Rightarrow>
     (case any_map j of
        None \<Rightarrow> ((Some (WrapErr ''oauth: unmarshal token extras: '' (MsgErr ''json'')), t), w)
      | Some all \<Rightarrow>
          (let rest = fold AList.delete standard_keys all in
           if max_expires_in <s tw_expires_in wire then ((Some (MsgErr ''oauth: expires_in exceeds supported duration''), t), w)
           else
           (let parsed = \<lparr>ot_access = tw_access wire, ot_refresh = tw_refresh wire, ot_type = tw_type wire,
                  ot_scope = tw_scope wire, ot_expires = zero_time, ot_extra = rest\<rparr> in
            if 0 <s tw_expires_in wire then
              (case time_now w of (n, w1) \<Rightarrow> ((None, parsed\<lparr>ot_expires := t_add n (tw_expires_in wire * second)\<rparr>), w1))
            else ((None, parsed), w))))))"

text \<open>\<open>json.Unmarshal\<close> checks the syntax before it calls \<open>UnmarshalJSON\<close>.\<close>

definition unmarshal_token :: "string \<Rightarrow> oauth_token \<Rightarrow> world \<Rightarrow> (goerr option \<times> oauth_token) \<times> world" where
  "unmarshal_token data t w =
     (case json_parse data of None \<Rightarrow> ((Some (MsgErr ''json''), t), w) | Some _ \<Rightarrow> token_unmarshal data t w)"

subsection \<open>Errors of the token endpoint\<close>

record token_error =
  te_code :: string
  te_description :: string
  te_uri :: string
  te_status :: int
  te_body :: string

definition token_error_text :: "token_error \<Rightarrow> string" where
  "token_error_text e =
     (if te_code e \<noteq> [] \<and> te_description e \<noteq> [] then
        ''oauth: token endpoint returned '' @ te_code e @ '': '' @ te_description e
      else if te_code e \<noteq> [] then ''oauth: token endpoint returned '' @ te_code e
      else if te_status e \<noteq> 0 then ''oauth: token endpoint returned HTTP '' @ int_text (te_status e)
      else ''oauth: token endpoint error'')"

record error_wire =
  ew_error :: string
  ew_description :: string
  ew_uri :: string

definition error_fields :: "error_wire fields" where
  "error_fields =
     [(''error'', dec_field dec_string ew_error (\<lambda>v t. t\<lparr>ew_error := v\<rparr>)),
      (''error_description'', dec_field dec_string ew_description (\<lambda>v t. t\<lparr>ew_description := v\<rparr>)),
      (''error_uri'', dec_field dec_string ew_uri (\<lambda>v t. t\<lparr>ew_uri := v\<rparr>))]"

definition parse_token_error :: "int \<Rightarrow> string \<Rightarrow> token_error" where
  "parse_token_error status body =
     (let te = \<lparr>te_code = [], te_description = [], te_uri = [], te_status = status, te_body = body\<rparr> in
      case json_parse body of
        None \<Rightarrow> te
      | Some j \<Rightarrow>
          (case dec_struct error_fields j \<lparr>ew_error = [], ew_description = [], ew_uri = []\<rparr> of
             None \<Rightarrow> te
           | Some wire \<Rightarrow> te\<lparr>te_code := ew_error wire, te_description := ew_description wire, te_uri := ew_uri wire\<rparr>))"

subsection \<open>Configuration and the network\<close>

record config =
  cf_client_id :: string
  cf_client_secret :: string
  cf_auth_url :: string
  cf_token_url :: string
  cf_redirect_url :: string
  cf_scopes :: "string list"

text \<open>A parsed URL: the parts the code looks at, and the rest of it.\<close>

record url =
  u_scheme :: string
  u_host :: string
  u_raw_query :: string
  u_fragment :: string
  u_rest :: string

record http_request =
  hq_method :: string
  hq_url :: string
  hq_content_type :: string
  hq_accept :: string
  hq_body :: string

text \<open>\<open>hp_fault\<close> is the error a reader of the body meets after its bytes.\<close>

record http_response =
  hp_status :: int
  hp_body :: string
  hp_fault :: "goerr option"

text \<open>What a client does about redirects: its own policy, or the refusal with an error.\<close>

datatype redirects = Follow | Refuse goerr

type_synonym 's http_client = "redirects \<Rightarrow> http_request \<Rightarrow> 's \<Rightarrow> (goerr + http_response) \<times> 's"

record 's net =
  net_parse :: "string \<Rightarrow> goerr + url"
  net_string :: "url \<Rightarrow> string"
  net_default_client :: "int \<Rightarrow> 's http_client"

definition max_token_response :: nat where
  "max_token_response = 2 ^ 20"

definition read_limited :: "nat \<Rightarrow> http_response \<Rightarrow> goerr + string" where
  "read_limited n r =
     (if n \<le> length (hp_body r) then Inr (take n (hp_body r))
      else case hp_fault r of Some e \<Rightarrow> Inl e | None \<Rightarrow> Inr (hp_body r))"

datatype token_failure = PlainFail goerr | ServerFail token_error

definition read_token :: "http_response \<Rightarrow> world \<Rightarrow> (token_failure + oauth_token) \<times> world" where
  "read_token r w =
     (case read_limited (max_token_response + 1) r of
        Inl e \<Rightarrow> (Inl (PlainFail (WrapErr ''oauth: read token response: '' e)), w)
      | Inr body \<Rightarrow>
          if length body > max_token_response then (Inl (PlainFail (Sentinel ErrTokenResponseTooLarge)), w)
          else if hp_status r < 200 \<or> hp_status r \<ge> 300 then (Inl (ServerFail (parse_token_error (hp_status r) body)), w)
          else
     (case unmarshal_token body zero_token w of
        ((Some e, t), w1) \<Rightarrow> (Inl (PlainFail (WrapErr ''oauth: parse token response: '' e)), w1)
      | ((None, t), w1) \<Rightarrow>
          if ot_access t = [] then
            (let te = parse_token_error (hp_status r) body
             in if te_code te \<noteq> [] then (Inl (ServerFail te), w1) else (Inl (PlainFail (Sentinel ErrInvalidTokenResponse)), w1))
          else (Inr t, w1)))"

definition post_token_form :: "'s net \<Rightarrow> 's http_client option \<Rightarrow> config \<Rightarrow> url_values \<Rightarrow> 's \<Rightarrow> world \<Rightarrow> (token_failure + oauth_token) \<times> 's \<times> world" where
  "post_token_form nt cl c form s w =
     (if cf_token_url c = [] then (Inl (PlainFail (MsgErr ''oauth: Config.TokenURL is empty'')), s, w)
      else case net_parse nt (cf_token_url c) of
        Inl e \<Rightarrow> (Inl (PlainFail (WrapErr ''oauth: build request: '' e)), s, w)
      | Inr u \<Rightarrow>
          (let req = \<lparr>hq_method = ''POST'', hq_url = cf_token_url c, hq_content_type = ''application/x-www-form-urlencoded'',
                 hq_accept = ''application/json'', hq_body = values_encode form\<rparr>;
               client = (case cl of None \<Rightarrow> net_default_client nt 30 | Some f \<Rightarrow> f)
           in case client (Refuse (Sentinel ErrTokenRedirect)) req s of
                (Inl e, s1) \<Rightarrow> (Inl (PlainFail (WrapErr ''oauth: post token endpoint: '' e)), s1, w)
              | (Inr r, s1) \<Rightarrow> (case read_token r w of (res, w1) \<Rightarrow> (res, s1, w1))))"

definition exchange_form :: "config \<Rightarrow> string \<Rightarrow> string \<Rightarrow> url_values" where
  "exchange_form c code verifier =
     (let form = [(''grant_type'', [''authorization_code'']), (''code'', [code]), (''redirect_uri'', [cf_redirect_url c]),
            (''client_id'', [cf_client_id c])];
          form1 = (if verifier \<noteq> [] then values_set ''code_verifier'' verifier form else form)
      in if cf_client_secret c \<noteq> [] then values_set ''client_secret'' (cf_client_secret c) form1 else form1)"

definition exchange :: "'s net \<Rightarrow> 's http_client option \<Rightarrow> config \<Rightarrow> string \<Rightarrow> string \<Rightarrow> 's \<Rightarrow> world \<Rightarrow> (token_failure + oauth_token) \<times> 's \<times> world" where
  "exchange nt cl c code verifier s w = post_token_form nt cl c (exchange_form c code verifier) s w"

definition refresh_form :: "config \<Rightarrow> string \<Rightarrow> url_values" where
  "refresh_form c refresh_token =
     (let form = [(''grant_type'', [''refresh_token'']), (''refresh_token'', [refresh_token]), (''client_id'', [cf_client_id c])]
      in if cf_client_secret c \<noteq> [] then values_set ''client_secret'' (cf_client_secret c) form else form)"

definition refresh :: "'s net \<Rightarrow> 's http_client option \<Rightarrow> config \<Rightarrow> string \<Rightarrow> 's \<Rightarrow> world \<Rightarrow> (token_failure + oauth_token) \<times> 's \<times> world" where
  "refresh nt cl c refresh_token s w = post_token_form nt cl c (refresh_form c refresh_token) s w"

subsection \<open>The authorization URL\<close>

definition auth_params :: "config \<Rightarrow> string \<Rightarrow> pkce \<Rightarrow> url_values \<Rightarrow> goerr + url_values" where
  "auth_params c state pk q =
     (let q1 = values_set ''state'' state (values_set ''redirect_uri'' (cf_redirect_url c)
                 (values_set ''client_id'' (cf_client_id c) (values_set ''response_type'' ''code'' q)));
          q2 = values_del ''code_challenge_method'' (values_del ''code_challenge'' (values_del ''scope'' q1));
          q3 = (if cf_scopes c \<noteq> [] then values_set ''scope'' (join_with '' '' (cf_scopes c)) q2 else q2)
      in if pk_challenge pk \<noteq> [] then
           (if pk_method pk \<noteq> MethodS256 then Inl (MsgErr ''oauth: authorization requires S256 PKCE'')
            else Inr (values_set ''code_challenge_method'' (pk_method pk) (values_set ''code_challenge'' (pk_challenge pk) q3)))
         else Inr q3)"

definition auth_code_url_checked :: "'s net \<Rightarrow> config \<Rightarrow> string \<Rightarrow> pkce \<Rightarrow> goerr + string" where
  "auth_code_url_checked nt c state pk =
     (case net_parse nt (cf_auth_url c) of
        Inl e \<Rightarrow> Inl (MsgErr ''oauth: invalid authorization endpoint'')
      | Inr u \<Rightarrow>
          if u_host u = [] \<or> (u_scheme u \<noteq> ''https'' \<and> u_scheme u \<noteq> ''http'') \<or> u_fragment u \<noteq> []
          then Inl (MsgErr ''oauth: invalid authorization endpoint'')
          else
     (case parse_query (u_raw_query u) of
        (q, bad) \<Rightarrow>
          if bad then Inl (MsgErr ''oauth: invalid authorization endpoint query'')
          else (case auth_params c state pk q of
                  Inl e \<Rightarrow> Inl e
                | Inr q' \<Rightarrow> Inr (net_string nt (u\<lparr>u_raw_query := values_encode q'\<rparr>)))))"

definition auth_code_url :: "'s net \<Rightarrow> config \<Rightarrow> string \<Rightarrow> pkce \<Rightarrow> string" where
  "auth_code_url nt c state pk = (case auth_code_url_checked nt c state pk of Inl _ \<Rightarrow> [] | Inr raw \<Rightarrow> raw)"

subsection \<open>Parsing a token\<close>

lemma max_expires: "max_expires_in = 9223372036" "sint max_expires_in = 9223372036"
proof -
  show m: "max_expires_in = 9223372036" by (simp add: max_expires_in_def div64_def trunc_div_def second_def)
  show "sint max_expires_in = 9223372036" unfolding m by simp
qed

lemma fits: "max_expires_in <s x \<longleftrightarrow> 9223372036 < sint x"
  by (simp add: word_sless_alt max_expires)

lemma expiry_exact: "0 < sint x \<Longrightarrow> sint x \<le> 9223372036 \<Longrightarrow> sint (x * second) = sint x * 1000000000"
  using signed_take_bit_int_eq_self [of 63 "sint x * 1000000000"] by (simp add: sint_word_ariths second_def)

lemma map_of_fold_delete: "map_of (fold AList.delete ks m) k = (if k \<in> set ks then None else map_of m k)"
  by (induction ks arbitrary: m) auto

lemma map_of_put_members:
  "map_of (fold put_member ms all) k = (case map_of (rev (map (map_prod unquote id) ms)) k of None \<Rightarrow> map_of all k | Some v \<Rightarrow> Some v)"
  by (induction ms arbitrary: all) (auto simp: put_member_def AList.update_conv' map_add_def split: option.splits)


lemma any_map_SomeD:
  "any_map j = Some all \<Longrightarrow> map_of all k = (case j of JObj ms \<Rightarrow> map_of (rev (map (map_prod unquote id) ms)) k | _ \<Rightarrow> None)"
  by (cases j) (auto simp: map_of_put_members split: if_splits option.splits)

lemma token_parsed:
  assumes "json_parse data = Some j" "dec_struct wire_fields j zero_wire = Some wire" "any_map j = Some all"
    "sint (tw_expires_in wire) \<le> 9223372036"
  shows "\<exists>t' w'. token_unmarshal data t w = ((None, t'), w') \<and>
    ot_access t' = tw_access wire \<and> ot_refresh t' = tw_refresh wire \<and> ot_type t' = tw_type wire \<and> ot_scope t' = tw_scope wire \<and>
    ot_extra t' = fold AList.delete standard_keys all \<and>
    (if 0 < sint (tw_expires_in wire) then tns (ot_expires t') = clock w + sint (tw_expires_in wire) * 1000000000
     else ot_expires t' = zero_time)"
  using assms
  by (auto simp: token_unmarshal_def word_sless_alt max_expires(2) Let_def time_now_def t_add_def expiry_exact)

lemma token_refused:
  assumes "\<not> (\<exists>j wire all. json_parse data = Some j \<and> dec_struct wire_fields j zero_wire = Some wire \<and> any_map j = Some all \<and>
    sint (tw_expires_in wire) \<le> 9223372036)"
  shows "\<exists>e. token_unmarshal data t w = ((Some e, t), w)"
  using assms by (auto simp: token_unmarshal_def fits Let_def not_le split: option.splits)

subsection \<open>Token responses\<close>

lemma read_limited_big: "n \<le> length (hp_body r) \<Longrightarrow> read_limited n r = Inr (take n (hp_body r))"
  by (simp add: read_limited_def)

lemma read_limited_small:
  "length (hp_body r) < n \<Longrightarrow> read_limited n r = (case hp_fault r of None \<Rightarrow> Inr (hp_body r) | Some e \<Rightarrow> Inl e)"
  by (simp add: read_limited_def)

lemma read_token_big: "max_token_response < length (hp_body r) \<Longrightarrow> read_token r w = (Inl (PlainFail (Sentinel ErrTokenResponseTooLarge)), w)"
  by (simp add: read_token_def read_limited_big)

lemma read_token_small:
  assumes "length (hp_body r) \<le> max_token_response"
  shows "read_token r w =
    (case hp_fault r of
       Some e \<Rightarrow> (Inl (PlainFail (WrapErr ''oauth: read token response: '' e)), w)
     | None \<Rightarrow>
         if hp_status r < 200 \<or> hp_status r \<ge> 300 then (Inl (ServerFail (parse_token_error (hp_status r) (hp_body r))), w)
         else
    (case unmarshal_token (hp_body r) zero_token w of
       ((Some e, t), w1) \<Rightarrow> (Inl (PlainFail (WrapErr ''oauth: parse token response: '' e)), w1)
     | ((None, t), w1) \<Rightarrow>
         if ot_access t = [] then
           (let te = parse_token_error (hp_status r) (hp_body r)
            in if te_code te \<noteq> [] then (Inl (ServerFail te), w1) else (Inl (PlainFail (Sentinel ErrInvalidTokenResponse)), w1))
         else (Inr t, w1)))"
  using assms by (simp add: read_token_def read_limited_small split: option.split)

lemma parse_token_error_raw [simp]: "te_status (parse_token_error st body) = st" "te_body (parse_token_error st body) = body"
  by (simp_all add: parse_token_error_def Let_def split: option.split)

subsection \<open>Requests that are watched\<close>

text \<open>A client that keeps the list of its calls.\<close>

definition watched :: "'s http_client \<Rightarrow> ('s \<times> (redirects \<times> http_request) list) http_client" where
  "watched f rd req st = (case st of (s, calls) \<Rightarrow> (case f rd req s of (r, s1) \<Rightarrow> (r, (s1, calls @ [(rd, req)]))))"

definition token_request :: "config \<Rightarrow> url_values \<Rightarrow> http_request" where
  "token_request c form = \<lparr>hq_method = ''POST'', hq_url = cf_token_url c, hq_content_type = ''application/x-www-form-urlencoded'',
     hq_accept = ''application/json'', hq_body = values_encode form\<rparr>"

lemma post_watched:
  "snd (fst (snd (post_token_form nt (Some (watched f)) c form (s, []) w))) =
     (if cf_token_url c = [] \<or> \<not> is_ok (net_parse nt (cf_token_url c)) then []
      else [(Refuse (Sentinel ErrTokenRedirect), token_request c form)])"
  by (auto simp: post_token_form_def watched_def token_request_def Let_def split: sum.split prod.split)

lemma form_body:
  assumes "good_values form" "length (pair_texts form) \<le> 6"
  shows "\<exists>n. parse_query (hq_body (token_request c form)) = (n, False) \<and> map_of n = map_of form"
proof -
  have "length (pair_texts form) \<le> max_params" using assms(2) by (simp add: max_params_def)
  from parse_encode_map [OF assms(1) this] show ?thesis by (metis token_request_def http_request.select_convs(5))
qed

lemma exchange_form_map:
  "map_of (exchange_form c code verifier) = ([''grant_type'' \<mapsto> [''authorization_code''], ''code'' \<mapsto> [code],
     ''redirect_uri'' \<mapsto> [cf_redirect_url c], ''client_id'' \<mapsto> [cf_client_id c]]
        (''code_verifier'' := (if verifier = [] then None else Some [verifier]),
         ''client_secret'' := (if cf_client_secret c = [] then None else Some [cf_client_secret c])))"
  by (rule ext) (simp add: exchange_form_def Let_def)

lemma refresh_form_map:
  "map_of (refresh_form c token) = ([''grant_type'' \<mapsto> [''refresh_token''], ''refresh_token'' \<mapsto> [token], ''client_id'' \<mapsto> [cf_client_id c]]
        (''client_secret'' := (if cf_client_secret c = [] then None else Some [cf_client_secret c])))"
  by (rule ext) (simp add: refresh_form_def Let_def)

lemma pairs_set_if: "length (pair_texts (if b then values_set k v m else m)) \<le> length (pair_texts m) + 1"
  using pairs_set by auto

lemma good_set_if: "good_values m \<Longrightarrow> good_values (if b then values_set k v m else m)"
  by simp

lemma exchange_form_good: "good_values (exchange_form c code verifier)" "length (pair_texts (exchange_form c code verifier)) \<le> 6"
proof -
  let ?f = "[(''grant_type'', [''authorization_code'']), (''code'', [code]), (''redirect_uri'', [cf_redirect_url c]), (''client_id'', [cf_client_id c])]"
  have g: "good_values ?f" "length (pair_texts ?f) = 4" by (simp_all add: good_values_def pair_texts_def)
  then show "good_values (exchange_form c code verifier)" unfolding exchange_form_def Let_def by (intro good_set_if)
  show "length (pair_texts (exchange_form c code verifier)) \<le> 6"
    unfolding exchange_form_def Let_def using g(2)
    by (intro order_trans [OF pairs_set_if] order_trans [OF add_right_mono [OF pairs_set_if]]) simp
qed

lemma refresh_form_good: "good_values (refresh_form c token)" "length (pair_texts (refresh_form c token)) \<le> 6"
proof -
  let ?f = "[(''grant_type'', [''refresh_token'']), (''refresh_token'', [token]), (''client_id'', [cf_client_id c])]"
  have g: "good_values ?f" "length (pair_texts ?f) = 3" by (simp_all add: good_values_def pair_texts_def)
  then show "good_values (refresh_form c token)" unfolding refresh_form_def Let_def by (intro good_set_if)
  show "length (pair_texts (refresh_form c token)) \<le> 6"
    unfolding refresh_form_def Let_def using g(2) by (intro order_trans [OF pairs_set_if]) simp
qed

text \<open>The settings of the URL as a map: the endpoint's own, with those of the flow put in or taken out.\<close>

definition auth_settings :: "config \<Rightarrow> string \<Rightarrow> pkce \<Rightarrow> (string \<rightharpoonup> string list) \<Rightarrow> (string \<rightharpoonup> string list)" where
  "auth_settings c state pk base =
     (base(''response_type'' \<mapsto> [''code''], ''client_id'' \<mapsto> [cf_client_id c], ''redirect_uri'' \<mapsto> [cf_redirect_url c],
        ''state'' \<mapsto> [state]))
       (''scope'' := (if cf_scopes c = [] then None else Some [join_with '' '' (cf_scopes c)]),
        ''code_challenge'' := (if pk_challenge pk = [] then None else Some [pk_challenge pk]),
        ''code_challenge_method'' := (if pk_challenge pk = [] then None else Some [MethodS256]))"

lemma auth_params_good: "auth_params c state pk m = Inr q \<Longrightarrow> good_values m \<Longrightarrow> good_values q"
  by (auto simp: auth_params_def Let_def split: if_splits)

lemma auth_params_pairs:
  assumes "auth_params c state pk m = Inr q"
  shows "length (pair_texts q) \<le> length (pair_texts m) + 7"
proof -
  define m1 where "m1 = values_set ''response_type'' ''code'' m"
  define m2 where "m2 = values_set ''client_id'' (cf_client_id c) m1"
  define m3 where "m3 = values_set ''redirect_uri'' (cf_redirect_url c) m2"
  define m4 where "m4 = values_set ''state'' state m3"
  define m5 where "m5 = values_del ''code_challenge_method'' (values_del ''code_challenge'' (values_del ''scope'' m4))"
  define m6 where "m6 = (if cf_scopes c \<noteq> [] then values_set ''scope'' (join_with '' '' (cf_scopes c)) m5 else m5)"
  note ms = m1_def [symmetric] m2_def [symmetric] m3_def [symmetric] m4_def [symmetric] m5_def [symmetric] m6_def [symmetric]
  have "length (pair_texts m1) \<le> length (pair_texts m) + 1" "length (pair_texts m2) \<le> length (pair_texts m1) + 1"
    "length (pair_texts m3) \<le> length (pair_texts m2) + 1" "length (pair_texts m4) \<le> length (pair_texts m3) + 1"
    unfolding m1_def m2_def m3_def m4_def by (rule pairs_set)+
  moreover have "length (pair_texts m5) \<le> length (pair_texts m4)"
    unfolding m5_def by (meson pairs_del order_trans)
  moreover have "length (pair_texts m6) \<le> length (pair_texts m5) + 1" unfolding m6_def by (rule pairs_set_if)
  moreover have "length (pair_texts q) \<le> length (pair_texts m6) + 2"
    using assms pairs_set [of "''code_challenge''" "pk_challenge pk" m6]
      pairs_set [of "''code_challenge_method''" "pk_method pk" "values_set ''code_challenge'' (pk_challenge pk) m6"]
    unfolding auth_params_def Let_def ms by (simp split: if_splits)
  ultimately show ?thesis by linarith
qed

lemma auth_params_map: "auth_params c state pk m = Inr q \<Longrightarrow> map_of q = auth_settings c state pk (map_of m)"
  unfolding auth_params_def auth_settings_def Let_def
  by (intro ext) (clarsimp simp del: fun_upd_apply split: if_splits; simp)

lemma auth_params_Inl: "auth_params c state pk m = Inl e \<Longrightarrow> pk_challenge pk \<noteq> [] \<and> pk_method pk \<noteq> MethodS256"
  by (simp add: auth_params_def Let_def split: if_splits)

lemma auth_params_Inr: "auth_params c state pk m = Inr q \<Longrightarrow> pk_challenge pk = [] \<or> pk_method pk = MethodS256"
  by (simp add: auth_params_def Let_def split: if_splits)

definition endpoint_ok :: "url \<Rightarrow> bool" where
  "endpoint_ok u \<longleftrightarrow> u_host u \<noteq> [] \<and> u_scheme u \<in> {''https'', ''http''} \<and> u_fragment u = []"

lemma auth_url_cases:
  assumes "net_parse nt (cf_auth_url c) = Inr u"
  shows "auth_code_url_checked nt c state pk =
      (if \<not> endpoint_ok u then Inl (MsgErr ''oauth: invalid authorization endpoint'')
       else if snd (parse_query (u_raw_query u)) then Inl (MsgErr ''oauth: invalid authorization endpoint query'')
       else case auth_params c state pk (fst (parse_query (u_raw_query u))) of Inl e \<Rightarrow> Inl e
            | Inr q \<Rightarrow> Inr (net_string nt (u\<lparr>u_raw_query := values_encode q\<rparr>)))"
  using assms unfolding auth_code_url_checked_def endpoint_ok_def
  by (cases "parse_query (u_raw_query u)") auto

lemma auth_params_readback:
  assumes "auth_params c state pk (fst (parse_query raw)) = Inr q" "length (split_on CHR ''&'' raw) + 7 \<le> max_params"
  shows "\<exists>n. parse_query (values_encode q) = (n, False) \<and> map_of n = auth_settings c state pk (map_of (fst (parse_query raw)))"
proof -
  have "length (pair_texts q) \<le> max_params"
    using auth_params_pairs [OF assms(1)] pairs_parse [of raw] assms(2) by linarith
  from parse_encode_map [OF auth_params_good [OF assms(1) parse_query_good] this] show ?thesis
    using auth_params_map [OF assms(1)] by metis
qed

lemma auth_url_settings:
  assumes "auth_code_url_checked nt c state pk = Inr raw" "net_parse nt (cf_auth_url c) = Inr u"
    "length (split_on CHR ''&'' (u_raw_query u)) + 7 \<le> max_params"
  shows "\<exists>q n. raw = net_string nt (u\<lparr>u_raw_query := q\<rparr>) \<and> parse_query q = (n, False) \<and>
    (pk_challenge pk = [] \<or> pk_method pk = MethodS256) \<and> endpoint_ok u \<and>
    map_of n = auth_settings c state pk (map_of (fst (parse_query (u_raw_query u))))"
  using assms(1) auth_params_readback [OF _ assms(3)] auth_params_Inr unfolding auth_url_cases [OF assms(2)]
  by (fastforce split: if_splits sum.splits)

definition demo_response :: string where
  "demo_response = ''{\"access_token\":\"a\",\"expires_in\":60,\"id_token\":\"x\"}''"

lemma demo_parsed:
  "json_parse demo_response = Some (JObj [(''access_token'', JStr ''a''), (''expires_in'', JNum ''60''), (''id_token'', JStr ''x'')])"
  by (simp add: demo_response_def) code_simp

lemma demo_wire:
  "dec_struct wire_fields (JObj [(''access_token'', JStr ''a''), (''expires_in'', JNum ''60''), (''id_token'', JStr ''x'')]) zero_wire
     = Some (zero_wire\<lparr>tw_access := ''a'', tw_expires_in := 60\<rparr>)"
  "any_map (JObj [(''access_token'', JStr ''a''), (''expires_in'', JNum ''60''), (''id_token'', JStr ''x'')]) \<noteq> None"
  by code_simp+

text \<open>A standard member in another case is decoded, for names match without regard to case, and it stays
  among the remaining members too.\<close>

lemma case_variant_kept:
  "case token_unmarshal ''{\"ACCESS_TOKEN\":\"a\"}'' zero_token w of
     ((err, t), _) \<Rightarrow> err = None \<and> ot_access t = ''a'' \<and> ot_extra t = [(''ACCESS_TOKEN'', JStr ''a'')]"
proof -
  have "json_parse ''{\"ACCESS_TOKEN\":\"a\"}'' = Some (JObj [(''ACCESS_TOKEN'', JStr ''a'')])"
    "dec_struct wire_fields (JObj [(''ACCESS_TOKEN'', JStr ''a'')]) zero_wire = Some (zero_wire\<lparr>tw_access := ''a''\<rparr>)"
    "any_map (JObj [(''ACCESS_TOKEN'', JStr ''a'')]) = Some [(''ACCESS_TOKEN'', JStr ''a'')]"
    by code_simp+
  from token_parsed [OF this, of zero_token w] show ?thesis
    by (auto simp: zero_wire_def standard_keys_def)
qed

lemma demo_unmarshal: "\<exists>t w'. token_unmarshal demo_response zero_token (demo_world []) = ((None, t), w') \<and> ot_access t = ''a''"
proof -
  obtain all where "any_map (JObj [(''access_token'', JStr ''a''), (''expires_in'', JNum ''60''), (''id_token'', JStr ''x'')]) = Some all"
    using demo_wire(2) by blast
  from token_parsed [OF demo_parsed demo_wire(1) this, of zero_token "demo_world []"] show ?thesis
    by (simp add: zero_wire_def) blast
qed

definition demo_net :: "'s net" where
  "demo_net = \<lparr>net_parse = (\<lambda>raw. Inr \<lparr>u_scheme = ''https'', u_host = ''idp'', u_raw_query = ''state=old&tenant=t'', u_fragment = [], u_rest = []\<rparr>),
     net_string = (\<lambda>u. u_scheme u @ ''://'' @ u_host u @ ''?'' @ u_raw_query u),
     net_default_client = (\<lambda>_ _ _ s. (Inl (MsgErr ''offline''), s))\<rparr>"

definition demo_config :: config where
  "demo_config = \<lparr>cf_client_id = ''id'', cf_client_secret = [], cf_auth_url = ''https://idp?state=old&tenant=t'',
     cf_token_url = ''https://idp/token'', cf_redirect_url = ''http://127.0.0.1:1/callback'', cf_scopes = [''a'', ''b'']\<rparr>"

subsection \<open>Properties\<close>

text \<open>C11: a token response is parsed exactly or not at all.  A failure leaves the old token and the clock
  alone; it happens for bad JSON, a member of the wrong type, a number beyond \<open>float64\<close>, or a
  lifetime beyond the range of \<open>time.Duration\<close>, and for nothing else.  A success takes the
  five standard members, turns a positive lifetime into the expiry without wrap-around, and keeps
  every other member in \<open>Extra\<close>, the last value of a repeated name.\<close>

theorem token_unmarshal_exact:
  assumes "token_unmarshal data t w = ((err, t'), w')"
  shows "(err = None \<longleftrightarrow> (\<exists>j wire all. json_parse data = Some j \<and> dec_struct wire_fields j zero_wire = Some wire \<and>
            any_map j = Some all \<and> sint (tw_expires_in wire) \<le> 9223372036)) \<and>
    (err \<noteq> None \<longrightarrow> t' = t \<and> w' = w) \<and>
    (err = None \<longrightarrow> (\<exists>j wire. json_parse data = Some j \<and> dec_struct wire_fields j zero_wire = Some wire \<and>
       ot_access t' = tw_access wire \<and> ot_refresh t' = tw_refresh wire \<and> ot_type t' = tw_type wire \<and> ot_scope t' = tw_scope wire \<and>
       (if 0 < sint (tw_expires_in wire) then tns (ot_expires t') = clock w + sint (tw_expires_in wire) * 1000000000
        else ot_expires t' = zero_time) \<and>
       map_of (ot_extra t') k = (if k \<in> set standard_keys then None
         else case j of JObj ms \<Rightarrow> map_of (rev (map (map_prod unquote id) ms)) k | _ \<Rightarrow> None)))"
proof (cases "\<exists>j wire all. json_parse data = Some j \<and> dec_struct wire_fields j zero_wire = Some wire \<and> any_map j = Some all \<and>
    sint (tw_expires_in wire) \<le> 9223372036")
  case True
  then obtain j wire all where p: "json_parse data = Some j" "dec_struct wire_fields j zero_wire = Some wire" "any_map j = Some all"
    "sint (tw_expires_in wire) \<le> 9223372036" by blast
  then have "err = None" "ot_extra t' = fold AList.delete standard_keys all"
    using token_parsed [OF p, of t w] assms by auto
  moreover have "map_of (fold AList.delete standard_keys all) k = (if k \<in> set standard_keys then None
      else case j of JObj ms \<Rightarrow> map_of (rev (map (map_prod unquote id) ms)) k | _ \<Rightarrow> None)"
    using any_map_SomeD [OF p(3)] by (simp add: map_of_fold_delete)
  ultimately show ?thesis using token_parsed [OF p, of t w] assms p by simp
next
  case False
  then show ?thesis using token_refused [OF False, of t w] assms by auto
qed

theorem token_unmarshal_exact_witness:
  "\<exists>t w'. token_unmarshal demo_response zero_token (demo_world []) = ((None, t), w') \<and> ot_access t = ''a'' \<and>
     tns (ot_expires t) = clock (demo_world []) + 60000000000 \<and> map_of (ot_extra t) ''id_token'' = Some (JStr ''x'')"
proof -
  obtain err t w' where r: "token_unmarshal demo_response zero_token (demo_world []) = ((err, t), w')" by (metis surj_pair)
  show ?thesis
    using token_unmarshal_exact [OF r, of "''id_token''"] r demo_parsed demo_wire by (auto simp: standard_keys_def zero_wire_def)
qed

text \<open>C36: every answer of the token endpoint is classified.  A body beyond the limit is refused,
  whatever it holds; a broken one is an error; a status outside 2xx is a server error that carries
  the status and the body; a token is returned only for a complete body with a 2xx status that
  parses and has an access token; a 2xx answer without one is the server's own error if it names one.\<close>

theorem token_response_classified:
  assumes "read_token r w = (res, w')"
  shows "(res = Inl (PlainFail (Sentinel ErrTokenResponseTooLarge)) \<longleftrightarrow> max_token_response < length (hp_body r)) \<and>
    (res = Inr t \<longleftrightarrow> length (hp_body r) \<le> max_token_response \<and> hp_fault r = None \<and> 200 \<le> hp_status r \<and> hp_status r < 300 \<and>
       fst (unmarshal_token (hp_body r) zero_token w) = (None, t) \<and> ot_access t \<noteq> []) \<and>
    (res = Inl (ServerFail te) \<longrightarrow> te = parse_token_error (hp_status r) (hp_body r) \<and> te_status te = hp_status r \<and> te_body te = hp_body r \<and>
       (hp_status r < 200 \<or> hp_status r \<ge> 300 \<or> te_code te \<noteq> [])) \<and>
    (length (hp_body r) \<le> max_token_response \<and> hp_fault r = None \<and> (hp_status r < 200 \<or> hp_status r \<ge> 300) \<longrightarrow>
       res = Inl (ServerFail (parse_token_error (hp_status r) (hp_body r))) \<and> w' = w)"
proof (cases "max_token_response < length (hp_body r)")
  case True
  then show ?thesis using assms read_token_big [OF True, of w] by auto
next
  case False
  then have small: "length (hp_body r) \<le> max_token_response" by simp
  show ?thesis
    using assms small unfolding read_token_small [OF small]
    by (auto simp: Let_def split: option.splits if_splits prod.splits)
qed

theorem token_response_classified_witness:
  "\<exists>t w'. read_token \<lparr>hp_status = 200, hp_body = demo_response, hp_fault = None\<rparr> (demo_world []) = (Inr t, w')"
proof -
  obtain t w' where u: "token_unmarshal demo_response zero_token (demo_world []) = ((None, t), w')" "ot_access t = ''a''"
    using demo_unmarshal by blast
  have len: "length demo_response \<le> max_token_response" by (simp add: demo_response_def max_token_response_def)
  obtain res w2 where r: "read_token \<lparr>hp_status = 200, hp_body = demo_response, hp_fault = None\<rparr> (demo_world []) = (res, w2)"
    by fastforce
  from token_response_classified [OF r, of t] have "res = Inr t" using u len by (simp add: unmarshal_token_def demo_parsed)
  then show ?thesis using r by simp
qed

text \<open>C37: credentials go to the token endpoint only.  \<open>Exchange\<close> and \<open>Refresh\<close> make at most one request, with
  the redirect policy replaced by a refusal whatever client is configured: a POST to \<open>TokenURL\<close> whose
  URL carries no parameter of the form, and whose body reads back as exactly the form of RFC 6749,
  the secret and the verifier present only if they are set.\<close>

theorem token_request_confined:
  "let calls1 = snd (fst (snd (exchange nt (Some (watched f)) c code verifier (s, []) w)));
       calls2 = snd (fst (snd (refresh nt (Some (watched f)) c token (s, []) w)));
       sent = (\<lambda>calls form. if cf_token_url c = [] \<or> \<not> is_ok (net_parse nt (cf_token_url c)) then calls = []
         else \<exists>req n. calls = [(Refuse (Sentinel ErrTokenRedirect), req)] \<and> hq_method req = ''POST'' \<and> hq_url req = cf_token_url c \<and>
           parse_query (hq_body req) = (n, False) \<and> map_of n = form)
   in sent calls1 ([''grant_type'' \<mapsto> [''authorization_code''], ''code'' \<mapsto> [code], ''redirect_uri'' \<mapsto> [cf_redirect_url c],
          ''client_id'' \<mapsto> [cf_client_id c]]
        (''code_verifier'' := (if verifier = [] then None else Some [verifier]),
         ''client_secret'' := (if cf_client_secret c = [] then None else Some [cf_client_secret c]))) \<and>
      sent calls2 ([''grant_type'' \<mapsto> [''refresh_token''], ''refresh_token'' \<mapsto> [token], ''client_id'' \<mapsto> [cf_client_id c]]
        (''client_secret'' := (if cf_client_secret c = [] then None else Some [cf_client_secret c])))"
proof -
  have req: "hq_method (token_request c form) = ''POST''" "hq_url (token_request c form) = cf_token_url c" for form
    by (simp_all add: token_request_def)
  obtain n1 where n1: "parse_query (hq_body (token_request c (exchange_form c code verifier))) = (n1, False)"
      "map_of n1 = map_of (exchange_form c code verifier)"
    using form_body [OF exchange_form_good] by blast
  obtain n2 where n2: "parse_query (hq_body (token_request c (refresh_form c token))) = (n2, False)"
      "map_of n2 = map_of (refresh_form c token)"
    using form_body [OF refresh_form_good] by blast
  show ?thesis
    unfolding Let_def exchange_def refresh_def post_watched
    using req n1 n2 by (auto simp: exchange_form_map refresh_form_map)
qed

theorem token_request_confined_witness:
  "\<exists>req n. snd (fst (snd (exchange (demo_net :: (unit \<times> (redirects \<times> http_request) list) net)
         (Some (watched (\<lambda>_ _ s. (Inl (MsgErr ''offline''), s)))) demo_config ''c&1'' ''v'' ((), []) (demo_world [])))) =
       [(Refuse (Sentinel ErrTokenRedirect), req)] \<and>
     hq_url req = ''https://idp/token'' \<and> parse_query (hq_body req) = (n, False) \<and> map_of n ''code'' = Some [''c&1'']"
proof -
  have ok: "cf_token_url demo_config = ''https://idp/token''" "cf_token_url demo_config \<noteq> []"
    "is_ok (net_parse (demo_net :: (unit \<times> (redirects \<times> http_request) list) net) (cf_token_url demo_config))"
    by (simp_all add: demo_config_def demo_net_def)
  note confined = token_request_confined [where token = "''t''", of "demo_net" "\<lambda>_ _ s. (Inl (MsgErr ''offline''), s)" demo_config "''c&1''" "''v''" "()" "demo_world []"]
  obtain req n where
    "snd (fst (snd (exchange (demo_net :: (unit \<times> (redirects \<times> http_request) list) net)
         (Some (watched (\<lambda>_ _ s. (Inl (MsgErr ''offline''), s)))) demo_config ''c&1'' ''v'' ((), []) (demo_world [])))) =
       [(Refuse (Sentinel ErrTokenRedirect), req)]"
    "hq_url req = ''https://idp/token''" "parse_query (hq_body req) = (n, False)" "map_of n ''code'' = Some [''c&1'']"
    using confined ok by (auto simp: Let_def)
  then show ?thesis by (intro exI conjI)
qed

text \<open>C38: the authorization URL carries exactly the parameters of the flow.  For a valid endpoint, and an
  S256 pair or none, the query of the result reads back, without a fault, as the endpoint's own settings
  with response type, client, redirect URI and state replaced by single values, and with scope and
  challenge replaced or removed: an endpoint cannot smuggle in a second state or a challenge.  An endpoint without host,
  of another scheme or with a fragment, a broken query, and a challenge of another method are refused.\<close>

theorem auth_url_exact:
  assumes "net_parse nt (cf_auth_url c) = Inr u" "length (split_on CHR ''&'' (u_raw_query u)) + 7 \<le> max_params"
  shows "case auth_code_url_checked nt c state pk of
      Inl _ \<Rightarrow> u_host u = [] \<or> u_scheme u \<notin> {''https'', ''http''} \<or> u_fragment u \<noteq> [] \<or> snd (parse_query (u_raw_query u)) \<or>
        (pk_challenge pk \<noteq> [] \<and> pk_method pk \<noteq> MethodS256)
    | Inr text \<Rightarrow> \<exists>q n. text = net_string nt (u\<lparr>u_raw_query := q\<rparr>) \<and> parse_query q = (n, False) \<and>
        (pk_challenge pk = [] \<or> pk_method pk = MethodS256) \<and> u_host u \<noteq> [] \<and> u_scheme u \<in> {''https'', ''http''} \<and> u_fragment u = [] \<and>
        map_of n = auth_settings c state pk (map_of (fst (parse_query (u_raw_query u))))"
proof (cases "auth_code_url_checked nt c state pk")
  case (Inl e)
  then show ?thesis
    using auth_params_Inl [of c state pk] unfolding auth_url_cases [OF assms(1)] endpoint_ok_def
    by (auto split: if_splits sum.splits)
next
  case (Inr raw)
  then show ?thesis using auth_url_settings [OF Inr assms] by (auto simp: endpoint_ok_def)
qed

theorem auth_url_exact_witness:
  "\<exists>text q n. auth_code_url_checked (demo_net :: unit net) demo_config ''s&1'' \<lparr>pk_verifier = ''v'', pk_challenge = ''ch'', pk_method = MethodS256\<rparr> = Inr text \<and>
     text = ''https://idp?'' @ q \<and> parse_query q = (n, False) \<and> map_of n ''state'' = Some [''s&1''] \<and> map_of n ''scope'' = Some [''a b'']"
proof -
  let ?u = "\<lparr>u_scheme = ''https'', u_host = ''idp'', u_raw_query = ''state=old&tenant=t'', u_fragment = [], u_rest = []\<rparr>"
  let ?pk = "\<lparr>pk_verifier = ''v'', pk_challenge = ''ch'', pk_method = MethodS256\<rparr>"
  have u: "net_parse (demo_net :: unit net) (cf_auth_url demo_config) = Inr ?u" by (simp add: demo_net_def)
  have l: "length (split_on CHR ''&'' (u_raw_query ?u)) + 7 \<le> max_params" by (simp add: max_params_def)
  have b: "snd (parse_query (u_raw_query ?u)) = False" by code_simp
  note exact = auth_url_exact [OF u l, where state = "''s&1''" and pk = ?pk]
  show ?thesis
  proof (cases "auth_code_url_checked (demo_net :: unit net) demo_config ''s&1'' ?pk")
    case (Inl e)
    then show ?thesis using exact b by simp
  next
    case (Inr raw)
    then obtain q n where q: "raw = net_string (demo_net :: unit net) (?u\<lparr>u_raw_query := q\<rparr>)" "parse_query q = (n, False)"
      "map_of n = auth_settings demo_config ''s&1'' ?pk (map_of (fst (parse_query (u_raw_query ?u))))"
      using exact by auto
    have "map_of n ''state'' = Some [''s&1'']" "map_of n ''scope'' = Some [''a b'']"
      unfolding q(3) by (simp_all add: auth_settings_def demo_config_def)
    then show ?thesis using Inr q(1,2) by (simp add: demo_net_def)
  qed
qed

end
