(* ===== verification/Oauth_Callback.thy ===== *)
theory Oauth_Callback
  imports Oauth_Token
begin

text \<open>
  The file \<open>callback.go\<close> of the package \<open>oauth\<close>: the local server that receives the redirect of the
  authorization server.  The listener and the router of \<open>net/http\<close> are parameters; the handler, its
  delivery to the channel and \<open>Wait\<close> are steps of a relation over the state of the server.
\<close>

subsection \<open>Paths\<close>

text \<open>\<open>unescape\<close> of \<open>net/url\<close> for paths: a plus sign stands for itself.\<close>

fun path_unescape :: "string \<Rightarrow> string option" where
  "path_unescape [] = Some []"
| "path_unescape (c # s) =
     (if c = CHR ''%'' then
        (case s of
           h1 # h2 # r \<Rightarrow>
             if is_hex h1 \<and> is_hex h2 then map_option ((#) (char_of (hex_val h1 * 16 + hex_val h2))) (path_unescape r) else None
         | _ \<Rightarrow> None)
      else map_option ((#) c) (path_unescape s))"

text \<open>\<open>url.ParseRequestURI\<close> of a text that begins with a slash: it has no scheme and no host, and the
  result is the \<open>Path\<close> of the URL.\<close>

definition parse_request_path :: "string \<Rightarrow> string option" where
  "parse_request_path s =
     (if list_ex (\<lambda>c. byte c < 0x20 \<or> byte c = 0x7F) s then None
      else path_unescape (fst (str_cut CHR ''?'' s)))"

fun contains_dslash :: "string \<Rightarrow> bool" where
  "contains_dslash (a # b # s) = ((a = CHR ''/'' \<and> b = CHR ''/'') \<or> contains_dslash (b # s))"
| "contains_dslash _ = False"

subsection \<open>Options, events and the server\<close>

record callback_options =
  co_expected_state :: string
  co_port :: int
  co_path :: string
  co_success_html :: string
  co_error_html :: string

record callback_result =
  cr_code :: string
  cr_state :: string

record callback_event =
  ce_res :: callback_result
  ce_err :: "token_failure option"

record callback_request =
  cq_path :: string
  cq_query :: string

text \<open>The channel \<open>result\<close> is the list of its buffered events; its capacity is one.  \<open>cb_open\<close> says
  that the HTTP server still accepts requests, and \<open>cb_pending\<close> holds those a goroutine is serving.\<close>

record callback_server =
  cb_addr :: string
  cb_path :: string
  cb_once :: bool
  cb_result :: "callback_event list"
  cb_open :: bool
  cb_pending :: "callback_request list"

definition path_error :: goerr where
  "path_error = MsgErr ''oauth: callback path must be a literal absolute path''"

definition callback_path :: "string \<Rightarrow> string" where
  "callback_path p = (let p1 = (if p = [] then ''/callback'' else p) in if has_prefix p1 ''/'' then p1 else ''/'' @ p1)"

definition path_refused :: "string \<Rightarrow> bool" where
  "path_refused p =
     (parse_request_path p \<noteq> Some p \<or>
      contains_any p ([CHR ''{'', CHR ''}'', CHR ''?'', CHR ''#'', CHR '' '', CHR 0x09, CHR 0x0D, CHR 0x0A]) \<or>
      contains_dslash p \<or>
      (p \<noteq> ''/'' \<and> clean p \<noteq> trim_suffix p ''/''))"

type_synonym listener = "string \<Rightarrow> goerr + string"

definition start_callback_server :: "listener \<Rightarrow> callback_options \<Rightarrow> goerr + callback_server" where
  "start_callback_server listen opts =
     (let p = callback_path (co_path opts) in
      if path_refused p then Inl path_error
      else case listen (''127.0.0.1:'' @ int_text (co_port opts)) of
        Inl e \<Rightarrow> Inl (WrapErr ''oauth: bind callback listener: '' e)
      | Inr addr \<Rightarrow> Inr \<lparr>cb_addr = addr, cb_path = p, cb_once = False, cb_result = [], cb_open = True, cb_pending = []\<rparr>)"

definition redirect_url :: "callback_server \<Rightarrow> string" where
  "redirect_url cb = ''http://'' @ cb_addr cb @ cb_path cb"

subsection \<open>Pages\<close>

definition escape_html_char :: "char \<Rightarrow> string" where
  "escape_html_char c =
     (if c = CHR ''&'' then ''&amp;'' else if c = CHR 0x27 then ''&#39;'' else if c = CHR ''<'' then ''&lt;''
      else if c = CHR ''>'' then ''&gt;'' else if c = CHR 0x22 then ''&#34;'' else [c])"

definition escape_html :: "string \<Rightarrow> string" where
  "escape_html s = concat (map escape_html_char s)"

definition page_head :: string where
  "page_head = ''<!doctype html><html><body style='' @ [CHR 0x22] @ ''font-family:sans-serif;padding:2rem'' @ [CHR 0x22, CHR ''>'', CHR 0x0A]"

definition default_success_html :: string where
  "default_success_html =
     page_head @ ''<h2>Login complete</h2><p>You can close this window and return to your terminal.</p></body></html>''"

definition default_error_html :: "string \<Rightarrow> string" where
  "default_error_html reason = page_head @ ''<h2>Login failed</h2><p>'' @ escape_html reason @ ''</p></body></html>''"

record http_reply =
  hr_status :: int
  hr_type :: string
  hr_body :: string

definition write_body :: "int \<Rightarrow> string \<Rightarrow> string \<Rightarrow> http_reply" where
  "write_body status custom fallback =
     \<lparr>hr_status = status, hr_type = ''text/html; charset=utf-8'', hr_body = (if custom = [] then fallback else custom)\<rparr>"

definition not_found :: http_reply where
  "not_found = \<lparr>hr_status = 404, hr_type = ''text/plain; charset=utf-8'', hr_body = ''404 page not found'' @ [CHR 0x0A]\<rparr>"

subsection \<open>The handler\<close>

text \<open>\<open>deliver\<close> sends in the first call only; None stands for a send that would block.\<close>

definition deliver :: "callback_event \<Rightarrow> callback_server \<Rightarrow> callback_server option" where
  "deliver ev cb =
     (if cb_once cb then Some cb
      else if length (cb_result cb) < 1 then Some (cb\<lparr>cb_once := True, cb_result := cb_result cb @ [ev]\<rparr>)
      else None)"

definition handler :: "callback_options \<Rightarrow> callback_request \<Rightarrow> callback_server \<Rightarrow> (http_reply \<times> callback_server) option" where
  "handler opts r cb =
     (if cq_path r \<noteq> cb_path cb then Some (not_found, cb)
      else
     (let q = fst (parse_query (cq_query r)); state = values_get q ''state'' in
      if co_expected_state opts \<noteq> [] \<and> verify_state (co_expected_state opts) state \<noteq> None
      then Some (write_body 400 (co_error_html opts) (default_error_html ''state mismatch''), cb)
      else if values_get q ''error'' \<noteq> [] then
        (let err = \<lparr>te_code = values_get q ''error'', te_description = values_get q ''error_description'',
               te_uri = values_get q ''error_uri'', te_status = 0, te_body = []\<rparr>
         in map_option (\<lambda>cb1. (write_body 400 (co_error_html opts) (default_error_html (values_get q ''error'')), cb1))
              (deliver \<lparr>ce_res = \<lparr>cr_code = [], cr_state = state\<rparr>, ce_err = Some (ServerFail err)\<rparr> cb))
      else if values_get q ''code'' = [] then
        map_option (\<lambda>cb1. (write_body 400 (co_error_html opts) (default_error_html ''missing code''), cb1))
          (deliver \<lparr>ce_res = \<lparr>cr_code = [], cr_state = state\<rparr>,
             ce_err = Some (PlainFail (MsgErr (''oauth: callback missing '' @ [CHR 0x27] @ ''code'' @ [CHR 0x27] @ '' parameter'')))\<rparr> cb)
      else
        map_option (\<lambda>cb1. (write_body 200 (co_success_html opts) default_success_html, cb1))
          (deliver \<lparr>ce_res = \<lparr>cr_code = values_get q ''code'', cr_state = state\<rparr>, ce_err = None\<rparr> cb)))"

subsection \<open>Steps\<close>

text \<open>\<open>Wait\<close> takes a buffered event, or the error of its context; with both ready either may happen.
  \<open>Close\<close> stops the listener, and requests in flight go on; it fails if they take longer than it waits.  A handler touches shared state only in
  \<open>deliver\<close>, so serving a request is one step; requests are served in any order.\<close>

type_synonym wait_answer = "callback_result \<times> token_failure option"

definition wait_event :: "callback_server \<Rightarrow> (wait_answer \<times> callback_server) option" where
  "wait_event cb = (case cb_result cb of [] \<Rightarrow> None | ev # evs \<Rightarrow> Some ((ce_res ev, ce_err ev), cb\<lparr>cb_result := evs\<rparr>))"

definition wait_cancelled :: "goerr \<Rightarrow> wait_answer" where
  "wait_cancelled e = (\<lparr>cr_code = [], cr_state = []\<rparr>, Some (PlainFail e))"

definition close_server :: "bool \<Rightarrow> callback_server \<Rightarrow> goerr option \<times> callback_server" where
  "close_server late cb = ((if late then Some (MsgErr ''context deadline exceeded'') else None), cb\<lparr>cb_open := False\<rparr>)"

datatype cb_label = Arrived callback_request | Served callback_request http_reply
  | Received wait_answer | Cancelled wait_answer | Closed "goerr option"

inductive cb_step :: "callback_options \<Rightarrow> callback_server \<Rightarrow> cb_label \<Rightarrow> callback_server \<Rightarrow> bool" for opts where
  arrive: "cb_open cb \<Longrightarrow> cb_step opts cb (Arrived r) (cb\<lparr>cb_pending := cb_pending cb @ [r]\<rparr>)"
| serve: "r \<in> set (cb_pending cb) \<Longrightarrow> handler opts r cb = Some (reply, cb1) \<Longrightarrow>
    cb_step opts cb (Served r reply) (cb1\<lparr>cb_pending := remove1 r (cb_pending cb1)\<rparr>)"
| receive: "wait_event cb = Some (a, cb1) \<Longrightarrow> cb_step opts cb (Received a) cb1"
| cancel: "cb_step opts cb (Cancelled (wait_cancelled e)) cb"
| shut: "close_server late cb = (res, cb1) \<Longrightarrow> cb_step opts cb (Closed res) cb1"

inductive_cases arrivedE: "cb_step opts cb (Arrived r) cb1"
inductive_cases servedE: "cb_step opts cb (Served r reply) cb1"
inductive_cases receivedE: "cb_step opts cb (Received a) cb1"
inductive_cases cancelledE: "cb_step opts cb (Cancelled a) cb1"
inductive_cases closedE: "cb_step opts cb (Closed res) cb1"
inductive_simps served_iff: "cb_step opts cb (Served r reply) cb1"

inductive cb_run :: "callback_options \<Rightarrow> callback_server \<Rightarrow> cb_label list \<Rightarrow> callback_server \<Rightarrow> bool" for opts cb0 where
  idle: "cb_run opts cb0 [] cb0"
| more_steps: "cb_run opts cb0 tr cb1 \<Longrightarrow> cb_step opts cb1 l cb2 \<Longrightarrow> cb_run opts cb0 (tr @ [l]) cb2"

subsection \<open>What the server promises\<close>

text \<open>The specification of a request: the event it is worth, if it is for the path and passes the state.\<close>

definition event_of :: "callback_options \<Rightarrow> string \<Rightarrow> callback_request \<Rightarrow> callback_event option" where
  "event_of opts p r =
     (let q = fst (parse_query (cq_query r)); state = values_get q ''state''; code = values_get q ''code'' in
      if cq_path r \<noteq> p \<or> (co_expected_state opts \<noteq> [] \<and> state \<noteq> co_expected_state opts) then None
      else if values_get q ''error'' \<noteq> [] then
        Some \<lparr>ce_res = \<lparr>cr_code = [], cr_state = state\<rparr>,
          ce_err = Some (ServerFail \<lparr>te_code = values_get q ''error'', te_description = values_get q ''error_description'',
            te_uri = values_get q ''error_uri'', te_status = 0, te_body = []\<rparr>)\<rparr>
      else Some \<lparr>ce_res = \<lparr>cr_code = code, cr_state = state\<rparr>,
          ce_err = (if code = [] then Some (PlainFail (MsgErr (''oauth: callback missing '' @ [CHR 0x27] @ ''code'' @ [CHR 0x27] @ '' parameter'')))
                    else None)\<rparr>)"

fun served_events :: "callback_options \<Rightarrow> string \<Rightarrow> cb_label list \<Rightarrow> callback_event list" where
  "served_events opts p [] = []"
| "served_events opts p (Served r reply # tr) = (case event_of opts p r of None \<Rightarrow> [] | Some ev \<Rightarrow> [ev]) @ served_events opts p tr"
| "served_events opts p (_ # tr) = served_events opts p tr"

fun received :: "cb_label list \<Rightarrow> wait_answer list" where
  "received [] = []"
| "received (Received a # tr) = a # received tr"
| "received (_ # tr) = received tr"

lemma served_events_append [simp]: "served_events opts p (tr @ tr') = served_events opts p tr @ served_events opts p tr'"
  by (induction opts p tr rule: served_events.induct) auto

lemma received_append [simp]: "received (tr @ tr') = received tr @ received tr'"
  by (induction tr rule: received.induct) auto

lemma deliver_cases:
  "deliver ev cb = (if cb_once cb then Some cb else if cb_result cb = [] then Some (cb\<lparr>cb_once := True, cb_result := [ev]\<rparr>) else None)"
  by (auto simp: deliver_def)

lemma mismatch: "e \<noteq> [] \<and> verify_state e s \<noteq> None \<longleftrightarrow> e \<noteq> [] \<and> s \<noteq> e"
  by (auto simp: verify_state_def ct_compare_eq)

text \<open>The handler against its specification.\<close>

lemma handler_event:
  "map_option snd (handler opts r cb) = (case event_of opts (cb_path cb) r of None \<Rightarrow> Some cb | Some ev \<Rightarrow> deliver ev cb)"
  unfolding handler_def event_of_def Let_def mismatch by (simp add: option.map_comp comp_def option.map_ident)

definition answer :: "callback_event \<Rightarrow> wait_answer" where
  "answer ev = (ce_res ev, ce_err ev)"

definition cb_inv :: "callback_options \<Rightarrow> string \<Rightarrow> cb_label list \<Rightarrow> callback_server \<Rightarrow> bool" where
  "cb_inv opts p tr cb \<longleftrightarrow> cb_path cb = p \<and> (cb_once cb \<longleftrightarrow> served_events opts p tr \<noteq> []) \<and>
     received tr @ map answer (cb_result cb) = take 1 (map answer (served_events opts p tr))"

lemma cb_inv_step:
  assumes "cb_inv opts p tr cb" "cb_step opts cb l cb1"
  shows "cb_inv opts p (tr @ [l]) cb1"
  using assms(2)
proof cases
  case (serve r reply cb2)
  then have "(case event_of opts p r of None \<Rightarrow> Some cb | Some ev \<Rightarrow> deliver ev cb) = Some cb2"
    using handler_event [of opts r cb] assms(1) by (simp add: cb_inv_def)
  then show ?thesis using assms(1) serve
    by (cases "served_events opts p tr") (auto simp: cb_inv_def deliver_cases split: option.splits if_splits)
next
  case (receive a)
  then show ?thesis using assms(1)
    by (auto simp: cb_inv_def wait_event_def answer_def split: list.splits)
qed (use assms(1) in \<open>auto simp: cb_inv_def close_server_def\<close>)

lemma cb_inv_run: "cb_run opts cb0 tr cb \<Longrightarrow> cb_inv opts p [] cb0 \<Longrightarrow> cb_inv opts p tr cb"
  by (induction rule: cb_run.induct) (auto intro: cb_inv_step)

lemma started_inv: "start_callback_server listen opts = Inr cb0 \<Longrightarrow> cb_inv opts (cb_path cb0) [] cb0"
  by (auto simp: start_callback_server_def cb_inv_def Let_def split: if_splits sum.splits)

subsection \<open>Paths and pages\<close>

lemma path_unescape_length:
  "path_unescape s = Some t \<Longrightarrow> length t \<le> length s \<and> (CHR ''%'' \<in> set s \<longrightarrow> length t < length s)"
  by (induction s arbitrary: t rule: path_unescape.induct) (fastforce split: if_splits list.splits)+

lemma path_unescape_plain: "CHR ''%'' \<notin> set s \<Longrightarrow> path_unescape s = Some s"
  by (induction s) auto

lemma literal_unescape:
  assumes "parse_request_path p = Some p" "CHR ''?'' \<notin> set p"
  shows "path_unescape p = Some p"
proof -
  have "takeWhile (\<lambda>c. c \<noteq> CHR ''?'') p = p" using assms(2) by (simp add: takeWhile_eq_all_conv) blast
  moreover have "path_unescape (takeWhile (\<lambda>c. c \<noteq> CHR ''?'') p) = Some p"
    using assms(1) by (simp add: parse_request_path_def str_cut_def split: if_splits)
  ultimately show ?thesis by (simp only:)
qed

lemma literal_path:
  assumes "parse_request_path p = Some p" "CHR ''?'' \<notin> set p" "list_all (\<lambda>c. 0x20 \<le> byte c \<and> byte c \<noteq> 0x7F) q"
  shows "parse_request_path (p @ CHR ''?'' # q) = Some p"
proof -
  have c: "list_all (\<lambda>c. 0x20 \<le> byte c \<and> byte c \<noteq> 0x7F) p"
    using assms(1) by (auto simp: parse_request_path_def list_all_iff list_ex_iff not_less split: if_splits)
  have "path_unescape p = Some p" using assms(1,2) by (rule literal_unescape)
  moreover have "takeWhile (\<lambda>c. c \<noteq> CHR ''?'') (p @ CHR ''?'' # q) = p" using assms(2) by (subst takeWhile_append2) auto
  ultimately show ?thesis using c assms(3)
    by (auto simp: parse_request_path_def str_cut_def list_all_iff list_ex_iff not_less)
qed

lemma not_refused:
  assumes "\<not> path_refused p"
  shows "parse_request_path p = Some p" "CHR ''?'' \<notin> set p" "\<not> contains_dslash p" "p \<noteq> ''/'' \<longrightarrow> clean p = trim_suffix p ''/''"
  using assms by (auto simp: path_refused_def contains_any_def list_ex_iff)

lemma no_percent: "parse_request_path p = Some p \<Longrightarrow> CHR ''?'' \<notin> set p \<Longrightarrow> CHR ''%'' \<notin> set p"
  using literal_unescape path_unescape_length by blast

lemma escape_no_markup: "set (escape_html s) \<inter> {CHR ''<'', CHR ''>'', CHR 0x22, CHR 0x27} = {}"
  by (auto simp: escape_html_def escape_html_char_def split: if_splits)

lemma encode_no_control: "list_all (\<lambda>c. 0x20 \<le> byte c \<and> byte c \<noteq> 0x7F) (values_encode m)"
proof -
  have u: "url_safe c \<Longrightarrow> 0x20 \<le> byte c \<and> byte c \<noteq> 0x7F" for c
    by (auto simp: url_safe_def unreserved_def is_digit_def)
  have j: "c \<in> set (join_with ''&'' ps) \<Longrightarrow> c = CHR ''&'' \<or> (\<exists>p \<in> set ps. c \<in> set p)" for c ps
    by (induction "''&''" ps rule: join_with.induct) auto
  have "c \<in> set (pair_text k v) \<Longrightarrow> c = CHR ''='' \<or> url_safe c" for c k v
    using escape_safe by (auto simp: pair_text_def)
  then have "c \<in> set (values_encode m) \<Longrightarrow> c = CHR ''&'' \<or> c = CHR ''='' \<or> url_safe c" for c
    using j [of c "pair_texts (sort_key fst m)"] by (auto simp: values_encode_def pair_texts_def)
  then show ?thesis using u by (fastforce simp: list_all_iff)
qed

lemma started:
  "start_callback_server listen opts = Inr cb \<Longrightarrow>
     \<not> path_refused (cb_path cb) \<and> cb_path cb = callback_path (co_path opts) \<and> \<not> cb_once cb \<and> cb_result cb = [] \<and>
     listen (''127.0.0.1:'' @ int_text (co_port opts)) = Inr (cb_addr cb)"
  by (auto simp: start_callback_server_def Let_def split: if_splits sum.splits)

lemma callback_path_abs: "has_prefix (callback_path p) ''/''"
  by (simp add: callback_path_def Let_def has_prefix_def)

lemma handler_some:
  assumes "cb_inv opts p tr cb"
  shows "\<exists>reply cb1. handler opts r cb = Some (reply, cb1)"
proof -
  have "cb_once cb \<or> cb_result cb = []" using assms by (auto simp: cb_inv_def)
  then have "map_option snd (handler opts r cb) \<noteq> None" unfolding handler_event by (auto simp: deliver_cases split: option.split)
  then show ?thesis by (metis map_option_is_None not_None_eq surj_pair)
qed

lemma event_state:
  "event_of opts p r = Some ev \<Longrightarrow> co_expected_state opts \<noteq> [] \<Longrightarrow> cr_state (ce_res ev) = co_expected_state opts"
  by (auto simp: event_of_def Let_def split: if_splits)

lemma served_states:
  "ev \<in> set (served_events opts p tr) \<Longrightarrow> co_expected_state opts \<noteq> [] \<Longrightarrow> cr_state (ce_res ev) = co_expected_state opts"
  by (induction opts p tr rule: served_events.induct) (auto split: option.splits dest: event_state [OF sym] event_state)

lemma run_received:
  assumes "start_callback_server listen opts = Inr cb0" "cb_run opts cb0 tr cb"
  shows "received tr @ map answer (cb_result cb) = take 1 (map answer (served_events opts (cb_path cb0) tr))"
  using cb_inv_run [OF assms(2) started_inv [OF assms(1)]] by (simp add: cb_inv_def)

lemma received_state:
  assumes "start_callback_server listen opts = Inr cb0" "cb_run opts cb0 tr cb" "a \<in> set (received tr)" "co_expected_state opts \<noteq> []"
  shows "cr_state (fst a) = co_expected_state opts"
proof -
  have "set (received tr) \<subseteq> answer ` set (served_events opts (cb_path cb0) tr)"
    using run_received [OF assms(1,2)] by (metis image_set order_trans set_append set_take_subset sup_ge1)
  then show ?thesis using served_states assms(3,4) by (fastforce simp: answer_def)
qed

text \<open>Delivery does not close the server: it accepts requests until \<open>Close\<close> is called.\<close>

lemma still_open:
  assumes "cb_run opts cb0 tr cb" "cb_open cb0" "\<And>res. Closed res \<notin> set tr"
  shows "cb_step opts cb (Arrived r) (cb\<lparr>cb_pending := cb_pending cb @ [r]\<rparr>)"
proof -
  have "\<forall>res. Closed res \<notin> set tr \<Longrightarrow> cb_open cb"
    using assms(1,2)
  proof (induction rule: cb_run.induct)
    case (more_steps tr cb1 l cb2)
    from more_steps.hyps(2) show ?case
    proof cases
      case (serve r reply cb3)
      have "map_option snd (handler opts r cb1) = Some cb3" using serve by simp
      then have "cb_open cb3 = cb_open cb1"
        unfolding handler_event by (auto simp: deliver_cases split: option.splits if_splits)
      then show ?thesis using serve more_steps by simp
    qed (use more_steps in \<open>auto simp: wait_event_def split: list.splits\<close>)
  qed simp
  then show ?thesis using assms(3) cb_step.arrive by simp
qed

definition demo_listener :: listener where
  "demo_listener at = Inr ''127.0.0.1:4000''"

definition demo_options :: callback_options where
  "demo_options = \<lparr>co_expected_state = ''s'', co_port = 0, co_path = [], co_success_html = [], co_error_html = []\<rparr>"

definition demo_redirect :: callback_request where
  "demo_redirect = \<lparr>cq_path = ''/callback'', cq_query = ''code=c&state=s''\<rparr>"

definition demo_server :: callback_server where
  "demo_server = \<lparr>cb_addr = ''127.0.0.1:4000'', cb_path = ''/callback'', cb_once = False, cb_result = [], cb_open = True, cb_pending = []\<rparr>"

lemma demo_start: "start_callback_server demo_listener demo_options = Inr demo_server"
  by code_simp

lemma demo_event: "event_of demo_options ''/callback'' demo_redirect = Some \<lparr>ce_res = \<lparr>cr_code = ''c'', cr_state = ''s''\<rparr>, ce_err = None\<rparr>"
  by code_simp

lemma demo_run:
  "\<exists>reply cb. cb_run demo_options demo_server [Arrived demo_redirect, Served demo_redirect reply] cb \<and> cb_pending cb = []"
proof -
  let ?cb = "demo_server\<lparr>cb_pending := [demo_redirect]\<rparr>"
  have "cb_step demo_options demo_server (Arrived demo_redirect) ?cb"
    using cb_step.arrive [of demo_server demo_options demo_redirect] by (simp add: demo_server_def)
  from more_steps [OF idle this] have r: "cb_run demo_options demo_server [Arrived demo_redirect] ?cb" by simp
  have "case handler demo_options demo_redirect ?cb of None \<Rightarrow> False | Some (reply, cb1) \<Rightarrow> cb_pending cb1 = [demo_redirect]"
    by code_simp
  then obtain reply cb1 where h: "handler demo_options demo_redirect ?cb = Some (reply, cb1)" "cb_pending cb1 = [demo_redirect]"
    by (auto split: option.splits)
  from more_steps [OF r serve [OF _ h(1)]] h(2) show ?thesis by fastforce
qed

subsection \<open>Properties\<close>

text \<open>C7: the server is single-shot, however requests interleave.  In every run from a started server the
  answers received by \<open>Wait\<close> and those still buffered are together the first event served and nothing
  else; so at most one call of \<open>Wait\<close> gets an event, no later request can replace it, and with an
  expected state every received answer carries exactly that state, a denied consent too.\<close>

theorem callback_single_shot:
  assumes "start_callback_server listen opts = Inr cb0" "cb_run opts cb0 tr cb"
  shows "received tr @ map answer (cb_result cb) = take 1 (map answer (served_events opts (cb_path cb0) tr)) \<and>
    length (received tr) \<le> 1 \<and>
    (a \<in> set (received tr) \<and> co_expected_state opts \<noteq> [] \<longrightarrow> cr_state (fst a) = co_expected_state opts)"
proof -
  note inv = run_received [OF assms]
  then have "length (received tr) \<le> 1" by (metis length_append length_take min.cobounded2 add_leD1)
  then show ?thesis using inv received_state [OF assms] by blast
qed

theorem callback_single_shot_witness:
  "\<exists>reply cb. cb_run demo_options demo_server [Arrived demo_redirect, Served demo_redirect reply] cb \<and>
     map answer (cb_result cb) = [(\<lparr>cr_code = ''c'', cr_state = ''s''\<rparr>, None)]"
proof -
  obtain reply cb where r: "cb_run demo_options demo_server [Arrived demo_redirect, Served demo_redirect reply] cb"
    using demo_run by blast
  have p: "cb_path demo_server = ''/callback''" by (simp add: demo_server_def)
  have "map answer (cb_result cb) = [(\<lparr>cr_code = ''c'', cr_state = ''s''\<rparr>, None)]"
    using callback_single_shot [OF demo_start r] demo_event unfolding p by (simp add: answer_def)
  with r show ?thesis by (intro exI conjI)
qed

text \<open>C33: nothing blocks and nothing is lost.  In every reachable state each request in flight can be
  served to the end, its handler never waits on the channel; and once one served request is
  worth an event, a first \<open>Wait\<close> can return at once, with exactly that event and no other.\<close>

theorem callback_wait_returns:
  assumes "start_callback_server listen opts = Inr cb0" "cb_run opts cb0 tr cb"
  shows "(r \<in> set (cb_pending cb) \<longrightarrow> (\<exists>reply cb1. cb_step opts cb (Served r reply) cb1)) \<and>
    (served_events opts (cb_path cb0) tr \<noteq> [] \<and> received tr = [] \<longrightarrow>
       (\<exists>cb1. cb_step opts cb (Received (answer (hd (served_events opts (cb_path cb0) tr)))) cb1)) \<and>
    (\<forall>a cb1. cb_step opts cb (Received a) cb1 \<longrightarrow> received tr = [] \<and> served_events opts (cb_path cb0) tr \<noteq> [] \<and>
       a = answer (hd (served_events opts (cb_path cb0) tr)))"
proof -
  have inv: "cb_inv opts (cb_path cb0) tr cb" using cb_inv_run [OF assms(2) started_inv [OF assms(1)]] .
  then have q: "received tr @ map answer (cb_result cb) = take 1 (map answer (served_events opts (cb_path cb0) tr))"
    by (simp add: cb_inv_def)
  have "r \<in> set (cb_pending cb) \<longrightarrow> (\<exists>reply cb1. cb_step opts cb (Served r reply) cb1)"
    using handler_some [OF inv] cb_step.serve by metis
  moreover have "\<exists>cb1. cb_step opts cb (Received (answer (hd (served_events opts (cb_path cb0) tr)))) cb1"
    if s: "served_events opts (cb_path cb0) tr \<noteq> []" "received tr = []"
  proof -
    obtain ev evs where "cb_result cb = ev # evs" "answer ev = answer (hd (served_events opts (cb_path cb0) tr))"
      using q s by (cases "served_events opts (cb_path cb0) tr"; cases "cb_result cb") auto
    then have "wait_event cb = Some (answer (hd (served_events opts (cb_path cb0) tr)), cb\<lparr>cb_result := evs\<rparr>)"
      by (simp add: wait_event_def answer_def)
    then show ?thesis by (intro exI) (rule cb_step.receive)
  qed
  moreover have "received tr = [] \<and> served_events opts (cb_path cb0) tr \<noteq> [] \<and> a = answer (hd (served_events opts (cb_path cb0) tr))"
    if "cb_step opts cb (Received a) cb1" for a cb1
  proof -
    from that obtain ev evs where "cb_result cb = ev # evs" "a = answer ev"
      by (auto elim!: receivedE simp: wait_event_def answer_def split: list.splits)
    then show ?thesis
      using q by (cases "served_events opts (cb_path cb0) tr"; cases "received tr") auto
  qed
  ultimately show ?thesis by blast
qed

theorem callback_wait_returns_witness:
  "\<exists>reply cb cb1. cb_run demo_options demo_server [Arrived demo_redirect, Served demo_redirect reply] cb \<and>
     cb_step demo_options cb (Received (\<lparr>cr_code = ''c'', cr_state = ''s''\<rparr>, None)) cb1"
proof -
  obtain reply cb where r: "cb_run demo_options demo_server [Arrived demo_redirect, Served demo_redirect reply] cb"
    using demo_run by blast
  have p: "cb_path demo_server = ''/callback''" by (simp add: demo_server_def)
  have "served_events demo_options ''/callback'' [Arrived demo_redirect, Served demo_redirect reply] =
      [\<lparr>ce_res = \<lparr>cr_code = ''c'', cr_state = ''s''\<rparr>, ce_err = None\<rparr>]"
    using demo_event by simp
  then obtain cb1 where "cb_step demo_options cb (Received (\<lparr>cr_code = ''c'', cr_state = ''s''\<rparr>, None)) cb1"
    using callback_wait_returns [OF demo_start r, of demo_redirect] unfolding p by (auto simp: answer_def)
  with r show ?thesis by (intro exI conjI)
qed

text \<open>C34: the redirect comes through.  An accepted path is literal: it starts with a slash and has no escape,
  query mark or double slash.  So when the authorization server sends the browser to the redirect URL with
  a query that carries one code and the state, the path of the request reads back as the one the handler
  compares with, whatever the values are; the browser is told of success, and \<open>Wait\<close> gets that code and
  that state.\<close>

theorem callback_redirect_roundtrip:
  assumes "start_callback_server listen opts = Inr cb" "good_values m" "length (pair_texts m) \<le> max_params"
    "map_of m ''code'' = Some [code]" "code \<noteq> []" "map_of m ''state'' = Some [state]" "map_of m ''error'' = None"
    "co_expected_state opts = [] \<or> co_expected_state opts = state"
  shows "has_prefix (cb_path cb) ''/'' \<and> \<not> contains_dslash (cb_path cb) \<and> CHR ''%'' \<notin> set (cb_path cb) \<and> CHR ''?'' \<notin> set (cb_path cb) \<and>
    redirect_url cb = ''http://'' @ cb_addr cb @ cb_path cb \<and>
    parse_request_path (cb_path cb @ CHR ''?'' # values_encode m) = Some (cb_path cb) \<and>
    snd (str_cut CHR ''?'' (cb_path cb @ CHR ''?'' # values_encode m)) = values_encode m \<and>
    (\<exists>cb1. handler opts \<lparr>cq_path = cb_path cb, cq_query = values_encode m\<rparr> cb =
         Some (write_body 200 (co_success_html opts) default_success_html, cb1) \<and>
       wait_event cb1 = Some ((\<lparr>cr_code = code, cr_state = state\<rparr>, None), cb1\<lparr>cb_result := []\<rparr>))"
proof -
  note cb = started [OF assms(1)]
  have lit: "parse_request_path (cb_path cb) = Some (cb_path cb)" "CHR ''?'' \<notin> set (cb_path cb)" "\<not> contains_dslash (cb_path cb)"
    using not_refused cb by blast+
  obtain n where n: "parse_query (values_encode m) = (n, False)" "map_of n = map_of m"
    using parse_encode_map [OF assms(2,3)] .
  then have get: "values_get n ''code'' = code" "values_get n ''state'' = state" "values_get n ''error'' = []"
    using assms by (simp_all add: values_get_def)
  have "handler opts \<lparr>cq_path = cb_path cb, cq_query = values_encode m\<rparr> cb =
      Some (write_body 200 (co_success_html opts) default_success_html,
        cb\<lparr>cb_once := True, cb_result := [\<lparr>ce_res = \<lparr>cr_code = code, cr_state = state\<rparr>, ce_err = None\<rparr>]\<rparr>)"
    unfolding handler_def Let_def mismatch using n get assms(5,8) cb by (auto simp: deliver_cases)
  moreover have "snd (str_cut CHR ''?'' (cb_path cb @ CHR ''?'' # values_encode m)) = values_encode m"
    unfolding str_cut_def using lit(2) by (subst dropWhile_append2) auto
  moreover have "parse_request_path (cb_path cb @ CHR ''?'' # values_encode m) = Some (cb_path cb)"
    using literal_path lit encode_no_control by blast
  moreover have "has_prefix (cb_path cb) ''/''" using cb callback_path_abs by simp
  ultimately show ?thesis using lit no_percent by (auto simp: redirect_url_def wait_event_def)
qed

theorem callback_redirect_roundtrip_witness:
  "\<exists>cb1. handler demo_options \<lparr>cq_path = ''/callback'', cq_query = values_encode [(''code'', [''a&b'']), (''state'', [''s''])]\<rparr> demo_server =
       Some (write_body 200 [] default_success_html, cb1) \<and>
     wait_event cb1 = Some ((\<lparr>cr_code = ''a&b'', cr_state = ''s''\<rparr>, None), cb1\<lparr>cb_result := []\<rparr>)"
proof -
  have p: "cb_path demo_server = ''/callback''" "co_success_html demo_options = []"
    by (simp_all add: demo_server_def demo_options_def)
  show ?thesis
    using callback_redirect_roundtrip [OF demo_start, of "[(''code'', [''a&b'']), (''state'', [''s''])]" "''a&b''" "''s''"]
    unfolding p by (simp add: good_values_def pair_texts_def max_params_def demo_options_def)
qed

text \<open>C35: nothing from the query becomes markup.  Unless the application supplies its own page, the body of
  an error answer is the fixed page around the escaped reason, in which no character of markup or quotation
  occurs; a success answer holds nothing of the query, and it is given exactly for a request that is worth a code.\<close>

theorem callback_page_escaped:
  assumes "handler opts r cb = Some (reply, cb1)" "cq_path r = cb_path cb"
  shows "(hr_status reply = 200 \<longleftrightarrow> (\<exists>ev. event_of opts (cb_path cb) r = Some ev \<and> ce_err ev = None)) \<and>
    (hr_status reply = 200 \<longrightarrow> hr_body reply = (if co_success_html opts = [] then default_success_html else co_success_html opts)) \<and>
    (hr_status reply \<noteq> 200 \<longrightarrow> hr_status reply = 400 \<and>
       (\<exists>why. set (escape_html why) \<inter> {CHR ''<'', CHR ''>'', CHR 0x22, CHR 0x27} = {} \<and>
          hr_body reply = (if co_error_html opts = [] then page_head @ ''<h2>Login failed</h2><p>'' @ escape_html why @ ''</p></body></html>''
            else co_error_html opts)))"
proof -
  define q where "q = fst (parse_query (cq_query r))"
  consider (bad) "event_of opts (cb_path cb) r = None" "reply = write_body 400 (co_error_html opts) (default_error_html ''state mismatch'')"
    | (fail) ev why where "event_of opts (cb_path cb) r = Some ev" "ce_err ev \<noteq> None"
        "reply = write_body 400 (co_error_html opts) (default_error_html why)"
    | (ok) ev where "event_of opts (cb_path cb) r = Some ev" "ce_err ev = None"
        "reply = write_body 200 (co_success_html opts) default_success_html"
    using assms unfolding handler_def event_of_def Let_def mismatch q_def [symmetric]
    by (fastforce split: if_splits)
  then show ?thesis
    using escape_no_markup by cases (fastforce simp: write_body_def default_error_html_def)+
qed

theorem callback_page_escaped_witness:
  "\<exists>reply cb1 why. handler demo_options \<lparr>cq_path = ''/callback'', cq_query = ''error=%3Cb%3E&state=s''\<rparr> demo_server = Some (reply, cb1) \<and>
     hr_body reply = page_head @ ''<h2>Login failed</h2><p>'' @ escape_html why @ ''</p></body></html>''"
proof -
  let ?r = "\<lparr>cq_path = ''/callback'', cq_query = ''error=%3Cb%3E&state=s''\<rparr>"
  obtain reply cb1 where h: "handler demo_options ?r demo_server = Some (reply, cb1)"
    using handler_some [OF started_inv [OF demo_start]] by blast
  have p: "cq_path ?r = cb_path demo_server" by (simp add: demo_server_def)
  have "case event_of demo_options (cb_path demo_server) ?r of None \<Rightarrow> False | Some ev \<Rightarrow> ce_err ev \<noteq> None" by code_simp
  then have "hr_status reply \<noteq> 200" using callback_page_escaped [OF h p] by auto
  then show ?thesis using callback_page_escaped [OF h p] h by (auto simp: demo_options_def)
qed

end
