(* ===== verification/Oauth_Flow.thy ===== *)
theory Oauth_Flow
  imports Oauth_Callback
begin

text \<open>
  The authorization-code flow as a whole: the pair and the state made for a login, the URL the browser is
  sent to, the callback server, and the request that trades the code.
\<close>

lemma rawurl_Nil [simp]: "b64_rawurl s = [] \<longleftrightarrow> s = []"
proof -
  have "(4 * n + 2) div 3 = 0 \<longleftrightarrow> n = 0" for n :: nat by presburger
  then show ?thesis by (metis length_0_conv length_rawurl)
qed

lemma sha256_not_Nil [simp]: "sha256 s \<noteq> []"
  using length_sha256 [of s] by (metis list.size(3) zero_neq_numeral)

lemma new_pkce_ok: "new_pkce w = (Inr pk, w1) \<Longrightarrow>
    pk_method pk = MethodS256 \<and> pk_challenge pk = b64_rawurl (sha256 (pk_verifier pk)) \<and> pk_challenge pk \<noteq> [] \<and> pk_verifier pk \<noteq> []"
  by (auto simp: new_pkce_def new_verifier_def challenge_def rand_read_Inr pkce_verifier_bytes_def)

lemma new_state_ok: "new_state w = (Inr st, w1) \<Longrightarrow> st \<noteq> []"
  by (auto simp: new_state_def rand_read_Inr state_bytes_def)

lemma settings_state [simp]:
  "auth_settings c state pk base ''state'' = Some [state]"
  "auth_settings c state pk base ''redirect_uri'' = Some [cf_redirect_url c]"
  "auth_settings c state pk base ''client_id'' = Some [cf_client_id c]"
  "auth_settings c state pk base ''code_challenge'' = (if pk_challenge pk = [] then None else Some [pk_challenge pk])"
  by (simp_all add: auth_settings_def)

text \<open>A redirect with a code and the state is worth an event, and some run delivers it.\<close>

lemma redirect_event:
  assumes "good_values m" "length (pair_texts m) \<le> max_params" "map_of m ''code'' = Some [code]" "code \<noteq> []"
    "map_of m ''state'' = Some [co_expected_state opts]" "map_of m ''error'' = None"
  shows "event_of opts p \<lparr>cq_path = p, cq_query = values_encode m\<rparr> =
    Some \<lparr>ce_res = \<lparr>cr_code = code, cr_state = co_expected_state opts\<rparr>, ce_err = None\<rparr>"
proof -
  obtain n where n: "parse_query (values_encode m) = (n, False)" "map_of n = map_of m"
    using parse_encode_map [OF assms(1,2)] .
  then have "values_get n ''code'' = code" "values_get n ''state'' = co_expected_state opts" "values_get n ''error'' = []"
    using assms by (simp_all add: values_get_def)
  then show ?thesis using n assms(4) by (simp add: event_of_def)
qed

lemma run_delivers:
  assumes "event_of opts (cb_path cb) r = Some ev" "cb_open cb" "\<not> cb_once cb" "cb_result cb = []" "cb_pending cb = []"
  shows "\<exists>tr cb2. cb_run opts cb tr cb2 \<and> received tr = [answer ev]"
proof -
  let ?cb = "cb\<lparr>cb_pending := [r]\<rparr>"
  have "cb_step opts cb (Arrived r) ?cb" using cb_step.arrive [of cb opts r] assms(2,5) by simp
  from more_steps [OF idle this] have run: "cb_run opts cb [Arrived r] ?cb" by simp
  have "map_option snd (handler opts r ?cb) = Some (?cb\<lparr>cb_once := True, cb_result := [ev]\<rparr>)"
    using assms by (simp add: handler_event deliver_cases)
  then obtain reply where "handler opts r ?cb = Some (reply, ?cb\<lparr>cb_once := True, cb_result := [ev]\<rparr>)" by auto
  from more_steps [OF run serve [OF _ this]] have "cb_run opts cb [Arrived r, Served r reply] (cb\<lparr>cb_once := True, cb_result := [ev], cb_pending := []\<rparr>)"
    by simp
  from more_steps [OF this receive] show ?thesis by (fastforce simp: wait_event_def answer_def)
qed

subsection \<open>Properties\<close>

text \<open>C5: the parts of a login fit together.  With a fresh pair and a fresh state, the URL shown to the
  user asks for exactly that state and for the challenge of the pair's verifier; an answer that \<open>Wait\<close>
  returns carries the same state, whatever requests reached the server; and trading its code posts, to
  the token endpoint alone, the code with the verifier whose digest is that challenge and with the
  same client and redirect URI as the URL had.\<close>

theorem login_flow_bound:
  assumes "new_pkce w0 = (Inr pk, w1)" "new_state w1 = (Inr st, w2)"
    "net_parse nt (cf_auth_url c) = Inr u" "length (split_on CHR ''&'' (u_raw_query u)) + 7 \<le> max_params"
    "auth_code_url_checked nt c st pk = Inr shown"
    "start_callback_server listen opts = Inr cb0" "co_expected_state opts = st" "cb_run opts cb0 tr cb" "a \<in> set (received tr)"
    "snd (fst (snd (exchange nt (Some (watched f)) c (cr_code (fst a)) (pk_verifier pk) (s, []) w2))) = calls"
  shows "\<exists>q n. shown = net_string nt (u\<lparr>u_raw_query := q\<rparr>) \<and> parse_query q = (n, False) \<and>
    map_of n ''state'' = Some [cr_state (fst a)] \<and> map_of n ''code_challenge'' = Some [b64_rawurl (sha256 (pk_verifier pk))] \<and>
    (\<forall>(rd, req) \<in> set calls. calls = [(rd, req)] \<and> rd = Refuse (Sentinel ErrTokenRedirect) \<and> hq_url req = cf_token_url c \<and>
       (\<exists>n2. parse_query (hq_body req) = (n2, False) \<and> map_of n2 ''code'' = Some [cr_code (fst a)] \<and>
          map_of n2 ''code_verifier'' = Some [pk_verifier pk] \<and>
          map_of n2 ''redirect_uri'' = map_of n ''redirect_uri'' \<and> map_of n2 ''client_id'' = map_of n ''client_id''))"
proof -
  note pk = new_pkce_ok [OF assms(1)] and st = new_state_ok [OF assms(2)]
  obtain q n where q: "shown = net_string nt (u\<lparr>u_raw_query := q\<rparr>)" "parse_query q = (n, False)"
      "map_of n = auth_settings c st pk (map_of (fst (parse_query (u_raw_query u))))"
    using auth_url_settings [OF assms(5,3,4)] by blast
  have state: "cr_state (fst a) = st" using received_state [OF assms(6,8,9)] assms(7) st by simp
  obtain n2 where n2: "parse_query (hq_body (token_request c (exchange_form c (cr_code (fst a)) (pk_verifier pk)))) = (n2, False)"
      "map_of n2 = map_of (exchange_form c (cr_code (fst a)) (pk_verifier pk))"
    using form_body [OF exchange_form_good] by blast
  have calls: "calls = [] \<or> calls = [(Refuse (Sentinel ErrTokenRedirect), token_request c (exchange_form c (cr_code (fst a)) (pk_verifier pk)))]"
    using assms(10) unfolding exchange_def post_watched by (auto split: if_splits)
  have sent: "map_of n2 ''code'' = Some [cr_code (fst a)]" "map_of n2 ''code_verifier'' = Some [pk_verifier pk]"
      "map_of n2 ''redirect_uri'' = map_of n ''redirect_uri''" "map_of n2 ''client_id'' = map_of n ''client_id''"
    unfolding n2(2) q(3) using pk by (simp_all add: exchange_form_map)
  have asked: "map_of n ''state'' = Some [cr_state (fst a)]" "map_of n ''code_challenge'' = Some [b64_rawurl (sha256 (pk_verifier pk))]"
    unfolding q(3) using pk state by simp_all
  have url: "hq_url (token_request c form) = cf_token_url c" for form by (simp add: token_request_def)
  show ?thesis
    using q(1,2) asked sent n2(1) calls url by (intro exI [of _ q] exI [of _ n]) auto
qed

theorem login_flow_bound_witness:
  "\<exists>pk st w1 w2 shown q n (a :: wait_answer). new_pkce (demo_world []) = (Inr pk, w1) \<and> new_state w1 = (Inr st, w2) \<and>
     auth_code_url_checked (demo_net :: (unit \<times> (redirects \<times> http_request) list) net) demo_config st pk = Inr shown \<and> shown = ''https://idp?'' @ q \<and> parse_query q = (n, False) \<and>
     cr_code (fst a) = ''c'' \<and> map_of n ''state'' = Some [cr_state (fst a)]"
proof -
  obtain pk w1 where pk: "new_pkce (demo_world []) = (Inr pk, w1)"
    by (simp add: new_pkce_def new_verifier_def challenge_def rand_read_Inr)
  obtain st w2 where st: "new_state w1 = (Inr st, w2)" by (simp add: new_state_def rand_read_Inr)
  define u where "u = \<lparr>u_scheme = ''https'', u_host = ''idp'', u_raw_query = ''state=old&tenant=t'', u_fragment = [], u_rest = []\<rparr>"
  have u: "net_parse (demo_net :: (unit \<times> (redirects \<times> http_request) list) net) (cf_auth_url demo_config) = Inr u" "length (split_on CHR ''&'' (u_raw_query u)) + 7 \<le> max_params"
    by (simp_all add: u_def demo_net_def max_params_def)
  have "snd (parse_query (u_raw_query u)) = False" unfolding u_def by code_simp
  moreover have "endpoint_ok u" by (simp add: endpoint_ok_def u_def)
  moreover obtain q0 where "auth_params demo_config st pk (fst (parse_query (u_raw_query u))) = Inr q0"
    using auth_params_Inl new_pkce_ok [OF pk] by (metis sum.exhaust)
  ultimately obtain shown where shown: "auth_code_url_checked (demo_net :: (unit \<times> (redirects \<times> http_request) list) net) demo_config st pk = Inr shown"
    unfolding auth_url_cases [OF u(1)] by simp
  define opts where "opts = demo_options\<lparr>co_expected_state := st\<rparr>"
  have "co_path opts = co_path demo_options" "co_port opts = co_port demo_options" by (simp_all add: opts_def)
  then have start: "start_callback_server demo_listener opts = Inr demo_server"
    using demo_start unfolding start_callback_server_def by (simp only:)
  let ?m = "[(''code'', [''c'']), (''state'', [st])]"
  have "event_of opts (cb_path demo_server) \<lparr>cq_path = cb_path demo_server, cq_query = values_encode ?m\<rparr> =
      Some \<lparr>ce_res = \<lparr>cr_code = ''c'', cr_state = co_expected_state opts\<rparr>, ce_err = None\<rparr>"
    by (rule redirect_event) (simp_all add: good_values_def pair_texts_def max_params_def opts_def)
  from run_delivers [OF this] obtain tr cb where
    run: "cb_run opts demo_server tr cb" "received tr = [answer \<lparr>ce_res = \<lparr>cr_code = ''c'', cr_state = co_expected_state opts\<rparr>, ce_err = None\<rparr>]"
    by (auto simp: demo_server_def)
  let ?a = "answer \<lparr>ce_res = \<lparr>cr_code = ''c'', cr_state = co_expected_state opts\<rparr>, ce_err = None\<rparr>"
  have a: "?a \<in> set (received tr)" "co_expected_state opts = st" using run(2) by (simp_all add: opts_def)
  obtain q n where "shown = net_string (demo_net :: (unit \<times> (redirects \<times> http_request) list) net) (u\<lparr>u_raw_query := q\<rparr>)" "parse_query q = (n, False)" "map_of n ''state'' = Some [cr_state (fst ?a)]"
    using login_flow_bound [where f = "\<lambda>_ _ s. (Inl path_error, s)" and s = "()", OF pk st u shown start a(2) run(1) a(1) refl] by blast
  moreover from this(1) have "shown = ''https://idp?'' @ q" by (simp add: demo_net_def u_def)
  moreover have "cr_code (fst ?a) = ''c''" by (simp add: answer_def)
  ultimately have all: "new_pkce (demo_world []) = (Inr pk, w1) \<and> new_state w1 = (Inr st, w2) \<and>
     auth_code_url_checked (demo_net :: (unit \<times> (redirects \<times> http_request) list) net) demo_config st pk = Inr shown \<and> shown = ''https://idp?'' @ q \<and> parse_query q = (n, False) \<and>
     cr_code (fst ?a) = ''c'' \<and> map_of n ''state'' = Some [cr_state (fst ?a)]"
    using pk st shown by (intro conjI)
  show ?thesis by (rule exI)+ (rule all)
qed

end
