(* ===== verification/Spec2Isabelle.thy ===== *)
theory Spec2Isabelle
  imports Store_Safety Store_Bounds Windows_Acl Ledger Ledger_Mutex Session Profile Audit_Writers Secret Sts Resolve Oauth_Flow
begin

text \<open>
  A verification development for credkit, a Go library of credential management for command line tools.

  \<^bold>\<open>The program.\<close>  The package \<open>store\<close> keeps private files below a trusted root directory: every name is
  local, every directory and file is opened component by component without following links, writes are
  staged in a temporary file and renamed.  On it rest \<open>token\<close> (the ledger of issued tokens, one JSON
  file), \<open>session\<close> (a cached key per provider), \<open>profile\<close> (named profiles, credentials, the active name),
  \<open>audit\<close> (an append-only log of one JSON object a line) and the file store of \<open>secret\<close>, whose other
  store drives the macOS program \<open>security\<close>.  The package \<open>sts\<close> rotates a token at a provider and records
  it in a ledger and an audit log; \<open>resolve\<close> looks for a credential in a chain of steps; \<open>oauth\<close> holds
  PKCE, the state parameter, the token endpoint and the local callback server of a login.

  \<^bold>\<open>Foundations.\<close>  A Go string or byte slice is a list of characters, one per byte; \<open>int64\<close> and
  \<open>time.Duration\<close> are 64-bit words; errors are the type \<open>goerr\<close> of \<open>Prelude\<close>, results are sums.
  \<^item> \<open>Go_Strings\<close>, \<open>Go_Time\<close>, \<open>Go_Json\<close>, \<open>Go_Codec\<close>, \<open>Go_Quote\<close>, \<open>Go_Crypto\<close>, \<open>Go_Url\<close>: what the program uses of
    the standard library, written out: paths and trimming, instants and RFC 3339 texts, the JSON scanner,
    printer and struct decoding with case-insensitive names, SHA-256, base64, hexadecimal, queries.
    Their lemmas are the round trips and injectivity facts the components need.
  \<^item> \<open>Go_FS\<close>: a POSIX file system of inodes with modes and links, the calls behind \<open>os\<close> and \<open>os.Root\<close>, the
    clock, the environment and entropy.  The schedule of a world says for each call whether it runs, fails
    (a write after some bytes), or runs after another process has changed the disk.
  \<^item> \<open>Disk_Logic\<close>: a small logic of specifications for sequences of calls that may fail.

  \<^bold>\<open>Storage.\<close>  \<open>Store\<close> translates \<open>src/store/store.go\<close>, \<open>root.go\<close> and \<open>permissions_other.go\<close> function by function.
  \<open>Store_Laws\<close> and \<open>Store_Map\<close> show that on a private root the operations refine a map from managed names to
  contents, whichever calls fail.  \<open>Store_Interface\<close> states that as the locales \<open>file_map\<close>, \<open>file_map_del\<close> and
  \<open>typed_store\<close> and interprets them on the code's operations; \<open>Store_Append\<close> does so for \<open>OpenAppendSecure\<close>
  (locale \<open>append_log\<close>), and shows that a file beside the log is left alone.  \<open>Store_Safety\<close> has what holds on any disk, in part against interference: handles are
  private, links and escaping names are refused, reads change nothing; and that a process that dies in
  the middle of a write leaves the old contents or the new ones.  \<open>Store_Bounds\<close> bounds how many
  calls of \<open>os\<close> and \<open>io\<close> each operation makes, so the package's own loops, whatever interferes; it says nothing of how
  long one such call takes.  \<open>Windows_Acl\<close>
  translates \<open>permissions_windows.go\<close> over a byte memory with 64-bit addresses and shows that the check is the
  policy in unbounded arithmetic and reads nothing outside the descriptor.

  \<^bold>\<open>Clients.\<close>
  \<^item> \<open>Ledger\<close> (\<open>src/token/token.go\<close>): every operation as a transaction on the list of entries; locale
    \<open>token_ledger\<close> is what \<open>sts\<close> relies on.  \<open>Ledger_Mutex\<close> runs the operations of several goroutines in steps that
    interleave, with the mutex of the process as a step relation, and shows that they are serializable.
  \<^item> \<open>Session\<close> (\<open>src/session/session.go\<close>): names of providers, lifetimes with the overflow guard, resolution.
  \<^item> \<open>Profile\<close> (\<open>src/profile/profile.go\<close>): names, saving, loading, listing, deleting, the active profile.
  \<^item> \<open>Audit_Log\<close> (\<open>src/audit/audit.go\<close>): appending, the scanner with its buffer limit, and a reference for queries.
    \<open>Audit_Writers\<close> runs \<open>Log\<close> of several goroutines and loggers in steps that interleave: lines never mix.
  \<^item> \<open>Secret\<close> (\<open>src/secret/secret.go\<close>): both stores.  Locale \<open>truthful_store\<close>, whose answers without an error
    are true, has both as instances; its extension \<open>secret_store\<close>, whose failed changes change nothing, has the file store, for a failed
    \<open>Put\<close> of the keychain store may leave the item changed.  The hypothesis \<open>reports\<close> says that what the
    program \<open>security\<close> prints in a search is so; it may fail at any time, and how it reads a script is left open.
  \<^item> \<open>Sts\<close> (\<open>src/sts\<close>): \<open>Rotate\<close> and \<open>CheckHealth\<close> over any provider and context; traces of the calls
    and their answers against a protocol (\<open>protocol\<close>) that ties every flag of the result to an answer, and against the entry
    of the audit log (\<open>rotate_stage\<close>); the ledger after a rotation, with a log beside it.
  \<^item> \<open>Resolve\<close> (\<open>src/resolve/resolve.go\<close>): steps and the chain, against the relation of skipped steps.
  \<^item> \<open>Oauth_Pkce\<close>, \<open>Oauth_Token\<close>, \<open>Oauth_Callback\<close> (\<open>src/oauth\<close>): pairs and states; tokens, requests and the authorization
    URL; the callback server as a labelled step relation with its invariant.  \<open>Oauth_Flow\<close> joins them: the URL, the
    answer of the callback and the request for the token agree on state, verifier and redirect URI.

  \<^bold>\<open>Bounds and fuel.\<close>  \<open>open_managed\<close> has the two rounds of the code's loop; resolution follows 8 links below a root and 40
  elsewhere, the limits of Go and Linux; JSON nests at most 10000 deep and the fuel of the parser, twice the length
  of the input plus two, is shown to be enough in \<open>Go_Json\<close>; a query has at most 10000 settings, the scanner's
  buffer is \<open>MaxEntrySize\<close> plus two, responses of the token endpoint are cut at 1 MiB plus one byte.

  \<^bold>\<open>Parameters.\<close>  Code that is not in the repository is an argument: the provider and the context of \<open>sts\<close>, the program
  \<open>security\<close>, the terminal (\<open>golang.org/x/term\<close>), the HTTP client, the parser of absolute URLs, the listener, and
  the native functions of Windows (\<open>golang.org/x/sys/windows\<close>).  Hypotheses about them are named, and each property
  that has one comes with a witness on a concrete instance.

  \<^bold>\<open>Not modelled.\<close>  The system calls inside \<open>io.ReadAll\<close>, a listing or a write, each of which is one call of the model, before which
  other processes act (a failing write or read may have done a part); closing a handle where the code ignores the result; memory clearing by the runtime; calls of
  the operating system inside a step of \<open>Ledger_Mutex\<close> or \<open>Audit_Writers\<close>, which no other goroutine interrupts; a crash
  of the machine, which may lose what is not on the disk yet (a crash of the process is \<open>crash_at\<close>); the router of \<open>net/http\<close>,
  whose choice of requests for the handler is left open; log and error texts of the operating system; runes beyond ASCII
  that \<open>strconv\<close> does not print; build recipes, scripts, tests and examples.

  \<^bold>\<open>What modelling showed.\<close>  Delivery of a callback does not stop the server, although its comment says so
  (\<open>still_open\<close>).  A standard member spelled in another case is decoded and yet kept in \<open>Extra\<close>
  (\<open>case_variant_kept\<close>).  After a torn write the next entry of the audit log is lost to queries, although \<open>Log\<close> reports
  success (the property of the torn line in \<open>Audit_Log\<close>).  \<open>List\<close> leaves out profiles it cannot read, without an error.
\<close>

end
